(* ===== verification/Prelude.thy ===== *)
theory Prelude
  imports
    "HOL-Library.Word"
    "HOL-Library.Monad_Syntax"
begin

text \<open>
  Shared ground of the development: the widths of the target, the outcome type of a C call, the
  arithmetic of unsigned words read as natural numbers, and rounding to a multiple.

  The target is the PYNQ board (Zynq-7000, 32-bit ARM, little endian), which is what
  \<^verbatim>\<open>Makefile\<close> builds for: \<^verbatim>\<open>size_t\<close>, \<^verbatim>\<open>uintptr_t\<close>, \<^verbatim>\<open>unsigned\<close> and pointers are 32 bits wide.
  A C function that can fail an \<^verbatim>\<open>assert\<close>, call \<^verbatim>\<open>abort\<close> or loop for ever is modelled with
  result type \<^typ>\<open>'a option\<close>: \<^const>\<open>None\<close> is ``the call does not return'', so every theorem
  that concludes \<open>= Some r\<close> states that the call returns as well as what it returns.
\<close>

unbundle bit_operations_syntax

section \<open>Types of the target\<close>

type_synonym u8 = "8 word"
type_synonym u32 = "32 word"
type_synonym u64 = "64 word"

text \<open>A C \<^verbatim>\<open>assert\<close>: the libraries are built without \<^verbatim>\<open>NDEBUG\<close>.\<close>

definition assert_c :: "bool \<Rightarrow> unit option" where
  "assert_c b = (if b then Some () else None)"

lemma assert_c_simps [simp]: "assert_c True = Some ()" "assert_c False = None"
  by (simp_all add: assert_c_def)

lemma assert_c_bind_Some [simp]:
  "Option.bind (assert_c b) f = Some r \<longleftrightarrow> b \<and> f () = Some r"
  by (simp add: assert_c_def)

section \<open>Unsigned arithmetic without wrap-around\<close>

named_theorems nowrap \<open>reading word arithmetic as arithmetic on \<open>nat\<close> where it does not wrap\<close>

lemma unat_less_32 [simp]: "unat (x :: u32) < 4294967296"
  using unsigned_less[of x] by simp

lemma unat_add_nowrap [nowrap]:
  "unat a + unat b < 4294967296 \<Longrightarrow> unat (a + b) = unat a + unat (b :: u32)"
  by (simp add: unat_add_lem[THEN iffD1])

lemma unat_sub_nowrap [nowrap]:
  "unat b \<le> unat a \<Longrightarrow> unat (a - b) = unat a - unat (b :: u32)"
  by (simp add: unat_sub word_le_nat_alt)

lemma unat_mult_nowrap [nowrap]:
  "unat a * unat b < 4294967296 \<Longrightarrow> unat (a * b) = unat a * unat (b :: u32)"
  by (simp add: unat_mult_lem[THEN iffD1])

lemma unat_of_nat_32 [nowrap]: "n < 4294967296 \<Longrightarrow> unat (word_of_nat n :: u32) = n"
  by (simp add: unsigned_of_nat take_bit_nat_eq_self)

lemma word_of_nat_unat_32 [simp]: "word_of_nat (unat x) = (x :: u32)"
  by simp

lemma unat_add_of_nat:
  assumes "unat (p :: u32) + k < 4294967296"
  shows "unat (p + word_of_nat k) = unat p + k"
proof -
  have "unat (word_of_nat k :: u32) = k" using assms by (intro unat_of_nat_32) simp
  then show ?thesis using assms by (simp add: unat_add_nowrap)
qed

lemma u32_eq_iff: "a = b \<longleftrightarrow> unat a = unat (b :: u32)"
  by (simp add: word_unat_eq_iff)

section \<open>Rounding up to a multiple\<close>

definition round_up :: "nat \<Rightarrow> nat \<Rightarrow> nat" where
  "round_up n a = (n + a - 1) div a * a"

lemma round_up_dvd [simp]: "a dvd round_up n a"
  by (simp add: round_up_def)

lemma round_up_bounds:
  assumes "0 < a"
  shows "n \<le> round_up n a" and "round_up n a < n + a"
proof -
  have eq: "(n + a - 1) div a * a + (n + a - 1) mod a = n + a - 1" by simp
  have md: "(n + a - 1) mod a < a" using assms by simp
  show "n \<le> round_up n a" "round_up n a < n + a"
    using eq md assms unfolding round_up_def by linarith+
qed

lemma multiple_unique:
  fixes x y a :: nat
  assumes "a dvd x" "a dvd y" "x < y + a" "y < x + a"
  shows "x = y"
proof -
  obtain i j where ij: "x = a * i" "y = a * j" using assms(1,2) by (auto elim!: dvdE)
  have "a * i < a * (j + 1)" "a * j < a * (i + 1)" using assms(3,4) ij by simp_all
  then have "i < j + 1" "j < i + 1" by (metis mult_less_cancel1)+
  with ij show ?thesis by simp
qed

lemma round_up_unique:
  assumes "a dvd x" "n \<le> x" "x < n + a"
  shows "round_up n a = x"
proof -
  have "0 < a" using assms by linarith
  with assms round_up_bounds[of a n] show ?thesis
    by (intro multiple_unique[of a]) auto
qed

lemma round_up_id [simp]: "a dvd n \<Longrightarrow> 0 < a \<Longrightarrow> round_up n a = n"
  by (rule round_up_unique) auto

lemma round_up_least:
  assumes "a dvd x" "n \<le> x" "0 < a"
  shows "round_up n a \<le> x"
proof (rule ccontr)
  assume "\<not> round_up n a \<le> x"
  then have "x < round_up n a" by simp
  then have "x + a \<le> round_up n a"
    using assms(1) round_up_dvd[of a n] by (metis dvd_diff_nat dvd_imp_le le_diff_conv2
        less_or_eq_imp_le zero_less_diff add.commute)
  with round_up_bounds(2)[OF assms(3), of n] assms(2) show False by linarith
qed

end
