(* ===== verification/Memory.thy ===== *)
theory Memory
  imports Prelude
begin

text \<open>
  The memory the allocators of \<^verbatim>\<open>src/lib/allocators.c\<close> keep their lists in: bytes at 32-bit
  addresses, read and written as little-endian 32-bit words (pointers and \<^verbatim>\<open>size_t\<close> fields of the
  intrusive nodes and headers), and \<^verbatim>\<open>memset\<close>/\<^verbatim>\<open>memmove\<close> over byte ranges.  The two laws of a
  word store, and its frame, are stated once as the locale \<open>word_store\<close> and discharged for
  the byte memory.
\<close>

type_synonym addr = u32
type_synonym mem = "addr \<Rightarrow> u8"

definition load32 :: "mem \<Rightarrow> addr \<Rightarrow> u32" where
  "load32 m a = ucast (m a) OR push_bit 8 (ucast (m (a + 1)))
     OR push_bit 16 (ucast (m (a + 2))) OR push_bit 24 (ucast (m (a + 3)))"

definition store32 :: "mem \<Rightarrow> addr \<Rightarrow> u32 \<Rightarrow> mem" where
  "store32 m a v = m(a := ucast v, a + 1 := ucast (drop_bit 8 v),
     a + 2 := ucast (drop_bit 16 v), a + 3 := ucast (drop_bit 24 v))"

text \<open>\<^verbatim>\<open>memset(p, c, n)\<close> and \<^verbatim>\<open>memmove(dst, src, n)\<close> (also \<^verbatim>\<open>memcpy\<close>), byte by byte.\<close>

primrec memset_n :: "mem \<Rightarrow> addr \<Rightarrow> u8 \<Rightarrow> nat \<Rightarrow> mem" where
  "memset_n m p c 0 = m"
| "memset_n m p c (Suc n) = (memset_n m p c n)(p + word_of_nat n := c)"

definition memmove_n :: "mem \<Rightarrow> addr \<Rightarrow> addr \<Rightarrow> nat \<Rightarrow> mem" where
  "memmove_n m dst src n = fold (\<lambda>i m'. m'(dst + word_of_nat i := m (src + word_of_nat i))) [0..<n] m"

text \<open>The bytes of an address range, as a list: what a caller sees of a buffer.\<close>

definition bytes_at :: "mem \<Rightarrow> addr \<Rightarrow> nat \<Rightarrow> u8 list" where
  "bytes_at m p n = map (\<lambda>i. m (p + word_of_nat i)) [0..<n]"

definition aligned4 :: "addr \<Rightarrow> bool" where
  "aligned4 a \<longleftrightarrow> 4 dvd unat a"

section \<open>The laws of a word store\<close>

locale word_store =
  fixes ld :: "'m \<Rightarrow> addr \<Rightarrow> u32"
    and st :: "'m \<Rightarrow> addr \<Rightarrow> u32 \<Rightarrow> 'm"
  assumes ld_st_same: "ld (st m a v) a = v"
    and ld_st_other: "aligned4 a \<Longrightarrow> aligned4 b \<Longrightarrow> a \<noteq> b \<Longrightarrow> ld (st m a v) b = ld m b"
begin

lemma ld_st: "aligned4 a \<Longrightarrow> aligned4 b \<Longrightarrow> ld (st m a v) b = (if a = b then v else ld m b)"
  by (simp add: ld_st_same ld_st_other)

text \<open>A sequence of aligned stores is invisible at an address none of them names.\<close>

lemma ld_stores_other:
  "aligned4 b \<Longrightarrow> (\<And>a v. (a, v) \<in> set ws \<Longrightarrow> aligned4 a \<and> a \<noteq> b) \<Longrightarrow>
   ld (fold (\<lambda>(a, v) m. st m a v) ws m) b = ld m b"
proof (induction ws arbitrary: m)
  case Nil
  then show ?case by simp
next
  case (Cons w ws)
  obtain a v where w: "w = (a, v)" by (cases w)
  have "ld (fold (\<lambda>(a, v) m. st m a v) ws (st m a v)) b = ld (st m a v) b"
    by (rule Cons.IH) (use Cons.prems in auto)
  also have "\<dots> = ld m b" using Cons.prems w by (intro ld_st_other) auto
  finally show ?case by (simp add: w)
qed

end

lemma load32_store32_same: "load32 (store32 m a v) a = v"
proof (rule bit_word_eqI)
  fix n assume n: "n < LENGTH(32)"
  show "bit (load32 (store32 m a v) a) n \<longleftrightarrow> bit v n"
    using n by (cases "n < 16"; cases "n < 24") (auto simp: load32_def store32_def bit_simps)
qed

lemma store32_byte_other: "x \<notin> {a, a + 1, a + 2, a + 3} \<Longrightarrow> store32 m a v x = m x"
  by (auto simp: store32_def)

lemma aligned4_plus:
  assumes "aligned4 z" "unat k < 4"
  shows "unat (z + k) = unat z + unat k"
proof -
  have "unat z < 4294967296" by simp
  with assms have "unat z + unat k < 4294967296" unfolding aligned4_def by presburger
  then show ?thesis by (rule unat_add_nowrap)
qed

lemma aligned4_byte_index:
  assumes "z \<in> {w, w + 1, w + 2, w + 3}" "aligned4 w"
  shows "unat w \<le> unat z \<and> unat z < unat w + 4"
  using assms aligned4_plus[of w 1] aligned4_plus[of w 2] aligned4_plus[of w 3] by auto

lemma aligned4_bytes_disjoint:
  assumes "aligned4 x" "aligned4 y" "x \<noteq> y"
  shows "{x, x + 1, x + 2, x + 3} \<inter> {y, y + 1, y + 2, y + 3} = {}"
proof (rule ccontr)
  assume "\<not> ?thesis"
  then obtain z where z: "z \<in> {x, x + 1, x + 2, x + 3}" "z \<in> {y, y + 1, y + 2, y + 3}" by blast
  have "unat x = unat y"
    using aligned4_byte_index[OF z(1) assms(1)] aligned4_byte_index[OF z(2) assms(2)] assms(1,2)
    unfolding aligned4_def by presburger
  with assms(3) show False by (simp add: word_unat_eq_iff)
qed

lemma load32_store32_other:
  assumes "aligned4 a" "aligned4 b" "a \<noteq> b"
  shows "load32 (store32 m a v) b = load32 m b"
proof -
  have "store32 m a v x = m x" if "x \<in> {b, b + 1, b + 2, b + 3}" for x
    using that aligned4_bytes_disjoint[OF assms] by (intro store32_byte_other) blast
  then show ?thesis by (simp add: load32_def)
qed

interpretation bm: word_store load32 store32
  by unfold_locales (simp_all add: load32_store32_same load32_store32_other)

section \<open>Frames\<close>

text \<open>A word store only changes bytes of its own word.\<close>

lemma store32_frame:
  assumes "aligned4 a" "unat x < unat a \<or> unat a + 4 \<le> unat x"
  shows "store32 m a v x = m x"
proof (rule store32_byte_other)
  show "x \<notin> {a, a + 1, a + 2, a + 3}" using aligned4_byte_index[OF _ assms(1)] assms(2) by fastforce
qed

lemma memset_n_apply:
  assumes "unat p + n \<le> 4294967296"
  shows "memset_n m p c n x = (if unat p \<le> unat x \<and> unat x < unat p + n then c else m x)"
  using assms
proof (induction n)
  case 0
  then show ?case by auto
next
  case (Suc n)
  have u: "unat (p + word_of_nat n) = unat p + n"
    using Suc.prems by (simp add: unat_add_nowrap unat_of_nat_32)
  show ?case
  proof (cases "x = p + word_of_nat n")
    case True
    then show ?thesis using u by simp
  next
    case False
    then have "unat x \<noteq> unat p + n" using u by (metis word_unat_eq_iff)
    then show ?thesis using Suc False by auto
  qed
qed

lemma memmove_n_apply:
  assumes "unat dst + n \<le> 4294967296"
  shows "memmove_n m dst src n x =
    (if unat dst \<le> unat x \<and> unat x < unat dst + n then m (src + (x - dst)) else m x)"
  using assms
proof (induction n)
  case 0
  then show ?case by (auto simp: memmove_n_def)
next
  case (Suc n)
  have u: "unat (dst + word_of_nat n) = unat dst + n"
    using Suc.prems by (simp add: unat_add_nowrap unat_of_nat_32)
  have step: "memmove_n m dst src (Suc n) =
      (memmove_n m dst src n)(dst + word_of_nat n := m (src + word_of_nat n))"
    by (simp add: memmove_n_def)
  show ?case
  proof (cases "x = dst + word_of_nat n")
    case True
    then show ?thesis using u by (simp add: step)
  next
    case False
    then have "unat x \<noteq> unat dst + n" using u by (metis word_unat_eq_iff)
    then show ?thesis using Suc False by (auto simp: step)
  qed
qed

lemma length_bytes_at [simp]: "length (bytes_at m p n) = n"
  by (simp add: bytes_at_def)

lemma bytes_at_cong:
  "(\<And>i. i < n \<Longrightarrow> m' (p + word_of_nat i) = m (p + word_of_nat i)) \<Longrightarrow> bytes_at m' p n = bytes_at m p n"
  by (simp add: bytes_at_def)

end
