(* ===== verification/Align.thy ===== *)
theory Align
  imports Memory
begin

text \<open>
  The alignment arithmetic of \<^verbatim>\<open>src/lib/allocators.c\<close>: \<^verbatim>\<open>is_power_of_two\<close>,
  \<^verbatim>\<open>align_forward_uintptr\<close>, \<^verbatim>\<open>align_forward_size\<close> and \<^verbatim>\<open>calc_padding_with_header\<close>, on 32-bit words,
  and their meaning on natural numbers.
\<close>

section \<open>Definitions\<close>

definition is_power_of_two :: "u32 \<Rightarrow> bool" where
  "is_power_of_two x \<longleftrightarrow> x \<noteq> 0 \<and> x AND (x - 1) = 0"

definition align_forward_uintptr :: "u32 \<Rightarrow> u32 \<Rightarrow> u32 option" where
  "align_forward_uintptr ptr align = do {
     assert_c (is_power_of_two align);
     let modulo = ptr AND (align - 1);
     Some (if modulo \<noteq> 0 then ptr + (align - modulo) else ptr)
   }"

definition align_forward_size :: "u32 \<Rightarrow> u32 \<Rightarrow> u32 option" where
  "align_forward_size ptr align = do {
     assert_c (is_power_of_two align);
     let modulo = ptr AND (align - 1);
     Some (if modulo \<noteq> 0 then ptr + (align - modulo) else ptr)
   }"

definition calc_padding_with_header :: "u32 \<Rightarrow> u32 \<Rightarrow> u32 \<Rightarrow> u32 option" where
  "calc_padding_with_header ptr alignment header_size = do {
     assert_c (is_power_of_two alignment);
     let a = alignment;
     let modulo = ptr AND (a - 1);
     let padding = (if modulo \<noteq> 0 then a - modulo else 0);
     let needed_space = header_size;
     Some (if padding < needed_space then
             (let needed_space = needed_space - padding in
              if needed_space AND (a - 1) \<noteq> 0 then padding + a * (1 + needed_space div a)
              else padding + a * (needed_space div a))
           else padding)
   }"

section \<open>Powers of two and masks\<close>

lemma and_pred_bit:
  fixes n k :: nat
  assumes "2 ^ k < n" "n < 2 ^ Suc k"
  shows "n AND (n - 1) \<noteq> 0"
proof -
  have top: "bit (j :: nat) k" if "2 ^ k \<le> j" "j < 2 ^ Suc k" for j
  proof -
    have "j div 2 ^ k = 1" using that by (intro div_nat_eqI) simp_all
    then show ?thesis by (simp add: bit_iff_odd)
  qed
  have "bit n k" "bit (n - 1) k" using top[of n] top[of "n - 1"] assms by auto
  then have "bit (n AND (n - 1)) k" by (simp add: bit_and_iff)
  then show ?thesis by (metis bit_0_eq bot_apply bot_bool_def)
qed

lemma unat_pred: "x \<noteq> 0 \<Longrightarrow> unat (x - 1) = unat x - 1" for x :: u32
  by (simp add: unat_minus_one)

text \<open>The test of the source holds exactly for the powers of two a word can hold.\<close>

lemma is_power_of_two_iff: "is_power_of_two x \<longleftrightarrow> (\<exists>k < 32. unat x = 2 ^ k)"
proof
  assume p: "is_power_of_two x"
  then have nz: "x \<noteq> 0" and "unat (x AND (x - 1)) = 0" by (simp_all add: is_power_of_two_def)
  then have x: "0 < unat x" and z: "unat x AND (unat x - 1) = 0"
    by (simp_all add: unat_gt_0 unsigned_and_eq unat_pred)
  define k where "k = (LEAST k. unat x < 2 ^ Suc k)"
  have "unat x < 2 ^ Suc (unat x)" using less_exp[of "unat x"] unfolding power_Suc by linarith
  then have up: "unat x < 2 ^ Suc k" unfolding k_def by (rule LeastI)
  have low: "2 ^ k \<le> unat x"
  proof (cases k)
    case 0
    then show ?thesis using x by simp
  next
    case (Suc j)
    then have "\<not> unat x < 2 ^ Suc j" using not_less_Least[of j "\<lambda>k. unat x < 2 ^ Suc k"]
      unfolding k_def by simp
    then show ?thesis using Suc by simp
  qed
  have eq: "unat x = 2 ^ k" using and_pred_bit[of k "unat x"] low up z by (cases "2 ^ k < unat x") auto
  moreover have "k < 32"
  proof (rule ccontr)
    assume "\<not> k < 32"
    then have "(2::nat) ^ 32 \<le> 2 ^ k" by (intro power_increasing) auto
    with eq unat_less_32[of x] show False by simp
  qed
  ultimately show "\<exists>k < 32. unat x = 2 ^ k" by blast
next
  assume "\<exists>k < 32. unat x = 2 ^ k"
  then obtain k where k: "k < 32" "unat x = 2 ^ k" by blast
  then have nz: "x \<noteq> 0" by auto
  have "unat (x AND (x - 1)) = 2 ^ k AND (2 ^ k - 1)"
    using k nz by (simp add: unsigned_and_eq unat_pred)
  also have "\<dots> = take_bit k (2 ^ k)" by (simp add: take_bit_eq_mask mask_eq_exp_minus_1)
  also have "\<dots> = 0" by (simp add: take_bit_eq_mod)
  finally show "is_power_of_two x" using nz by (simp add: is_power_of_two_def unat_eq_0)
qed

lemma unat_and_pred:
  assumes "is_power_of_two a"
  shows "unat (x AND (a - 1)) = unat x mod unat a"
proof -
  obtain k where k: "unat a = 2 ^ k" using assms is_power_of_two_iff by blast
  have nz: "a \<noteq> 0" using assms by (simp add: is_power_of_two_def)
  have "unat (x AND (a - 1)) = unat x AND mask k"
    using k nz by (simp add: unsigned_and_eq unat_pred mask_eq_exp_minus_1)
  also have "\<dots> = unat x mod 2 ^ k" by (simp add: take_bit_eq_mask[symmetric] take_bit_eq_mod)
  finally show ?thesis using k by simp
qed

lemma power_of_two_pos: "is_power_of_two a \<Longrightarrow> 0 < unat a"
  by (simp add: is_power_of_two_def unat_gt_0)

lemma and_pred_eq_0: "is_power_of_two a \<Longrightarrow> x AND (a - 1) = 0 \<longleftrightarrow> unat x mod unat a = 0"
  by (simp add: unat_and_pred flip: unat_eq_0)

lemma is_power_of_two_dvd:
  assumes "is_power_of_two a" "is_power_of_two b" "unat a \<le> unat b"
  shows "unat a dvd unat b"
  using assms by (auto simp: is_power_of_two_iff le_imp_power_dvd)

section \<open>Rounding up\<close>

text \<open>
  Both rounding functions return, and what they return is the exact rounding reduced modulo
  \<^term>\<open>2 ^ 32\<close>: just below the top of the address space it wraps to 0.
\<close>

lemma round_up_mod:
  fixes n a :: nat
  assumes "0 < a"
  shows "round_up n a = (if n mod a \<noteq> 0 then n + (a - n mod a) else n)"
proof (rule round_up_unique)
  let ?r = "if n mod a \<noteq> 0 then n + (a - n mod a) else n"
  have "n div a * a + n mod a = n" "n mod a < a" using assms by simp_all
  then have "n + (a - n mod a) = n div a * a + a" by linarith
  then show "a dvd ?r" by auto
  show "n \<le> ?r" "?r < n + a" using assms mod_less_divisor[OF assms, of n] by auto
qed

lemma align_word_eq:
  assumes "is_power_of_two a"
  shows "unat (if x AND (a - 1) \<noteq> 0 then x + (a - (x AND (a - 1))) else x)
    = round_up (unat x) (unat a) mod 4294967296"
proof (cases "x AND (a - 1) = 0")
  case True
  then show ?thesis using assms by (simp add: and_pred_eq_0 round_up_mod power_of_two_pos)
next
  case False
  have "unat x mod unat a < unat a" using power_of_two_pos[OF assms] by simp
  then have "unat (a - (x AND (a - 1))) = unat a - unat x mod unat a"
    using unat_and_pred[OF assms, of x] by (simp add: unat_sub_nowrap)
  then show ?thesis using False assms
    by (simp add: and_pred_eq_0 round_up_mod power_of_two_pos unat_word_ariths)
qed

lemma align_forward_size_eq:
  assumes "is_power_of_two a"
  obtains p where "align_forward_size x a = Some p"
    "unat p = round_up (unat x) (unat a) mod 4294967296"
  using align_word_eq[OF assms, of x] assms by (simp add: align_forward_size_def Let_def)

lemma align_forward_uintptr_eq_size: "align_forward_uintptr x a = align_forward_size x a"
  by (simp add: align_forward_uintptr_def align_forward_size_def)

section \<open>The padding in front of a header\<close>

text \<open>
  The padding a block at \<open>p\<close> needs so that a header of \<open>h\<close> bytes fits in it and what follows is a
  multiple of \<open>a\<close>.
\<close>

definition pad_of :: "nat \<Rightarrow> nat \<Rightarrow> nat \<Rightarrow> nat" where
  "pad_of p a h = round_up (p + h) a - p"

lemma pad_of_props:
  assumes "0 < a"
  shows "h \<le> pad_of p a h" "pad_of p a h < h + a" "a dvd p + pad_of p a h"
  using round_up_bounds[OF assms, of "p + h"] round_up_dvd[of a "p + h"]
  unfolding pad_of_def by auto

lemma pad_of_unique:
  assumes "h \<le> q" "q < h + a" "a dvd p + q"
  shows "pad_of p a h = q"
  using round_up_unique[of a "p + q" "p + h"] assms by (simp add: pad_of_def)

lemma calc_padding_nat:
  fixes p a h :: nat
  assumes "0 < a"
  defines "d \<equiv> (if p mod a \<noteq> 0 then a - p mod a else 0)"
  shows "pad_of p a h =
    (if d < h then d + a * (if (h - d) mod a \<noteq> 0 then 1 + (h - d) div a else (h - d) div a) else d)"
proof (rule pad_of_unique)
  let ?n = "h - d" and ?q = "if d < h then d + a * (if (h - d) mod a \<noteq> 0 then 1 + (h - d) div a else (h - d) div a) else d"
  have d: "d < a" and pd: "a dvd p + d"
    using assms round_up_mod[of a p] round_up_dvd[of a p] by (auto split: if_splits)
  obtain k r where kr: "?n = a * k + r" "r < a" "?n div a = k" "?n mod a = r"
    using assms by (metis div_mult_mod_eq mod_less_divisor mult.commute)
  have q: "?q = (if d < h then d + (if ?n mod a \<noteq> 0 then a + a * (?n div a) else a * (?n div a)) else d)"
    by (simp add: distrib_left)
  show "h \<le> ?q" "?q < h + a" unfolding q kr(3,4) using kr(1,2) d by auto
  show "a dvd p + ?q" using pd unfolding q by (auto simp flip: add.assoc)
qed

text \<open>
  The word computation is exact whenever header and alignment together stay below \<^term>\<open>2 ^ 32\<close>,
  whatever the pointer.
\<close>

lemma calc_padding_with_header_eq:
  assumes a: "is_power_of_two a" and b: "unat h + unat a < 4294967296"
  shows "\<exists>q. calc_padding_with_header p a h = Some q \<and> unat q = pad_of (unat p) (unat a) (unat h)"
proof -
  define d where "d = (if p AND (a - 1) \<noteq> 0 then a - (p AND (a - 1)) else 0)"
  have a0: "0 < unat a" by (rule power_of_two_pos[OF a])
  have ud: "unat d = (if unat p mod unat a \<noteq> 0 then unat a - unat p mod unat a else 0)"
    using unat_and_pred[OF a, of p] a0
    by (auto simp: d_def and_pred_eq_0[OF a] unat_sub_nowrap less_imp_le)
  then have da: "unat d < unat a" using a0 by auto
  define k where "k = (if (h - d) AND (a - 1) \<noteq> 0 then 1 + (h - d) div a else (h - d) div a)"
  have res: "calc_padding_with_header p a h = Some (if d < h then d + a * k else d)"
    using a by (simp add: calc_padding_with_header_def Let_def d_def k_def)
  show ?thesis
  proof (cases "d < h")
    case False
    then show ?thesis
      using res calc_padding_nat[OF a0, of "unat p" "unat h"] ud by (simp add: word_less_nat_alt)
  next
    case True
    then have lt: "unat d < unat h" by (simp add: word_less_nat_alt)
    let ?n = "unat h - unat d"
    have n: "unat (h - d) = ?n" using lt by (simp add: unat_sub_nowrap)
    have q: "unat ((h - d) div a) = ?n div unat a" using n by (simp add: unat_div_distrib)
    have q1: "unat (1 + (h - d) div a) = 1 + ?n div unat a"
    proof -
      have "?n div unat a < 4294967295" using div_le_dividend[of ?n "unat a"] b a0 by linarith
      then show ?thesis using q by (subst unat_add_nowrap) auto
    qed
    have k: "unat k = (if ?n mod unat a \<noteq> 0 then 1 + ?n div unat a else ?n div unat a)"
      using q q1 n by (simp add: k_def and_pred_eq_0[OF a])
    have eq: "unat d + unat a * unat k = pad_of (unat p) (unat a) (unat h)"
      unfolding calc_padding_nat[OF a0, of "unat p" "unat h"] ud[symmetric] k using lt by simp
    then have "unat d + unat a * unat k < 4294967296"
      using pad_of_props(2)[OF a0, where p = "unat p" and h = "unat h"] b by linarith
    then have "unat (d + a * k) = unat d + unat a * unat k"
      by (simp add: unat_add_nowrap unat_mult_nowrap)
    then show ?thesis using res True eq by simp
  qed
qed

end
