(* ===== verification/FreeList.thy ===== *)
theory FreeList
  imports Align
begin

text \<open>
  The free-list allocator of \<^verbatim>\<open>src/lib/allocators.c\<close> as it runs: an intrusive, address-ordered
  list of free blocks kept in the managed memory itself, a header in front of every allocation,
  first-fit or best-fit placement, and coalescing on free.  This theory holds the operations;
  \<^verbatim>\<open>Layout\<close> holds what they promise and \<^verbatim>\<open>FreeListRefine\<close> the proofs that they keep it.

  Sizes are those of the target: \<^verbatim>\<open>sizeof(Free_List_Node)\<close> is two words,
  \<^verbatim>\<open>sizeof(Free_List_Allocation_Header)\<close> three, \<^verbatim>\<open>sizeof(max_align_t)\<close> 16 (a \<^verbatim>\<open>long long\<close> and a
  \<^verbatim>\<open>long double\<close> of eight bytes each).
\<close>

section \<open>Nodes and headers in memory\<close>

definition sizeof_Free_List_Node :: u32 where "sizeof_Free_List_Node = 8"
definition sizeof_Free_List_Allocation_Header :: u32 where "sizeof_Free_List_Allocation_Header = 12"
definition sizeof_max_align_t :: u32 where "sizeof_max_align_t = 16"

lemmas fl_sizes = sizeof_Free_List_Node_def sizeof_Free_List_Allocation_Header_def sizeof_max_align_t_def

text \<open>\<^verbatim>\<open>struct Free_List_Node { next; block_size; }\<close>\<close>

definition node_next :: "mem \<Rightarrow> addr \<Rightarrow> addr" where
  "node_next m n = load32 m n"

definition node_block_size :: "mem \<Rightarrow> addr \<Rightarrow> u32" where
  "node_block_size m n = load32 m (n + 4)"

definition set_next :: "mem \<Rightarrow> addr \<Rightarrow> addr \<Rightarrow> mem" where
  "set_next m n v = store32 m n v"

definition set_block_size :: "mem \<Rightarrow> addr \<Rightarrow> u32 \<Rightarrow> mem" where
  "set_block_size m n v = store32 m (n + 4) v"

text \<open>\<^verbatim>\<open>struct Free_List_Allocation_Header { orig_size; block_size; padding; }\<close>\<close>

definition header_orig_size :: "mem \<Rightarrow> addr \<Rightarrow> u32" where
  "header_orig_size m h = load32 m h"

definition header_block_size :: "mem \<Rightarrow> addr \<Rightarrow> u32" where
  "header_block_size m h = load32 m (h + 4)"

definition header_padding :: "mem \<Rightarrow> addr \<Rightarrow> u32" where
  "header_padding m h = load32 m (h + 8)"

definition write_header :: "mem \<Rightarrow> addr \<Rightarrow> u32 \<Rightarrow> u32 \<Rightarrow> u32 \<Rightarrow> mem" where
  "write_header m h orig_size block_size padding =
     store32 (store32 (store32 m h orig_size) (h + 4) block_size) (h + 8) padding"

datatype Placement_Policy = Placement_Policy_Find_First | Placement_Policy_Find_Best

record Free_List =
  fl_data :: addr
  fl_size :: u32
  fl_used :: u32
  fl_head :: addr
  fl_policy :: Placement_Policy

section \<open>Initialisation\<close>

definition free_list_free_all :: "mem \<Rightarrow> Free_List \<Rightarrow> mem \<times> Free_List" where
  "free_list_free_all m fl =
     (let first_node = fl_data fl;
          m = set_block_size m first_node (fl_size fl);
          m = set_next m first_node 0
      in (m, fl\<lparr>fl_used := 0, fl_head := first_node\<rparr>))"

definition free_list_init :: "mem \<Rightarrow> Free_List \<Rightarrow> addr \<Rightarrow> u32 \<Rightarrow> (mem \<times> Free_List) option" where
  "free_list_init m fl data sz = do {
     start \<leftarrow> align_forward_uintptr data sizeof_max_align_t;
     let adjustment = start - data;
     assert_c (adjustment < sz + sizeof_Free_List_Node);
     Some (free_list_free_all m (fl\<lparr>fl_data := start, fl_size := sz - adjustment\<rparr>))
   }"

section \<open>Searching\<close>

text \<open>The loops return the node, its predecessor and the padding; a null node is ``no fit''.\<close>

partial_function (option) find_first_loop ::
  "mem \<Rightarrow> u32 \<Rightarrow> u32 \<Rightarrow> addr \<Rightarrow> addr \<Rightarrow> u32 \<Rightarrow> (addr \<times> addr \<times> u32) option" where
  "find_first_loop m sz alignment node prev_node padding =
     (if node = 0 then Some (node, prev_node, padding)
      else Option.bind (calc_padding_with_header node alignment sizeof_Free_List_Allocation_Header)
        (\<lambda>padding.
           if sz + padding \<le> node_block_size m node then Some (node, prev_node, padding)
           else find_first_loop m sz alignment (node_next m node) node padding))"

definition free_list_find_first :: "mem \<Rightarrow> Free_List \<Rightarrow> u32 \<Rightarrow> u32 \<Rightarrow> (addr \<times> addr \<times> u32) option" where
  "free_list_find_first m fl sz alignment = find_first_loop m sz alignment (fl_head fl) 0 0"

text \<open>The best-fit loop carries the best candidate and its slack beside the cursor.\<close>

partial_function (option) find_best_loop ::
  "mem \<Rightarrow> u32 \<Rightarrow> u32 \<Rightarrow> addr \<Rightarrow> addr \<Rightarrow> addr \<times> addr \<times> u32 \<Rightarrow> u32 \<Rightarrow> (addr \<times> addr \<times> u32) option" where
  "find_best_loop m sz alignment node prev_node best smallest_diff =
     (if node = 0 then Some best
      else Option.bind (calc_padding_with_header node alignment sizeof_Free_List_Allocation_Header)
        (\<lambda>padding.
           if sz + padding \<le> node_block_size m node
              \<and> node_block_size m node - (sz + padding) < smallest_diff
           then find_best_loop m sz alignment (node_next m node) node
                  (node, prev_node, padding) (node_block_size m node - (sz + padding))
           else find_best_loop m sz alignment (node_next m node) node best smallest_diff))"

definition free_list_find_best :: "mem \<Rightarrow> Free_List \<Rightarrow> u32 \<Rightarrow> u32 \<Rightarrow> (addr \<times> addr \<times> u32) option" where
  "free_list_find_best m fl sz alignment =
     find_best_loop m sz alignment (fl_head fl) 0 (0, 0, 0) (NOT 0)"

section \<open>Linking\<close>

text \<open>Both return the memory and the new value of the list head (\<^verbatim>\<open>*phead\<close>).\<close>

definition free_list_node_insert :: "mem \<Rightarrow> addr \<Rightarrow> addr \<Rightarrow> addr \<Rightarrow> mem \<times> addr" where
  "free_list_node_insert m head prev_node new_node =
     (if prev_node = 0 then (set_next m new_node head, new_node)
      else if node_next m prev_node = 0 then
        (set_next (set_next m prev_node new_node) new_node 0, head)
      else (set_next (set_next m new_node (node_next m prev_node)) prev_node new_node, head))"

definition free_list_node_remove :: "mem \<Rightarrow> addr \<Rightarrow> addr \<Rightarrow> addr \<Rightarrow> mem \<times> addr" where
  "free_list_node_remove m head prev_node del_node =
     (if prev_node = 0 then (m, node_next m del_node)
      else (set_next m prev_node (node_next m del_node), head))"

section \<open>Allocation\<close>

text \<open>
  \<^verbatim>\<open>free_list_alloc\<close> from the point where a node has been found.  First the split: a rest that can
  hold two nodes becomes a node of its own, otherwise the whole block is taken.
\<close>

definition free_list_split :: "mem \<Rightarrow> addr \<Rightarrow> addr \<Rightarrow> u32 \<Rightarrow> mem \<times> addr \<times> u32" where
  "free_list_split m head node required_space =
     (let remaining = node_block_size m node - required_space in
      if sizeof_Free_List_Node + sizeof_Free_List_Node \<le> remaining then
        (let new_node = node + required_space;
             m = set_block_size m new_node remaining;
             (m, head) = free_list_node_insert m head node new_node
         in (m, head, required_space))
      else (m, head, node_block_size m node))"

text \<open>Then the node is unlinked and the header written in front of the returned pointer.\<close>

definition free_list_take ::
  "mem \<Rightarrow> Free_List \<Rightarrow> addr \<Rightarrow> addr \<Rightarrow> u32 \<Rightarrow> u32 \<Rightarrow> u32 \<Rightarrow> mem \<times> Free_List \<times> addr" where
  "free_list_take m fl node prev_node sz padding orig_size =
     (let alignment_padding = padding - sizeof_Free_List_Allocation_Header;
          required_space = sz + padding;
          (m, head, required_space) = free_list_split m (fl_head fl) node required_space;
          (m, head) = free_list_node_remove m head prev_node node;
          header_ptr = node + alignment_padding;
          m = write_header m header_ptr orig_size required_space alignment_padding
      in (m, fl\<lparr>fl_head := head, fl_used := fl_used fl + required_space\<rparr>,
          header_ptr + sizeof_Free_List_Allocation_Header))"

definition free_list_alloc ::
  "mem \<Rightarrow> Free_List \<Rightarrow> u32 \<Rightarrow> u32 \<Rightarrow> (mem \<times> Free_List \<times> addr) option" where
  "free_list_alloc m fl sz alignment = do {
     let orig_size = sz;
     let sz = (if sz < sizeof_Free_List_Node then sizeof_Free_List_Node else sz);
     let alignment = (if alignment < sizeof_max_align_t then sizeof_max_align_t else alignment);
     sz \<leftarrow> align_forward_size sz alignment;
     (node, prev_node, padding) \<leftarrow>
       (if fl_policy fl = Placement_Policy_Find_Best then free_list_find_best m fl sz alignment
        else free_list_find_first m fl sz alignment);
     Some (if node = 0 then (m, fl, 0)
           else free_list_take m fl node prev_node sz padding orig_size)
   }"

section \<open>Freeing\<close>

definition free_list_coalescence :: "mem \<Rightarrow> addr \<Rightarrow> addr \<Rightarrow> addr \<Rightarrow> mem \<times> addr" where
  "free_list_coalescence m head prev_node free_node =
     (let (m, head) =
        (if node_next m free_node \<noteq> 0
            \<and> free_node + node_block_size m free_node = node_next m free_node then
           (let next = node_next m free_node;
                m = set_block_size m free_node (node_block_size m free_node + node_block_size m next)
            in free_list_node_remove m head free_node next)
         else (m, head))
      in if prev_node \<noteq> 0 \<and> prev_node + node_block_size m prev_node = free_node then
           (let m = set_block_size m prev_node (node_block_size m prev_node + node_block_size m free_node)
            in free_list_node_remove m head prev_node free_node)
         else (m, head))"

text \<open>
  The search loop of \<^verbatim>\<open>free_list_free\<close>: it inserts before the first node with a larger address and
  stops there; a null node after the loop means that nothing was inserted yet.
\<close>

partial_function (option) free_insert_loop ::
  "mem \<Rightarrow> addr \<Rightarrow> addr \<Rightarrow> addr \<Rightarrow> addr \<Rightarrow> (mem \<times> addr \<times> addr \<times> addr) option" where
  "free_insert_loop m head free_node node prev_node =
     (if node = 0 then Some (m, head, node, prev_node)
      else if free_node < node then
        (let (m', head') = free_list_node_insert m head prev_node free_node
         in Some (m', head', node, prev_node))
      else free_insert_loop m head free_node (node_next m node) node)"

definition free_list_free :: "mem \<Rightarrow> Free_List \<Rightarrow> addr \<Rightarrow> (mem \<times> Free_List) option" where
  "free_list_free m fl ptr =
     (if ptr = 0 then Some (m, fl)
      else do {
        let header = ptr - sizeof_Free_List_Allocation_Header;
        let free_node = header - header_padding m header;
        let m = set_block_size m free_node (header_block_size m header);
        let m = set_next m free_node 0;
        (m, head, node, prev_node) \<leftarrow> free_insert_loop m (fl_head fl) free_node (fl_head fl) 0;
        let (m, head) = (if node = 0 then free_list_node_insert m head prev_node free_node else (m, head));
        let used = fl_used fl - node_block_size m free_node;
        let (m, head) = free_list_coalescence m head prev_node free_node;
        Some (m, fl\<lparr>fl_used := used, fl_head := head\<rparr>)
      })"

end
