(* ===== verification/Layout.thy ===== *)
theory Layout
  imports FreeList
begin

text \<open>
  What the free-list allocator promises, without memory or pointers: the managed region is a
  row of blocks, each free or in use, in address order and without gaps.  Allocation carves a
  block out of a free one, freeing marks it free again and merges neighbours.
\<close>

section \<open>Blocks\<close>

text \<open>
  A free block has an address and a size; a used one also the number of padding bytes in front
  of its header and the size that was asked for.  The header is 12 bytes, and the pointer the
  caller holds is right behind it.
\<close>

datatype block =
    Free (b_addr: nat) (b_size: nat)
  | Used (b_addr: nat) (b_size: nat) (b_pad: nat) (b_orig: nat)

abbreviation b_end :: "block \<Rightarrow> nat" where
  "b_end b \<equiv> b_addr b + b_size b"

definition b_ptr :: "block \<Rightarrow> nat" where
  "b_ptr b = b_addr b + b_pad b + 12"

fun is_free :: "block \<Rightarrow> bool" where
  "is_free (Free _ _) = True"
| "is_free (Used _ _ _ _) = False"

type_synonym layout = "block list"

primrec frees :: "layout \<Rightarrow> (nat \<times> nat) list" where
  "frees [] = []"
| "frees (b # bs) = (if is_free b then (b_addr b, b_size b) # frees bs else frees bs)"

primrec used_bytes :: "layout \<Rightarrow> nat" where
  "used_bytes [] = 0"
| "used_bytes (b # bs) = (if is_free b then used_bytes bs else b_size b + used_bytes bs)"

text \<open>The blocks cover \<open>lo ..< hi\<close> one after the other.\<close>

primrec tiles :: "nat \<Rightarrow> nat \<Rightarrow> layout \<Rightarrow> bool" where
  "tiles lo hi [] \<longleftrightarrow> lo = hi"
| "tiles lo hi (b # bs) \<longleftrightarrow> b_addr b = lo \<and> tiles (b_end b) hi bs"

fun coalesced :: "layout \<Rightarrow> bool" where
  "coalesced (b # c # bs) \<longleftrightarrow> \<not> (is_free b \<and> is_free c) \<and> coalesced (c # bs)"
| "coalesced _ \<longleftrightarrow> True"

fun block_ok :: "block \<Rightarrow> bool" where
  "block_ok (Free a s) \<longleftrightarrow> 16 dvd a \<and> 8 \<le> s"
| "block_ok (Used a s pd og) \<longleftrightarrow> 16 dvd a \<and> 16 dvd a + pd + 12 \<and> pd + 12 + og \<le> s"

definition layout_ok :: "nat \<Rightarrow> nat \<Rightarrow> layout \<Rightarrow> bool" where
  "layout_ok lo hi bs \<longleftrightarrow> tiles lo hi bs \<and> coalesced bs \<and> (\<forall>b \<in> set bs. block_ok b)"

section \<open>The operations of the specification\<close>

definition fits :: "nat \<Rightarrow> nat \<Rightarrow> block \<Rightarrow> bool" where
  "fits sz al b \<longleftrightarrow> is_free b \<and> sz + pad_of (b_addr b) al 12 \<le> b_size b"

text \<open>A rest of at least two nodes stays a free block, a smaller one goes to the caller.\<close>

definition carve :: "nat \<Rightarrow> nat \<Rightarrow> nat \<Rightarrow> nat \<Rightarrow> nat \<Rightarrow> layout" where
  "carve a s sz pad og =
     (if 16 \<le> s - (sz + pad) then [Used a (sz + pad) (pad - 12) og, Free (a + (sz + pad)) (s - (sz + pad))]
      else [Used a s (pad - 12) og])"

text \<open>First fit: the lowest free block that is large enough.\<close>

primrec lay_alloc_first :: "nat \<Rightarrow> nat \<Rightarrow> nat \<Rightarrow> layout \<Rightarrow> (layout \<times> nat) option" where
  "lay_alloc_first sz al og [] = None"
| "lay_alloc_first sz al og (b # bs) =
     (if fits sz al b
      then Some (carve (b_addr b) (b_size b) sz (pad_of (b_addr b) al 12) og @ bs,
                 b_addr b + pad_of (b_addr b) al 12)
      else map_option (\<lambda>(bs', p). (b # bs', p)) (lay_alloc_first sz al og bs))"

text \<open>Freeing: the block behind pointer \<open>p\<close> becomes free, then all neighbouring free blocks merge.\<close>

fun release :: "nat \<Rightarrow> block \<Rightarrow> block" where
  "release p (Free a s) = Free a s"
| "release p (Used a s pd og) = (if b_ptr (Used a s pd og) = p then Free a s else Used a s pd og)"

fun merge_free :: "layout \<Rightarrow> layout" where
  "merge_free (Free a s # Free b t # bs) = merge_free (Free a (s + t) # bs)"
| "merge_free (b # bs) = b # merge_free bs"
| "merge_free [] = []"

definition lay_free :: "nat \<Rightarrow> layout \<Rightarrow> layout" where
  "lay_free p bs = merge_free (map (release p) bs)"

section \<open>Facts about layouts\<close>

lemma frees_append [simp]: "frees (xs @ ys) = frees xs @ frees ys"
  by (induction xs) auto

lemma used_bytes_append [simp]: "used_bytes (xs @ ys) = used_bytes xs + used_bytes ys"
  by (induction xs) auto

lemma frees_in_set: "(a, s) \<in> set (frees bs) \<longleftrightarrow> Free a s \<in> set bs"
proof (induction bs)
  case (Cons b bs)
  then show ?case by (cases b) auto
qed simp

lemma tiles_append: "tiles lo hi (xs @ ys) \<longleftrightarrow> (\<exists>mid. tiles lo mid xs \<and> tiles mid hi ys)"
  by (induction xs arbitrary: lo) auto

lemma tiles_le: "tiles lo hi bs \<Longrightarrow> lo \<le> hi"
proof (induction bs arbitrary: lo)
  case (Cons b bs)
  then show ?case by (metis le_add1 le_trans tiles.simps(2))
qed simp

lemma tiles_inside: "tiles lo hi bs \<Longrightarrow> b \<in> set bs \<Longrightarrow> lo \<le> b_addr b \<and> b_end b \<le> hi"
proof (induction bs arbitrary: lo)
  case (Cons c bs)
  then have t: "tiles (b_end c) hi bs" "b_addr c = lo" by auto
  show ?case
  proof (cases "b = c")
    case True
    then show ?thesis using t tiles_le[OF t(1)] by auto
  next
    case False
    then have "b_end c \<le> b_addr b \<and> b_end b \<le> hi" using Cons t by auto
    then show ?thesis using t(2) by auto
  qed
qed simp

lemma block_ok_size: "block_ok b \<Longrightarrow> 8 \<le> b_size b"
  by (cases b) auto

lemma block_ok_addr: "block_ok b \<Longrightarrow> 16 dvd b_addr b"
  by (cases b) auto

lemma used_bytes_le: "tiles lo hi bs \<Longrightarrow> used_bytes bs \<le> hi - lo"
proof (induction bs arbitrary: lo)
  case (Cons b bs)
  then have "used_bytes bs \<le> hi - b_end b" "b_end b \<le> hi" using tiles_le by auto
  then show ?case using Cons.prems by auto
qed simp

text \<open>Around one block: everything before it ends below it, everything after starts above it.\<close>

lemma tiles_split:
  assumes "tiles lo hi (xs @ b # ys)"
  shows "tiles lo (b_addr b) xs" "tiles (b_end b) hi ys"
    "c \<in> set xs \<Longrightarrow> lo \<le> b_addr c \<and> b_end c \<le> b_addr b"
    "c \<in> set ys \<Longrightarrow> b_end b \<le> b_addr c \<and> b_end c \<le> hi"
    "lo \<le> b_addr b" "b_end b \<le> hi"
  using assms tiles_inside[of lo "b_addr b" xs c] tiles_inside[of "b_end b" hi ys c]
    tiles_le[of lo "b_addr b" xs] tiles_le[of "b_end b" hi ys]
  by (auto simp: tiles_append)

text \<open>Different blocks of a layout never overlap.\<close>

lemma tiles_disjoint:
  assumes "tiles lo hi bs" "b \<in> set bs" "c \<in> set bs" "b \<noteq> c"
  shows "b_end b \<le> b_addr c \<or> b_end c \<le> b_addr b"
proof -
  obtain xs ys where bs: "bs = xs @ b # ys" using assms(2) by (meson split_list)
  with assms(3,4) have "c \<in> set xs \<or> c \<in> set ys" by auto
  then show ?thesis using tiles_split(3,4)[of lo hi xs b ys c] assms(1) bs by auto
qed

text \<open>The two directions of a search through a layout.\<close>

lemma lay_alloc_first_None: "lay_alloc_first sz al og bs = None \<longleftrightarrow> (\<forall>b \<in> set bs. \<not> fits sz al b)"
  by (induction bs) auto

lemma lay_alloc_first_split:
  assumes "\<forall>b \<in> set xs. \<not> fits sz al b" "fits sz al b"
  shows "lay_alloc_first sz al og (xs @ b # ys) =
    Some (xs @ carve (b_addr b) (b_size b) sz (pad_of (b_addr b) al 12) og @ ys,
          b_addr b + pad_of (b_addr b) al 12)"
  using assms by (induction xs) auto

section \<open>Merging\<close>

lemma coalesced_Cons:
  "coalesced (b # bs) \<longleftrightarrow> coalesced bs \<and> \<not> (is_free b \<and> bs \<noteq> [] \<and> is_free (hd bs))"
  by (cases bs) auto

lemma coalesced_append:
  "coalesced (xs @ ys) \<longleftrightarrow> coalesced xs \<and> coalesced ys
     \<and> \<not> (xs \<noteq> [] \<and> ys \<noteq> [] \<and> is_free (last xs) \<and> is_free (hd ys))"
  by (induction xs) (auto simp: coalesced_Cons hd_append)

lemma merge_free_Cons_used:
  "\<not> is_free b \<Longrightarrow> merge_free (b # bs) = b # merge_free bs"
  by (cases b) auto

lemma merge_free_Cons_free:
  "bs = [] \<or> \<not> is_free (hd bs) \<Longrightarrow> merge_free (Free a s # bs) = Free a s # merge_free bs"
  by (cases bs; cases "hd bs") auto

lemma merge_free_coalesced: "coalesced bs \<Longrightarrow> merge_free bs = bs"
proof (induction bs)
  case (Cons b bs)
  then show ?case by (cases b) (auto simp: coalesced_Cons merge_free_Cons_free merge_free_Cons_used)
qed simp

lemma merge_free_append:
  "coalesced xs \<Longrightarrow> xs = [] \<or> \<not> is_free (last xs) \<Longrightarrow> merge_free (xs @ ys) = xs @ merge_free ys"
proof (induction xs)
  case (Cons b xs)
  then have IH: "merge_free (xs @ ys) = xs @ merge_free ys"
    by (cases xs) (auto simp: coalesced_Cons)
  show ?case
  proof (cases b)
    case (Free a s)
    then have "xs \<noteq> []" "\<not> is_free (hd xs)" using Cons.prems by (auto simp: coalesced_Cons)
    then have "merge_free (Free a s # (xs @ ys)) = Free a s # merge_free (xs @ ys)"
      by (intro merge_free_Cons_free) simp
    then show ?thesis using Free IH by simp
  next
    case (Used a s pd og)
    then show ?thesis using IH by simp
  qed
qed simp

text \<open>What becomes of the right neighbours of a block that was freed, and of the left ones.\<close>

definition join_right :: "nat \<Rightarrow> layout \<Rightarrow> nat \<times> layout" where
  "join_right s ys =
     (if ys \<noteq> [] \<and> is_free (hd ys) then (s + b_size (hd ys), tl ys) else (s, ys))"

definition join_left :: "layout \<Rightarrow> nat \<Rightarrow> nat \<Rightarrow> layout \<times> nat \<times> nat" where
  "join_left xs a s =
     (if xs \<noteq> [] \<and> is_free (last xs) then (butlast xs, b_addr (last xs), b_size (last xs) + s)
      else (xs, a, s))"

lemma merge_free_right:
  assumes "coalesced ys"
  shows "merge_free (Free a s # ys) = Free a (fst (join_right s ys)) # snd (join_right s ys)"
proof (cases "ys \<noteq> [] \<and> is_free (hd ys)")
  case True
  then obtain b t ys' where ys: "ys = Free b t # ys'" by (cases ys; cases "hd ys") auto
  then have "ys' = [] \<or> \<not> is_free (hd ys')" "coalesced ys'" using assms by (auto simp: coalesced_Cons)
  then show ?thesis
    using ys by (simp add: join_right_def merge_free_Cons_free merge_free_coalesced)
next
  case False
  then show ?thesis
    using assms by (auto simp: join_right_def merge_free_Cons_free merge_free_coalesced)
qed

lemma merge_free_around:
  assumes "coalesced xs" "coalesced ys"
  shows "merge_free (xs @ Free a s # ys) =
    (let (s1, ys1) = join_right s ys; (xs1, a1, s2) = join_left xs a s1 in xs1 @ Free a1 s2 # ys1)"
proof (cases "xs \<noteq> [] \<and> is_free (last xs)")
  case True
  then obtain c t where l: "last xs = Free c t" by (cases "last xs") auto
  then have xs: "xs = butlast xs @ [Free c t]" using True by (metis append_butlast_last_id)
  then have co: "coalesced (butlast xs)" "butlast xs = [] \<or> \<not> is_free (last (butlast xs))"
    using assms(1) by (metis coalesced_append append.right_neutral is_free.simps(1) list.sel(1) not_Cons_self2)+
  have "merge_free (xs @ Free a s # ys) = merge_free (butlast xs @ Free c t # Free a s # ys)"
    by (subst xs) simp
  also have "\<dots> = butlast xs @ merge_free (Free c (t + s) # ys)" using co by (simp add: merge_free_append)
  finally show ?thesis
    using True l assms(2) by (auto simp: merge_free_right join_left_def join_right_def)
next
  case False
  then show ?thesis
    using assms by (auto simp: merge_free_append merge_free_right join_left_def split: prod.splits)
qed

end
