(* ===== verification/FreeListRefine.thy ===== *)
theory FreeListRefine
  imports Layout
begin

text \<open>
  The free-list allocator of \<^verbatim>\<open>FreeList\<close> implements the layouts of \<^verbatim>\<open>Layout\<close>: the representation
  predicate \<open>fl_rep\<close> reads a layout off the memory (the linked list is the list of its free
  blocks, the headers describe its used blocks), every operation carries it from layout to
  layout, and no operation touches a byte of a block in use.
\<close>

section \<open>Memory read with natural numbers\<close>

definition ldn :: "mem \<Rightarrow> nat \<Rightarrow> nat" where
  "ldn m n = unat (load32 m (word_of_nat n))"

text \<open>Only bytes at addresses in \<open>A\<close> differ.\<close>

definition changed_only :: "mem \<Rightarrow> mem \<Rightarrow> nat set \<Rightarrow> bool" where
  "changed_only m m' A \<longleftrightarrow> (\<forall>x. unat x \<notin> A \<longrightarrow> m' x = m x)"

abbreviation word_at :: "nat \<Rightarrow> nat set" where
  "word_at n \<equiv> {n..<n + 4}"

text \<open>The word of a pointer, none for the null pointer.\<close>

definition word_at0 :: "nat \<Rightarrow> nat set" where
  "word_at0 n = (if n = 0 then {} else word_at n)"

lemma ldn_unat: "ldn m (unat x) = unat (load32 m x)"
  by (simp add: ldn_def)

lemma ldn_less [simp]: "ldn m n < 4294967296"
  by (simp add: ldn_def)

lemma aligned4_of_nat: "4 dvd n \<Longrightarrow> n < 4294967296 \<Longrightarrow> aligned4 (word_of_nat n)"
  by (simp add: aligned4_def unat_of_nat_32)

lemma ldn_store:
  assumes "aligned4 x" "4 dvd n" "n < 4294967296"
  shows "ldn (store32 m x v) n = (if n = unat x then unat v else ldn m n)"
proof -
  have "x = word_of_nat n \<longleftrightarrow> unat x = n" using assms(3) by (auto simp: u32_eq_iff unat_of_nat_32)
  then show ?thesis
    using bm.ld_st[OF assms(1) aligned4_of_nat[OF assms(2,3)], of m v] by (auto simp: ldn_def)
qed

lemma changed_only_refl [simp]: "changed_only m m A"
  by (simp add: changed_only_def)

lemma changed_only_trans:
  "changed_only m1 m2 A \<Longrightarrow> changed_only m2 m3 B \<Longrightarrow> A \<union> B \<subseteq> C \<Longrightarrow> changed_only m1 m3 C"
  unfolding changed_only_def by (metis UnCI subsetD)

lemma changed_only_trans1: "changed_only m1 m2 A \<Longrightarrow> changed_only m2 m3 A \<Longrightarrow> changed_only m1 m3 A"
  by (simp add: changed_only_def)

lemma changed_only_mono: "changed_only m m' A \<Longrightarrow> A \<subseteq> B \<Longrightarrow> changed_only m m' B"
  by (auto simp: changed_only_def)

lemma changed_only_store: "aligned4 x \<Longrightarrow> changed_only m (store32 m x v) (word_at (unat x))"
  by (auto simp: changed_only_def intro: store32_frame)

lemma ldn_changed_only:
  assumes "changed_only m m' A" "4 dvd n" "n < 4294967296" "word_at n \<inter> A = {}"
  shows "ldn m' n = ldn m n"
proof -
  let ?x = "word_of_nat n :: u32"
  have u: "unat ?x = n" using assms(3) by (rule unat_of_nat_32)
  have al: "aligned4 ?x" using assms(2,3) by (rule aligned4_of_nat)
  have "m' y = m y" if y: "y \<in> {?x, ?x + 1, ?x + 2, ?x + 3}" for y
  proof -
    have "unat y \<in> word_at n" using aligned4_byte_index[OF y al] u by simp
    then show ?thesis using assms(1,4) by (auto simp: changed_only_def)
  qed
  then show ?thesis by (simp add: ldn_def load32_def)
qed

section \<open>Linked lists in memory\<close>

text \<open>A chain of nodes from \<open>p\<close> to \<open>q\<close>, with the address and size of each.\<close>

primrec seg :: "mem \<Rightarrow> nat \<Rightarrow> (nat \<times> nat) list \<Rightarrow> nat \<Rightarrow> bool" where
  "seg m p [] q \<longleftrightarrow> p = q"
| "seg m p (f # fs) q \<longleftrightarrow> p \<noteq> 0 \<and> fst f = p \<and> ldn m (p + 4) = snd f \<and> seg m (ldn m p) fs q"

lemma seg_append: "seg m p (xs @ ys) r \<longleftrightarrow> (\<exists>q. seg m p xs q \<and> seg m q ys r)"
  by (induction xs arbitrary: p) auto

lemma seg_cong:
  "(\<And>a s. (a, s) \<in> set fs \<Longrightarrow> ldn m' a = ldn m a \<and> ldn m' (a + 4) = ldn m (a + 4)) \<Longrightarrow>
   seg m' p fs q = seg m p fs q"
proof (induction fs arbitrary: p)
  case (Cons f fs)
  obtain a s where f: "f = (a, s)" by (cases f)
  have IH: "seg m' x fs q = seg m x fs q" for x
    by (rule Cons.IH) (meson Cons.prems list.set_intros(2))
  have "ldn m' a = ldn m a \<and> ldn m' (a + 4) = ldn m (a + 4)"
    by (rule Cons.prems[of a s]) (simp add: f)
  then show ?case using IH[of "ldn m a"] f by auto
qed simp

lemma seg_nonnull: "seg m p fs q \<Longrightarrow> (a, s) \<in> set fs \<Longrightarrow> a \<noteq> 0"
  by (induction fs arbitrary: p) auto

text \<open>Pointing the last node of a chain elsewhere.\<close>

lemma seg_relink:
  assumes "seg m p fs q"
    and "\<And>a s. (a, s) \<in> set fs \<Longrightarrow> ldn m' (a + 4) = ldn m (a + 4)"
    and "\<And>a s. (a, s) \<in> set (butlast fs) \<Longrightarrow> ldn m' a = ldn m a"
    and "fs \<noteq> [] \<Longrightarrow> ldn m' (fst (last fs)) = q'"
  shows "seg m' (if fs = [] then q' else p) fs q'"
  using assms
proof (induction fs arbitrary: p)
  case (Cons f fs)
  obtain a s where f: "f = (a, s)" by (cases f)
  have sg: "seg m (ldn m p) fs q" and p: "p \<noteq> 0" "a = p" "ldn m (p + 4) = s"
    using Cons.prems(1) f by auto
  have IH: "seg m' (if fs = [] then q' else ldn m p) fs q'"
    using Cons.prems(2-4) f by (intro Cons.IH[OF sg]) (auto split: if_splits)
  have nx: "ldn m' p = (if fs = [] then q' else ldn m p)"
    using Cons.prems(3,4) f p by (auto split: if_splits)
  show ?case using IH nx p f Cons.prems(2)[of a s] by simp
qed simp

section \<open>The representation of a layout\<close>

fun hdr_ok :: "mem \<Rightarrow> block \<Rightarrow> bool" where
  "hdr_ok m (Free a s) = True"
| "hdr_ok m (Used a s pd og) \<longleftrightarrow>
     ldn m (a + pd) = og \<and> ldn m (a + pd + 4) = s \<and> ldn m (a + pd + 8) = pd"

definition fl_rep :: "mem \<Rightarrow> Free_List \<Rightarrow> layout \<Rightarrow> bool" where
  "fl_rep m fl bs \<longleftrightarrow>
     0 < unat (fl_data fl) \<and> unat (fl_data fl) + unat (fl_size fl) < 4294967296
     \<and> layout_ok (unat (fl_data fl)) (unat (fl_data fl) + unat (fl_size fl)) bs
     \<and> (\<forall>b \<in> set bs. hdr_ok m b)
     \<and> seg m (unat (fl_head fl)) (frees bs) 0
     \<and> unat (fl_used fl) = used_bytes bs"

text \<open>The last free block in front of a position: what the code keeps in \<^verbatim>\<open>prev_node\<close>.\<close>

definition last_free :: "layout \<Rightarrow> nat" where
  "last_free xs = (if frees xs = [] then 0 else fst (last (frees xs)))"

lemma last_free_in:
  assumes "frees xs \<noteq> []"
  obtains t where "Free (last_free xs) t \<in> set xs"
proof -
  have "(last_free xs, snd (last (frees xs))) \<in> set (frees xs)"
    using assms by (simp add: last_free_def)
  then show ?thesis using that by (simp add: frees_in_set)
qed

text \<open>
  What a change of memory inside \<open>lo ..< hi\<close> and of the last free block's link leaves of the
  blocks on either side.
\<close>

lemma frees_addr_increasing:
  assumes "tiles lo hi xs" "\<forall>b \<in> set xs. block_ok b" "(a, s) \<in> set (butlast (frees xs))"
  shows "a < last_free xs"
  using assms
proof (induction xs arbitrary: lo)
  case (Cons b xs)
  then have t: "tiles (b_end b) hi xs" "8 \<le> b_size b" using block_ok_size by auto
  show ?case
  proof (cases "is_free b")
    case False
    then show ?thesis using Cons t by (auto simp: last_free_def)
  next
    case True
    then have ne: "frees xs \<noteq> []" using Cons.prems(3) by (auto split: if_splits)
    then obtain u where u: "Free (last_free xs) u \<in> set xs" by (rule last_free_in)
    then have "b_end b \<le> last_free xs" using tiles_inside[OF t(1) u] by simp
    moreover have "a = b_addr b \<or> (a, s) \<in> set (butlast (frees xs))"
      using Cons.prems(3) True ne by (auto split: if_splits)
    ultimately show ?thesis
      using Cons.IH[OF t(1)] Cons.prems(2) t(2) True ne by (auto simp: last_free_def)
  qed
qed simp

lemma hdr_frame:
  assumes b: "block_ok b" "hdr_ok m b" "b_end b \<le> 4294967296"
    and ch: "changed_only m m' A" and dis: "{b_addr b..<b_end b} \<inter> A = {}"
  shows "hdr_ok m' b"
proof (cases b)
  case (Used a s pd og)
  have "ldn m' (a + pd + k) = ldn m (a + pd + k)" if k: "k \<in> {0, 4, 8}" for k
  proof (rule ldn_changed_only[OF ch])
    have d: "16 dvd a + pd + 12" and le: "pd + 12 \<le> s" using b(1) Used by auto
    show "4 dvd a + pd + k" using d k by (auto; presburger)
    show "a + pd + k < 4294967296" using b(3) Used le k by auto
    have "word_at (a + pd + k) \<subseteq> {b_addr b..<b_end b}" using Used le k by auto
    then show "word_at (a + pd + k) \<inter> A = {}" using dis by blast
  qed
  from this[of 0] this[of 4] this[of 8] show ?thesis using b(2) Used by simp
qed simp

lemma node_frame:
  assumes "16 dvd a" "8 \<le> s" "a + s \<le> 4294967296" "changed_only m m' A"
  shows "word_at a \<inter> A = {} \<Longrightarrow> ldn m' a = ldn m a"
    and "word_at (a + 4) \<inter> A = {} \<Longrightarrow> ldn m' (a + 4) = ldn m (a + 4)"
proof -
  have d: "4 dvd a" "4 dvd a + 4" using assms(1) by presburger+
  show "word_at a \<inter> A = {} \<Longrightarrow> ldn m' a = ldn m a"
    using ldn_changed_only[OF assms(4) d(1)] assms(2,3) by auto
  show "word_at (a + 4) \<inter> A = {} \<Longrightarrow> ldn m' (a + 4) = ldn m (a + 4)"
    using ldn_changed_only[OF assms(4) d(2)] assms(2,3) by auto
qed

lemma rest_frame_regions:
  assumes tx: "tiles lo A xs" and AB: "A \<le> B" and ok: "\<forall>b \<in> set xs. block_ok b"
  defines "R \<equiv> {A..<B} \<union> word_at0 (last_free xs)"
  shows "B \<le> n \<Longrightarrow> {n..<k} \<inter> R = {}"
    and "b \<in> set xs \<Longrightarrow> \<forall>u. b \<noteq> Free (last_free xs) u \<Longrightarrow> {b_addr b..<b_end b} \<inter> R = {}"
proof -
  let ?l = "last_free xs"
  have lf: "\<exists>u. Free ?l u \<in> set xs \<and> 8 \<le> u \<and> ?l + u \<le> A" if ne: "frees xs \<noteq> []"
  proof -
    obtain u where u: "Free ?l u \<in> set xs" by (rule last_free_in[OF ne])
    then show ?thesis using ok tiles_inside[OF tx u] by force
  qed
  have l0: "word_at0 ?l = {}" if "frees xs = []" using that by (simp add: word_at0_def last_free_def)
  show "{n..<k} \<inter> R = {}" if "B \<le> n"
  proof (cases "frees xs = []")
    case False
    with lf obtain u where "8 \<le> u" "?l + u \<le> A" by blast
    then show ?thesis using that AB by (auto simp: word_at0_def R_def)
  qed (use that l0 in \<open>auto simp: R_def\<close>)
  show "{b_addr b..<b_end b} \<inter> R = {}" if b: "b \<in> set xs" and nb: "\<forall>u. b \<noteq> Free ?l u"
  proof (cases "frees xs = []")
    case True
    then show ?thesis using tiles_inside[OF tx b] l0 by (auto simp: R_def)
  next
    case False
    with lf obtain u where u: "Free ?l u \<in> set xs" "8 \<le> u" by blast
    have "b_end b \<le> ?l \<or> ?l + u \<le> b_addr b" using tiles_disjoint[OF tx b u(1)] nb by auto
    then show ?thesis using u(2) tiles_inside[OF tx b] by (auto simp: word_at0_def R_def)
  qed
qed

text \<open>The last free block of the front keeps its size, the other ones keep both words.\<close>

lemma front_node_frame:
  assumes tx: "tiles lo A xs" and AB: "A \<le> B" "A \<le> 4294967296" and ok: "\<forall>b \<in> set xs. block_ok b"
    and ch: "changed_only m m' ({A..<B} \<union> word_at0 (last_free xs))" and as: "(a, s) \<in> set (frees xs)"
  shows "ldn m' (a + 4) = ldn m (a + 4)" "a \<noteq> last_free xs \<Longrightarrow> ldn m' a = ldn m a"
proof -
  have f: "Free a s \<in> set xs" using as by (simp add: frees_in_set)
  then have node: "16 dvd a" "8 \<le> s" "a + s \<le> A" using ok tiles_inside[OF tx f] by force+
  let ?R = "{A..<B} \<union> word_at0 (last_free xs)"
  have other: "{a..<a + s} \<inter> ?R = {}" if "a \<noteq> last_free xs"
    using rest_frame_regions(2)[OF tx AB(1) ok f] that by simp
  have sub: "word_at a \<subseteq> {a..<a + s}" "word_at (a + 4) \<subseteq> {a..<a + s}" using node(2) by auto
  have "word_at (a + 4) \<inter> ?R = {}"
  proof (cases "a = last_free xs")
    case True
    then show ?thesis using node by (auto simp: word_at0_def)
  qed (use other sub(2) in blast)
  then show "ldn m' (a + 4) = ldn m (a + 4)" using node AB(2) by (intro node_frame(2)[OF _ _ _ ch]) auto
  show "ldn m' a = ldn m a" if "a \<noteq> last_free xs"
  proof (rule node_frame(1)[OF node(1,2) _ ch])
    show "word_at a \<inter> ?R = {}" using other[OF that] sub(1) by blast
  qed (use node(3) AB(2) in linarith)
qed

lemma rest_frame:
  assumes tx: "tiles lo A xs" and ty: "tiles B hi ys" and AB: "A \<le> B" "hi \<le> 4294967296"
    and ok: "\<forall>b \<in> set xs \<union> set ys. block_ok b \<and> hdr_ok m b"
    and ch: "changed_only m m' ({A..<B} \<union> word_at0 (last_free xs))"
  shows "\<forall>b \<in> set xs \<union> set ys. hdr_ok m' b"
    and "seg m r (frees ys) t \<Longrightarrow> seg m' r (frees ys) t"
    and "seg m p (frees xs) q \<Longrightarrow> (frees xs \<noteq> [] \<Longrightarrow> ldn m' (last_free xs) = q') \<Longrightarrow>
      seg m' (if frees xs = [] then q' else p) (frees xs) q'"
proof -
  have Bhi: "B \<le> hi" using ty by (rule tiles_le)
  have okx: "\<forall>b \<in> set xs. block_ok b" using ok by blast
  note up = rest_frame_regions(1)[OF tx AB(1) okx] and low = rest_frame_regions(2)[OF tx AB(1) okx]
  show "\<forall>b \<in> set xs \<union> set ys. hdr_ok m' b"
  proof
    fix b assume b: "b \<in> set xs \<union> set ys"
    show "hdr_ok m' b"
    proof (cases b)
      case (Used a s pd og)
      have bh: "b_end b \<le> 4294967296"
        using b tiles_inside[OF tx, of b] tiles_inside[OF ty, of b] AB Bhi by auto
      have "{b_addr b..<b_end b} \<inter> ({A..<B} \<union> word_at0 (last_free xs)) = {}"
        using b low[of b] up[of "b_addr b"] tiles_inside[OF ty, of b] Used by blast
      then show ?thesis using hdr_frame[OF _ _ bh ch] ok b by blast
    qed simp
  qed
  have "seg m' r (frees ys) t = seg m r (frees ys) t"
  proof (rule seg_cong)
    fix a s assume "(a, s) \<in> set (frees ys)"
    then have f: "Free a s \<in> set ys" by (simp add: frees_in_set)
    then have as: "16 dvd a" "8 \<le> s" using ok by force+
    have bd: "B \<le> a" "a + s \<le> 4294967296" using tiles_inside[OF ty f] AB(2) by auto
    show "ldn m' a = ldn m a \<and> ldn m' (a + 4) = ldn m (a + 4)"
      using node_frame[OF as bd(2) ch] up[of a "a + 4"] up[of "a + 4" "a + 4 + 4"] bd(1) by simp
  qed
  then show "seg m r (frees ys) t \<Longrightarrow> seg m' r (frees ys) t" by simp
  have A32: "A \<le> 4294967296" using AB Bhi by linarith
  note node = front_node_frame[OF tx AB(1) A32 okx ch]
  have inner: "ldn m' a = ldn m a" if "(a, s) \<in> set (butlast (frees xs))" for a s
    using node(2)[OF in_set_butlastD[OF that]] frees_addr_increasing[OF tx _ that] ok by auto
  show "seg m' (if frees xs = [] then q' else p) (frees xs) q'"
    if sg: "seg m p (frees xs) q" and link: "frees xs \<noteq> [] \<Longrightarrow> ldn m' (last_free xs) = q'"
    by (rule seg_relink[OF sg]) (use node(1) inner link in \<open>auto simp: last_free_def\<close>)
qed

section \<open>Effects of the memory operations\<close>

lemma node16:
  assumes "16 dvd unat n"
  shows "unat (n + 4) = unat n + 4" "aligned4 n" "aligned4 (n + 4)" "unat n + 16 \<le> 4294967296"
proof -
  have "unat n < 4294967296" by simp
  with assms show "unat n + 16 \<le> 4294967296" by presburger
  then show u: "unat (n + 4) = unat n + 4" by (simp add: unat_add_nowrap)
  show "aligned4 n" "aligned4 (n + 4)" using assms u unfolding aligned4_def by presburger+
qed

lemma node_next_ldn: "unat (node_next m n) = ldn m (unat n)"
  by (simp add: node_next_def ldn_unat)

lemma node_block_size_ldn: "16 dvd unat n \<Longrightarrow> unat (node_block_size m n) = ldn m (unat n + 4)"
  by (metis ldn_unat node16(1) node_block_size_def)

lemma set_next_effect:
  assumes "16 dvd unat n"
  shows "changed_only m (set_next m n v) (word_at (unat n))"
    and "4 dvd k \<Longrightarrow> k < 4294967296 \<Longrightarrow>
      ldn (set_next m n v) k = (if k = unat n then unat v else ldn m k)"
  using node16[OF assms] by (simp_all add: set_next_def changed_only_store ldn_store)

lemma set_block_size_effect:
  assumes "16 dvd unat n"
  shows "changed_only m (set_block_size m n v) (word_at (unat n + 4))"
    and "4 dvd k \<Longrightarrow> k < 4294967296 \<Longrightarrow>
      ldn (set_block_size m n v) k = (if k = unat n + 4 then unat v else ldn m k)"
proof -
  show "changed_only m (set_block_size m n v) (word_at (unat n + 4))"
    using node16[OF assms] changed_only_store[of "n + 4" m v] by (simp add: set_block_size_def)
  show "4 dvd k \<Longrightarrow> k < 4294967296 \<Longrightarrow>
      ldn (set_block_size m n v) k = (if k = unat n + 4 then unat v else ldn m k)"
    using node16[OF assms] by (simp add: set_block_size_def ldn_store)
qed

lemma insert_effect:
  assumes "16 dvd unat new" "16 dvd unat prev" "new \<noteq> prev" "free_list_node_insert m head prev new = (m', h')"
  shows "h' = (if prev = 0 then new else head)"
    and "ldn m' (unat new) = (if prev = 0 then unat head else ldn m (unat prev))"
    and "prev \<noteq> 0 \<Longrightarrow> ldn m' (unat prev) = unat new"
    and "changed_only m m' (word_at (unat new) \<union> word_at0 (unat prev))"
proof -
  have ne: "unat new \<noteq> unat prev" using assms(3) by (simp add: word_unat_eq_iff)
  have d: "4 dvd unat new" "4 dvd unat prev"
    using node16(2)[OF assms(1)] node16(2)[OF assms(2)] by (simp_all add: aligned4_def)
  note eff = set_next_effect[OF assms(1)] set_next_effect[OF assms(2)]
  show "h' = (if prev = 0 then new else head)"
    using assms(4) by (auto simp: free_list_node_insert_def split: if_splits)
  have nx0: "node_next m prev = 0 \<Longrightarrow> ldn m (unat prev) = 0" by (metis node_next_ldn unat_0)
  have m': "m' = (if prev = 0 then set_next m new head
      else if node_next m prev = 0 then set_next (set_next m prev new) new 0
      else set_next (set_next m new (node_next m prev)) prev new)"
    using assms(4) by (auto simp: free_list_node_insert_def split: if_splits)
  show "ldn m' (unat new) = (if prev = 0 then unat head else ldn m (unat prev))"
    using ne d nx0 by (simp add: m' eff(2,4) node_next_ldn)
  show "prev \<noteq> 0 \<Longrightarrow> ldn m' (unat prev) = unat new"
    using ne d by (simp add: m' eff(2,4))
  let ?W = "word_at (unat new) \<union> word_at0 (unat prev)"
  have ch: "changed_only m0 (set_next m0 new v) ?W" for m0 v
    by (rule changed_only_mono[OF eff(1)]) simp
  have ch': "changed_only m0 (set_next m0 prev v) ?W" if "prev \<noteq> 0" for m0 v
    by (rule changed_only_mono[OF eff(3)]) (use that in \<open>simp add: word_at0_def unat_eq_0\<close>)
  show "changed_only m m' ?W"
  proof (cases "prev = 0")
    case True
    then have "m' = set_next m new head" by (simp add: m')
    then show ?thesis using ch by simp
  next
    case False
    then show ?thesis using changed_only_trans1[OF ch' ch] changed_only_trans1[OF ch ch'] by (simp add: m')
  qed
qed

lemma remove_effect:
  assumes "16 dvd unat prev" "free_list_node_remove m head prev del = (m', h')"
  shows "unat h' = (if prev = 0 then ldn m (unat del) else unat head)"
    and "prev \<noteq> 0 \<Longrightarrow> ldn m' (unat prev) = ldn m (unat del)"
    and "4 dvd k \<Longrightarrow> k < 4294967296 \<Longrightarrow> k \<noteq> unat prev \<or> prev = 0 \<Longrightarrow> ldn m' k = ldn m k"
    and "changed_only m m' (word_at0 (unat prev))"
  using assms set_next_effect[OF assms(1)] node16(2)[OF assms(1)]
  by (auto simp: free_list_node_remove_def node_next_ldn word_at0_def aligned4_def unat_eq_0 split: if_splits)

lemma write_header_effect:
  assumes "16 dvd unat h + 12"
  shows "ldn (write_header m h og s pd) (unat h) = unat og"
    and "ldn (write_header m h og s pd) (unat h + 4) = unat s"
    and "ldn (write_header m h og s pd) (unat h + 8) = unat pd"
    and "changed_only m (write_header m h og s pd) {unat h..<unat h + 12}"
proof -
  have lt: "unat h + 12 \<le> 4294967296"
    using assms unat_less_32[of h] by presburger
  have u: "unat (h + 4) = unat h + 4" "unat (h + 8) = unat h + 8"
    using lt by (simp_all add: unat_add_nowrap)
  have al: "aligned4 h" "aligned4 (h + 4)" "aligned4 (h + 8)" and d: "4 dvd unat h"
    using assms u unfolding aligned4_def by presburger+
  then have d': "4 dvd unat h + 4" "4 dvd unat h + 8" by auto
  show "ldn (write_header m h og s pd) (unat h) = unat og"
    "ldn (write_header m h og s pd) (unat h + 4) = unat s"
    "ldn (write_header m h og s pd) (unat h + 8) = unat pd"
    using al u lt d d' by (simp_all add: write_header_def ldn_store)
  show "changed_only m (write_header m h og s pd) {unat h..<unat h + 12}"
  proof -
    have c: "changed_only m0 (store32 m0 x v) {unat h..<unat h + 12}" if "x \<in> {h, h + 4, h + 8}" for m0 x v
      by (rule changed_only_mono[OF changed_only_store]) (use that al u in auto)
    show ?thesis
      unfolding write_header_def by (intro changed_only_trans1[OF changed_only_trans1[OF c c] c]) simp_all
  qed
qed

section \<open>Rebuilding a representation\<close>

text \<open>
  Replacing the blocks between \<open>xs\<close> and \<open>ys\<close>: what has to hold of the new memory so that it
  represents the new layout.
\<close>

lemma rep_rebuild:
  assumes fl: "0 < unat (fl_data fl)" "unat (fl_data fl) + unat (fl_size fl) < 4294967296"
    and tx: "tiles (unat (fl_data fl)) A xs" and tm: "tiles A B mid"
    and ty: "tiles B (unat (fl_data fl) + unat (fl_size fl)) ys"
    and ok: "\<forall>b \<in> set xs \<union> set ys. block_ok b \<and> hdr_ok m b"
    and sx: "seg m p (frees xs) q" and sy: "seg m r (frees ys) 0"
    and ch: "changed_only m m' ({A..<B} \<union> word_at0 (last_free xs))"
    and mid: "\<forall>b \<in> set mid. block_ok b \<and> hdr_ok m' b" and sm: "seg m' Q (frees mid) r"
    and co: "coalesced (xs @ mid @ ys)"
    and link: "frees xs \<noteq> [] \<Longrightarrow> ldn m' (last_free xs) = Q"
    and hd: "unat (fl_head fl) = (if frees xs = [] then Q else p)"
    and us: "unat (fl_used fl) = used_bytes (xs @ mid @ ys)"
  shows "fl_rep m' fl (xs @ mid @ ys)"
proof -
  have AB: "A \<le> B" using tm by (rule tiles_le)
  note fr = rest_frame[OF tx ty AB _ ok ch]
  have "seg m' (unat (fl_head fl)) (frees xs) Q" using fr(3)[OF _ sx link] fl(2) hd by simp
  then have "seg m' (unat (fl_head fl)) (frees (xs @ mid @ ys)) 0"
    using sm fr(2)[OF _ sy] fl(2) by (auto simp: seg_append)
  moreover have "\<forall>b \<in> set (xs @ mid @ ys). hdr_ok m' b" using fr(1) fl(2) mid by auto
  moreover have "layout_ok (unat (fl_data fl)) (unat (fl_data fl) + unat (fl_size fl)) (xs @ mid @ ys)"
    using tx tm ty co ok mid by (auto simp: layout_ok_def tiles_append)
  ultimately show ?thesis using fl us by (simp add: fl_rep_def)
qed

text \<open>The pieces of a representation around one free, or one used, block.\<close>

lemma rep_split:
  assumes "fl_rep m fl (xs @ b # ys)"
  shows "tiles (unat (fl_data fl)) (b_addr b) xs"
    "tiles (b_end b) (unat (fl_data fl) + unat (fl_size fl)) ys"
    "\<forall>c \<in> set xs \<union> set ys. block_ok c \<and> hdr_ok m c" "block_ok b" "hdr_ok m b"
    "0 < unat (fl_data fl)" "unat (fl_data fl) + unat (fl_size fl) < 4294967296"
    "coalesced (xs @ b # ys)" "b_end b \<le> unat (fl_data fl) + unat (fl_size fl)"
    "unat (fl_data fl) \<le> b_addr b"
    "unat (fl_used fl) = used_bytes (xs @ b # ys)"
  using assms tiles_split[of "unat (fl_data fl)" "unat (fl_data fl) + unat (fl_size fl)" xs b ys]
  by (auto simp: fl_rep_def layout_ok_def)

lemma rep_seg_free:
  assumes "fl_rep m fl (xs @ Free a s # ys)"
  shows "seg m (unat (fl_head fl)) (frees xs) a" "ldn m (a + 4) = s" "seg m (ldn m a) (frees ys) 0"
  using assms by (auto simp: fl_rep_def seg_append)

lemma last_free_node:
  assumes "tiles lo A xs" "\<forall>b \<in> set xs. block_ok b" "A \<le> 4294967296"
  shows "16 dvd last_free xs" "last_free xs \<noteq> 0 \<Longrightarrow> frees xs \<noteq> []"
    "frees xs \<noteq> [] \<Longrightarrow> last_free xs + 8 \<le> A"
    "0 < lo \<Longrightarrow> frees xs \<noteq> [] \<Longrightarrow> last_free xs \<noteq> 0"
proof -
  have *: "16 dvd last_free xs \<and> lo \<le> last_free xs \<and> last_free xs + 8 \<le> A" if ne: "frees xs \<noteq> []"
  proof -
    obtain u where u: "Free (last_free xs) u \<in> set xs" by (rule last_free_in[OF ne])
    have "16 dvd last_free xs" "8 \<le> u" using assms(2) u by force+
    then show ?thesis using tiles_inside[OF assms(1) u] by auto
  qed
  show "16 dvd last_free xs" using * by (cases "frees xs = []") (auto simp: last_free_def)
  show "last_free xs \<noteq> 0 \<Longrightarrow> frees xs \<noteq> []" by (auto simp: last_free_def)
  show "frees xs \<noteq> [] \<Longrightarrow> last_free xs + 8 \<le> A" "0 < lo \<Longrightarrow> frees xs \<noteq> [] \<Longrightarrow> last_free xs \<noteq> 0"
    using * by auto
qed

section \<open>Allocation\<close>

lemma carve_props:
  assumes "sz + pd \<le> s" "12 \<le> pd" "16 dvd a" "16 dvd a + pd" "16 dvd sz" "og \<le> sz"
  shows "tiles a (a + s) (carve a s sz pd og)" "\<forall>b \<in> set (carve a s sz pd og). block_ok b"
    "coalesced (xs @ Free a s # ys) \<Longrightarrow> coalesced (xs @ carve a s sz pd og @ ys)"
proof -
  show "tiles a (a + s) (carve a s sz pd og)" using assms(1) by (simp add: carve_def)
  have "16 dvd a + (sz + pd)" using assms(4,5) by (metis add.commute add.left_commute dvd_add)
  then show "\<forall>b \<in> set (carve a s sz pd og). block_ok b" using assms by (simp add: carve_def)
  show "coalesced (xs @ Free a s # ys) \<Longrightarrow> coalesced (xs @ carve a s sz pd og @ ys)"
    by (auto simp: carve_def coalesced_append coalesced_Cons)
qed

text \<open>Everything of \<^verbatim>\<open>free_list_take\<close> but the header: the node is split or taken whole, and unlinked.\<close>

lemma take_unlink:
  fixes node prev req rem head :: u32
  assumes n: "16 dvd unat node" "node \<noteq> 0" and p: "16 dvd unat prev" "prev \<noteq> node" "prev \<noteq> node + req"
    and q: "16 dvd unat req" "16 \<le> unat req" "unat node + unat req + 16 \<le> 4294967296"
    and ins: "free_list_node_insert (set_block_size m (node + req) rem) head node (node + req) = (m1, h1)"
    and rm: "free_list_node_remove m1 h1 prev node = (m2, h2)"
  shows "unat h2 = (if prev = 0 then unat node + unat req else unat head)"
    and "prev \<noteq> 0 \<Longrightarrow> ldn m2 (unat prev) = unat node + unat req"
    and "ldn m2 (unat node + unat req) = ldn m (unat node)"
    and "ldn m2 (unat node + unat req + 4) = unat rem"
    and "changed_only m m2 (word_at (unat node) \<union> {unat node + unat req..<unat node + unat req + 8}
          \<union> word_at0 (unat prev))"
proof -
  let ?new = "node + req" and ?m0 = "set_block_size m (node + req) rem"
  have u: "unat ?new = unat node + unat req" using q by (simp add: unat_add_nowrap)
  have n16: "16 dvd unat ?new" using n q u by simp
  have ne: "?new \<noteq> node" using q by auto
  have d4: "4 dvd unat node" "4 dvd unat ?new" "4 dvd unat ?new + 4" using n(1) n16 by presburger+
  note b = set_block_size_effect[OF n16, where m = m and v = rem]
  note i = insert_effect[OF n16 n(1) ne ins]
  note r = remove_effect[OF p(1) rm]
  have m0n: "ldn ?m0 (unat node) = ldn m (unat node)" using b(2)[of "unat node"] d4 u q by simp
  have m1node: "ldn m1 (unat node) = unat ?new" using i(3) n(2) by simp
  have m1new: "ldn m1 (unat ?new) = ldn m (unat node)" using i(2) n(2) m0n by simp
  have m1sz: "ldn m1 (unat ?new + 4) = unat rem"
  proof -
    have "ldn m1 (unat ?new + 4) = ldn ?m0 (unat ?new + 4)"
      by (rule ldn_changed_only[OF i(4)]) (use d4 u q in \<open>auto simp: word_at0_def\<close>)
    then show ?thesis using b(2)[of "unat ?new + 4"] d4 u q by simp
  qed
  have pu: "unat prev \<noteq> unat node" "unat prev \<noteq> unat ?new"
    using p(2,3) by (metis word_unat_eq_iff)+
  have pu4: "unat prev \<noteq> unat ?new + 4" using p(1) n16 by presburger
  show "unat h2 = (if prev = 0 then unat node + unat req else unat head)"
    using r(1) m1node u i(1) n(2) by simp
  show "prev \<noteq> 0 \<Longrightarrow> ldn m2 (unat prev) = unat node + unat req" using r(2) m1node u by simp
  show "ldn m2 (unat node + unat req) = ldn m (unat node)"
    using r(3)[of "unat ?new"] d4 pu m1new u q by simp
  show "ldn m2 (unat node + unat req + 4) = unat rem"
    using r(3)[of "unat ?new + 4"] d4 pu4 m1sz u q by simp
  let ?W = "word_at (unat node) \<union> {unat node + unat req..<unat node + unat req + 8} \<union> word_at0 (unat prev)"
  have "changed_only m ?m0 ?W" by (rule changed_only_mono[OF b(1)]) (auto simp: u)
  moreover have "changed_only ?m0 m1 ?W" by (rule changed_only_mono[OF i(4)]) (auto simp: u word_at0_def)
  moreover have "changed_only m1 m2 ?W" by (rule changed_only_mono[OF r(4)]) auto
  ultimately show "changed_only m m2 ?W" by (blast intro: changed_only_trans1)
qed

text \<open>The split followed by the unlinking, whichever way the split goes.\<close>

lemma split_unlink:
  assumes n: "unat node = a" "16 dvd a" "a \<noteq> 0" "a + s < 4294967296" "ldn m (a + 4) = s"
    and p: "unat prev = l" "16 dvd l" "l = 0 \<or> l + 8 \<le> a"
    and q: "unat req = r" "16 dvd r" "16 \<le> r" "r \<le> s"
    and sp: "free_list_split m head node req = (m1, h1, rq)"
    and rm: "free_list_node_remove m1 h1 prev node = (m2, h2)"
  defines "Q \<equiv> (if 16 \<le> s - r then a + r else ldn m a)"
  shows "unat rq = (if 16 \<le> s - r then r else s)"
    and "unat h2 = (if l = 0 then Q else unat head)" and "l \<noteq> 0 \<Longrightarrow> ldn m2 l = Q"
    and "16 \<le> s - r \<Longrightarrow> ldn m2 (a + r) = ldn m a \<and> ldn m2 (a + r + 4) = s - r"
    and "changed_only m m2 ({a..<a + s} \<union> word_at0 l)"
proof -
  have n16: "16 dvd unat node" "node \<noteq> 0" using n by auto
  have p16: "16 dvd unat prev" using p by simp
  have pl: "prev = 0 \<longleftrightarrow> l = 0" using p(1) by (metis unat_eq_0)
  have bsz: "unat (node_block_size m node) = s" using node_block_size_ldn[OF n16(1)] n by simp
  define rem where "rem = node_block_size m node - req"
  have urem: "unat rem = s - r" using bsz q by (simp add: rem_def unat_sub_nowrap)
  have g: "sizeof_Free_List_Node + sizeof_Free_List_Node \<le> rem \<longleftrightarrow> 16 \<le> s - r"
    using urem by (simp add: fl_sizes word_le_nat_alt)
  have "unat rq = (if 16 \<le> s - r then r else s) \<and> unat h2 = (if l = 0 then Q else unat head)
    \<and> (l \<noteq> 0 \<longrightarrow> ldn m2 l = Q) \<and> (16 \<le> s - r \<longrightarrow> ldn m2 (a + r) = ldn m a \<and> ldn m2 (a + r + 4) = s - r)
    \<and> changed_only m m2 ({a..<a + s} \<union> word_at0 l)"
  proof (cases "16 \<le> s - r")
    case True
    then have ins: "free_list_node_insert (set_block_size m (node + req) rem) head node (node + req) = (m1, h1)"
      and rq: "rq = req"
      using sp g by (auto simp: free_list_split_def Let_def rem_def split: prod.splits)
    have un: "unat (node + req) = a + r" using n q by (simp add: unat_add_nowrap)
    have ne: "prev \<noteq> node" "prev \<noteq> node + req" using p n q un by auto
    have sz: "16 dvd unat req" "16 \<le> unat req" "unat node + unat req + 16 \<le> 4294967296"
      using q n True by auto
    note tu = take_unlink[OF n16 p16 ne sz ins rm, unfolded n q p]
    have "changed_only m m2 ({a..<a + s} \<union> word_at0 l)"
      by (rule changed_only_mono[OF tu(5)]) (use True n in auto)
    then show ?thesis using tu True rq q pl urem by (simp add: Q_def)
  next
    case False
    then have eq: "m1 = m" "h1 = head" "rq = node_block_size m node"
      using sp g by (auto simp: free_list_split_def Let_def rem_def)
    note re = remove_effect[OF p16 rm, unfolded eq n p]
    have "changed_only m m2 ({a..<a + s} \<union> word_at0 l)" by (rule changed_only_mono[OF re(4)]) auto
    then show ?thesis using False re eq bsz pl by (simp add: Q_def)
  qed
  then show "unat rq = (if 16 \<le> s - r then r else s)"
    "unat h2 = (if l = 0 then Q else unat head)" "l \<noteq> 0 \<Longrightarrow> ldn m2 l = Q"
    "16 \<le> s - r \<Longrightarrow> ldn m2 (a + r) = ldn m a \<and> ldn m2 (a + r + 4) = s - r"
    "changed_only m m2 ({a..<a + s} \<union> word_at0 l)" by blast+
qed

lemma take_header_frame:
  assumes "16 dvd unat h + 12" "unat h + 12 \<le> e" "4 dvd k" "k < 4294967296" "e \<le> k \<or> k + 4 \<le> unat h"
  shows "ldn (write_header m h og s pd) k = ldn m k"
  by (rule ldn_changed_only[OF write_header_effect(4)[OF assms(1)] assms(3,4)]) (use assms(2,5) in auto)

text \<open>The counter of used bytes does not wrap.\<close>

lemma used_sum:
  assumes rep: "fl_rep m fl (xs @ Free a s # ys)" and "unat rq \<le> s"
  shows "unat (fl_used fl + rq) = unat (fl_used fl) + unat rq"
proof -
  note rs = rep_split[OF rep, simplified]
  have "unat (fl_used fl) + s < 4294967296"
    using rs(7,9,10,11) used_bytes_le[OF rs(1)] used_bytes_le[OF rs(2)] by simp
  then show ?thesis using assms(2) by (intro unat_add_nowrap) simp
qed

text \<open>The numbers of an allocation: the space it takes, and where its header is.\<close>

lemma take_numbers:
  fixes sz padding node :: u32
  assumes "unat node = a" "16 dvd a" "a + s < 4294967296"
    and pad: "unat padding = pd" "12 \<le> pd" "16 dvd a + pd" and sz: "unat sz + pd \<le> s" "16 dvd unat sz"
  shows "unat (sz + padding) = unat sz + pd" "16 dvd unat sz + pd" "16 \<le> unat sz + pd"
    "unat (padding - sizeof_Free_List_Allocation_Header) = pd - 12"
    "unat (node + (padding - sizeof_Free_List_Allocation_Header)) = a + (pd - 12)"
proof -
  show "unat (sz + padding) = unat sz + pd" using sz(1) pad(1) assms(3) by (simp add: unat_add_nowrap)
  have "16 dvd pd" using pad(3) dvd_add_right_iff[OF assms(2)] by simp
  then show "16 dvd unat sz + pd" "16 \<le> unat sz + pd" using pad(2) sz(2) dvd_imp_le[of 16 pd] by auto
  show u: "unat (padding - sizeof_Free_List_Allocation_Header) = pd - 12" using pad by (simp add: fl_sizes unat_sub_nowrap)
  show "unat (node + (padding - sizeof_Free_List_Allocation_Header)) = a + (pd - 12)"
    using u assms(1,3) sz(1) by (simp add: unat_add_nowrap)
qed

lemma free_list_take_rep:
  assumes rep: "fl_rep m fl (xs @ Free a s # ys)"
    and nd: "unat node = a" and pv: "unat prev = last_free xs"
    and pad: "unat padding = pd" "12 \<le> pd" "16 dvd a + pd"
    and sz: "unat sz + pd \<le> s" "16 dvd unat sz" "unat og \<le> unat sz"
    and take: "free_list_take m fl node prev sz padding og = (m', fl', p)"
  shows "fl_rep m' fl' (xs @ carve a s (unat sz) pd (unat og) @ ys)"
    and "unat p = a + pd"
    and "changed_only m m' ({a..<a + s} \<union> word_at0 (last_free xs))"
    and "fl_data fl' = fl_data fl \<and> fl_size fl' = fl_size fl \<and> fl_policy fl' = fl_policy fl"
proof -
  note rs = rep_split[OF rep, simplified] and sg = rep_seg_free[OF rep]
  let ?l = "last_free xs" and ?r = "unat sz + pd" and ?ap = "padding - sizeof_Free_List_Allocation_Header"
  have a16: "16 dvd a" and a0: "a \<noteq> 0" and hi: "a + s < 4294967296" using rs by auto
  have a32: "a \<le> 4294967296" using hi by simp
  have okx: "\<forall>b \<in> set xs. block_ok b" using rs(3) by blast
  note ln = last_free_node[OF rs(1) okx a32]
  have l16: "16 dvd ?l" and lA: "?l = 0 \<or> ?l + 8 \<le> a" and l0: "?l = 0 \<longleftrightarrow> frees xs = []"
    using ln(1) ln(2,3) ln(2) ln(4)[OF rs(6)] by blast+
  define h where "h = node + ?ap"
  note num = take_numbers[OF nd a16 hi pad sz(1,2), folded h_def]
  note ureq = num(1) and r16 = num(2,3) and uap = num(4) and uh = num(5)
  have h16: "16 dvd unat h + 12" and he: "unat h + 12 \<le> a + ?r" using uh pad sz by simp_all
  obtain m1 h1 rq where sp: "free_list_split m (fl_head fl) node (sz + padding) = (m1, h1, rq)"
    by (metis surj_pair)
  obtain m2 h2 where rm: "free_list_node_remove m1 h1 prev node = (m2, h2)" by (metis surj_pair)
  have res: "m' = write_header m2 h og rq ?ap" "fl' = fl\<lparr>fl_head := h2, fl_used := fl_used fl + rq\<rparr>"
    "p = h + sizeof_Free_List_Allocation_Header"
    using take sp rm by (auto simp: free_list_take_def Let_def h_def)
  note su = split_unlink[OF nd a16 a0 hi sg(2) pv l16 lA ureq r16 sz(1) sp rm]
  note wh = write_header_effect[OF h16, of m2 og rq ?ap, folded res(1)]
  note keep = take_header_frame[OF h16 he, of _ m2 og rq ?ap, folded res(1)]
  show up: "unat p = a + pd"
    using uh pad(2) sz(1) hi unfolding res(3) by (subst unat_add_nowrap) (simp_all add: fl_sizes)
  show ch: "changed_only m m' ({a..<a + s} \<union> word_at0 ?l)"
    by (rule changed_only_trans[OF su(5) wh(4)]) (use uh he sz(1) in auto)
  show "fl_data fl' = fl_data fl \<and> fl_size fl' = fl_size fl \<and> fl_policy fl' = fl_policy fl"
    by (simp add: res(2))
  define Q where "Q = (if 16 \<le> s - ?r then a + ?r else ldn m a)"
  note carve = carve_props[OF sz(1) pad(2) a16 pad(3) sz(2,3)]
  show "fl_rep m' fl' (xs @ carve a s (unat sz) pd (unat og) @ ys)"
  proof (rule rep_rebuild[where m = m and A = a and B = "a + s" and Q = Q and r = "ldn m a" and q = a])
    show "\<forall>b \<in> set (carve a s (unat sz) pd (unat og)). block_ok b \<and> hdr_ok m' b"
      using carve(2) wh(1-3) su(1) uh uap by (auto simp: carve_def add.assoc split: if_splits)
    show "seg m' Q (frees (carve a s (unat sz) pd (unat og))) (ldn m a)"
    proof -
      have "16 dvd a + ?r" using a16 r16(1) by (rule dvd_add)
      then have "4 dvd a + ?r" by (rule dvd_trans[rotated]) simp
      then show ?thesis
        using su(4) keep[of "a + ?r"] keep[of "a + ?r + 4"] a0 hi sz(1) by (auto simp: carve_def Q_def)
    qed
    show "frees xs \<noteq> [] \<Longrightarrow> ldn m' ?l = Q"
      using su(3) keep[of ?l] l16 lA l0 uh a32 by (auto simp: Q_def)
    show "unat (fl_head fl') = (if frees xs = [] then Q else unat (fl_head fl))"
      using su(2) l0 by (simp add: res(2) Q_def)
    show "unat (fl_used fl') = used_bytes (xs @ carve a s (unat sz) pd (unat og) @ ys)"
      using used_sum[OF rep, of rq] su(1) sz(1) rs(11) by (simp add: res(2) carve_def split: if_splits)
    show "coalesced (xs @ carve a s (unat sz) pd (unat og) @ ys)" using rs(8) by (rule carve(3))
    show "changed_only m m' ({a..<a + s} \<union> word_at0 ?l)" by (rule ch)
  qed (use rs sg carve(1) in \<open>simp_all add: res(2)\<close>)
qed

end
