(* ===== verification/FreeListAlloc.thy ===== *)
theory FreeListAlloc
  imports FreeListRefine
begin

text \<open>
  \<^verbatim>\<open>free_list_alloc\<close>: both searches terminate on a list the invariant describes, first fit
  returns the lowest free block that fits and best fit one with the least slack, and the whole
  call is an allocation of the layout.
\<close>

section \<open>The searches\<close>

text \<open>A request the arithmetic of the search cannot wrap on.\<close>

definition request_ok :: "u32 \<Rightarrow> u32 \<Rightarrow> bool" where
  "request_ok sz al \<longleftrightarrow> is_power_of_two al \<and> 16 \<le> unat al \<and> unat al dvd unat sz
     \<and> unat sz + unat al + 12 \<le> 4294967296"

lemma request_padding:
  assumes "request_ok sz al"
  obtains q where "calc_padding_with_header node al sizeof_Free_List_Allocation_Header = Some q"
    "unat q = pad_of (unat node) (unat al) 12" "unat (sz + q) = unat sz + pad_of (unat node) (unat al) 12"
proof -
  have a: "is_power_of_two al" and b: "unat sz + unat al + 12 \<le> 4294967296"
    using assms by (auto simp: request_ok_def)
  have "unat sizeof_Free_List_Allocation_Header + unat al < 4294967296" if "unat sz \<noteq> 0"
    using b that by (simp add: fl_sizes)
  moreover have "unat sizeof_Free_List_Allocation_Header + unat al < 4294967296" if "unat sz = 0"
  proof -
    obtain k where "k < 32" "unat al = 2 ^ k" using a is_power_of_two_iff by blast
    then have "unat al \<le> 2 ^ 31" using power_increasing[of k 31 "2::nat"] by simp
    then show ?thesis by (simp add: fl_sizes)
  qed
  ultimately obtain q where q: "calc_padding_with_header node al sizeof_Free_List_Allocation_Header = Some q"
    "unat q = pad_of (unat node) (unat al) 12"
    using calc_padding_with_header_eq[OF a, of sizeof_Free_List_Allocation_Header node]
    by (auto simp: fl_sizes)
  have "pad_of (unat node) (unat al) 12 < 12 + unat al"
    by (rule pad_of_props(2)[OF power_of_two_pos[OF a]])
  then have "unat (sz + q) = unat sz + unat q" using q(2) b by (intro unat_add_nowrap) linarith
  with q that show thesis by simp
qed

text \<open>Whether a node of the chain is large enough.\<close>

definition node_fits :: "u32 \<Rightarrow> u32 \<Rightarrow> nat \<times> nat \<Rightarrow> bool" where
  "node_fits sz al f \<longleftrightarrow> unat sz + pad_of (fst f) (unat al) 12 \<le> snd f"

definition node_slack :: "u32 \<Rightarrow> u32 \<Rightarrow> nat \<times> nat \<Rightarrow> nat" where
  "node_slack sz al f = snd f - (unat sz + pad_of (fst f) (unat al) 12)"

text \<open>The predecessor in a chain: the last node passed, or the one the search started after.\<close>

definition prev_in :: "(nat \<times> nat) list \<Rightarrow> u32 \<Rightarrow> nat" where
  "prev_in fs prev = (if fs = [] then unat prev else fst (last fs))"

lemma find_first_loop_spec:
  assumes "request_ok sz al" "seg m (unat node) fs 0" "\<forall>f \<in> set fs. 16 dvd fst f"
  shows "\<exists>node' prev' pad' fs1 fs2. find_first_loop m sz al node prev pad = Some (node', prev', pad')
    \<and> fs = fs1 @ fs2 \<and> (\<forall>f \<in> set fs1. \<not> node_fits sz al f) \<and> unat prev' = prev_in fs1 prev
    \<and> (case fs2 of [] \<Rightarrow> node' = 0
       | f # _ \<Rightarrow> node_fits sz al f \<and> unat node' = fst f \<and> unat pad' = pad_of (fst f) (unat al) 12)"
  using assms(2,3)
proof (induction fs arbitrary: node prev pad)
  case Nil
  then have "node = 0" by (simp add: unat_eq_0)
  then show ?case by (subst find_first_loop.simps) (auto simp: prev_in_def)
next
  case (Cons f fs)
  have n: "node \<noteq> 0" "fst f = unat node" "ldn m (unat node + 4) = snd f"
    "seg m (unat (node_next m node)) fs 0" "16 dvd unat node" "\<forall>f \<in> set fs. 16 dvd fst f"
    using Cons.prems by (auto simp: node_next_ldn)
  obtain q where q: "calc_padding_with_header node al sizeof_Free_List_Allocation_Header = Some q"
    "unat q = pad_of (unat node) (unat al) 12" "unat (sz + q) = unat sz + pad_of (unat node) (unat al) 12"
    by (rule request_padding[OF assms(1)])
  have fit: "sz + q \<le> node_block_size m node \<longleftrightarrow> node_fits sz al f"
    using q n node_block_size_ldn[OF n(5), of m] by (simp add: word_le_nat_alt node_fits_def)
  have step: "find_first_loop m sz al node prev pad =
      (if node_fits sz al f then Some (node, prev, q)
       else find_first_loop m sz al (node_next m node) node q)"
    using n(1) q(1) fit by (subst find_first_loop.simps) simp
  show ?case
  proof (cases "node_fits sz al f")
    case True
    then show ?thesis
      using step n q by (intro exI[of _ node] exI[of _ prev] exI[of _ q] exI[of _ "[]"] exI[of _ "f # fs"])
        (auto simp: prev_in_def)
  next
    case False
    obtain node' prev' pad' fs1 fs2 where IH:
      "find_first_loop m sz al (node_next m node) node q = Some (node', prev', pad')"
      "fs = fs1 @ fs2" "\<forall>f \<in> set fs1. \<not> node_fits sz al f" "unat prev' = prev_in fs1 node"
      "case fs2 of [] \<Rightarrow> node' = 0
       | f # _ \<Rightarrow> node_fits sz al f \<and> unat node' = fst f \<and> unat pad' = pad_of (fst f) (unat al) 12"
      using Cons.IH[OF n(4,6), where prev = node and pad = q] by blast
    have "unat prev' = prev_in (f # fs1) prev" using IH(4) n(2) by (simp add: prev_in_def)
    then show ?thesis using step False IH
      by (intro exI[of _ node'] exI[of _ prev'] exI[of _ pad'] exI[of _ "f # fs1"] exI[of _ fs2]) auto
  qed
qed

text \<open>
  Best fit: the loop ends with a node of least slack among those that beat the candidate it
  started with, or with that candidate.
\<close>

definition none_better :: "u32 \<Rightarrow> u32 \<Rightarrow> (nat \<times> nat) list \<Rightarrow> nat \<Rightarrow> bool" where
  "none_better sz al fs d \<longleftrightarrow> (\<forall>f \<in> set fs. node_fits sz al f \<longrightarrow> d \<le> node_slack sz al f)"

definition best_found ::
  "u32 \<Rightarrow> u32 \<Rightarrow> (nat \<times> nat) list \<Rightarrow> u32 \<Rightarrow> nat \<Rightarrow> addr \<times> addr \<times> u32 \<Rightarrow> bool" where
  "best_found sz al fs prev d r \<longleftrightarrow> (\<exists>fs1 f fs2. fs = fs1 @ f # fs2 \<and> node_fits sz al f
     \<and> node_slack sz al f < d \<and> none_better sz al fs (node_slack sz al f)
     \<and> unat (fst r) = fst f \<and> unat (fst (snd r)) = prev_in fs1 prev
     \<and> unat (snd (snd r)) = pad_of (fst f) (unat al) 12)"

lemma best_found_here:
  assumes "node_fits sz al f" "node_slack sz al f < d" "none_better sz al fs (node_slack sz al f)"
    "unat node = fst f" "unat q = pad_of (fst f) (unat al) 12"
  shows "best_found sz al (f # fs) prev d (node, prev, q)"
  unfolding best_found_def
  by (rule exI[of _ "[]"], rule exI[of _ f], rule exI[of _ fs])
     (use assms in \<open>auto simp: prev_in_def none_better_def\<close>)

lemma best_found_later:
  assumes "best_found sz al fs node d' r" "d' \<le> d" "node_fits sz al f \<Longrightarrow> d' \<le> node_slack sz al f"
    "unat node = fst f"
  shows "best_found sz al (f # fs) prev d r"
proof -
  obtain fs1 g fs2 where g: "fs = fs1 @ g # fs2" "node_fits sz al g" "node_slack sz al g < d'"
    "none_better sz al fs (node_slack sz al g)" "unat (fst r) = fst g"
    "unat (fst (snd r)) = prev_in fs1 node" "unat (snd (snd r)) = pad_of (fst g) (unat al) 12"
    using assms(1) by (auto simp: best_found_def)
  have "none_better sz al (f # fs) (node_slack sz al g)"
    using g(3,4) assms(3) by (auto simp: none_better_def)
  moreover have "prev_in (f # fs1) prev = prev_in fs1 node" using assms(4) by (simp add: prev_in_def)
  ultimately show ?thesis
    unfolding best_found_def
    by (intro exI[of _ "f # fs1"] exI[of _ g] exI[of _ fs2]) (use g assms(2) in auto)
qed

lemma find_best_loop_spec:
  assumes "request_ok sz al" "seg m (unat node) fs 0" "\<forall>f \<in> set fs. 16 dvd fst f"
  shows "\<exists>r. find_best_loop m sz al node prev best d = Some r
    \<and> (r = best \<and> none_better sz al fs (unat d) \<or> best_found sz al fs prev (unat d) r)"
  using assms(2,3)
proof (induction fs arbitrary: node prev best d)
  case Nil
  then have "node = 0" by (simp add: unat_eq_0)
  then show ?case by (subst find_best_loop.simps) (auto simp: none_better_def)
next
  case (Cons f fs)
  have n: "node \<noteq> 0" "unat node = fst f" "ldn m (unat node + 4) = snd f"
    "seg m (unat (node_next m node)) fs 0" "16 dvd unat node" "\<forall>f \<in> set fs. 16 dvd fst f"
    using Cons.prems by (auto simp: node_next_ldn)
  obtain q where q: "calc_padding_with_header node al sizeof_Free_List_Allocation_Header = Some q"
    "unat q = pad_of (unat node) (unat al) 12" "unat (sz + q) = unat sz + pad_of (unat node) (unat al) 12"
    by (rule request_padding[OF assms(1)])
  have bs: "unat (node_block_size m node) = snd f" using n node_block_size_ldn[OF n(5), of m] by simp
  have fit: "sz + q \<le> node_block_size m node \<longleftrightarrow> node_fits sz al f"
    using q n bs by (simp add: word_le_nat_alt node_fits_def)
  let ?d = "node_block_size m node - (sz + q)"
  have sl: "node_fits sz al f \<Longrightarrow> unat ?d = node_slack sz al f"
    using fit q n bs by (simp add: unat_sub_nowrap word_le_nat_alt node_slack_def)
  define better where "better \<longleftrightarrow> node_fits sz al f \<and> node_slack sz al f < unat d"
  have step: "find_best_loop m sz al node prev best d =
      (if better then find_best_loop m sz al (node_next m node) node (node, prev, q) ?d
       else find_best_loop m sz al (node_next m node) node best d)"
    using n(1) q(1) fit sl by (subst find_best_loop.simps) (auto simp: better_def word_less_nat_alt)
  have uq: "unat q = pad_of (fst f) (unat al) 12" using q(2) n(2) by simp
  show ?case
  proof (cases better)
    case True
    obtain r where r: "find_best_loop m sz al (node_next m node) node (node, prev, q) ?d = Some r"
      "r = (node, prev, q) \<and> none_better sz al fs (unat ?d) \<or> best_found sz al fs node (unat ?d) r"
      using Cons.IH[OF n(4,6)] by blast
    have "best_found sz al (f # fs) prev (unat d) r"
      using r(2) True sl best_found_here[OF _ _ _ n(2) uq, of sz "unat d" fs prev]
        best_found_later[OF _ _ _ n(2), of sz al fs "unat ?d" r "unat d" prev]
      unfolding better_def by auto
    then show ?thesis using step True r(1) by auto
  next
    case False
    obtain r where r: "find_best_loop m sz al (node_next m node) node best d = Some r"
      "r = best \<and> none_better sz al fs (unat d) \<or> best_found sz al fs node (unat d) r"
      using Cons.IH[OF n(4,6)] by blast
    have "r = best \<and> none_better sz al (f # fs) (unat d) \<or> best_found sz al (f # fs) prev (unat d) r"
      using r(2) False best_found_later[OF _ _ _ n(2), of sz al fs "unat d" r "unat d" prev]
      unfolding better_def by (auto simp: none_better_def)
    then show ?thesis using step False r(1) by auto
  qed
qed

section \<open>The whole call\<close>

text \<open>The alignment and size \<^verbatim>\<open>free_list_alloc\<close> works with, as natural numbers.\<close>

definition eff_align :: "u32 \<Rightarrow> nat" where
  "eff_align al = max 16 (unat al)"

definition eff_size :: "u32 \<Rightarrow> u32 \<Rightarrow> nat" where
  "eff_size sz al = round_up (max 8 (unat sz)) (eff_align al)"

text \<open>Requests the word arithmetic of the call does not wrap on.\<close>

definition alloc_request :: "u32 \<Rightarrow> u32 \<Rightarrow> bool" where
  "alloc_request sz al \<longleftrightarrow> (unat al < 16 \<or> is_power_of_two al)
     \<and> max 8 (unat sz) + 2 * eff_align al + 12 \<le> 4294967296"

definition b_slack :: "nat \<Rightarrow> nat \<Rightarrow> block \<Rightarrow> nat" where
  "b_slack sz al b = b_size b - (sz + pad_of (b_addr b) al 12)"

text \<open>Which of the fitting blocks the policy takes.\<close>

fun chosen :: "Placement_Policy \<Rightarrow> nat \<Rightarrow> nat \<Rightarrow> layout \<Rightarrow> block \<Rightarrow> layout \<Rightarrow> bool" where
  "chosen Placement_Policy_Find_First sz al xs b ys \<longleftrightarrow> (\<forall>c \<in> set xs. \<not> fits sz al c)"
| "chosen Placement_Policy_Find_Best sz al xs b ys \<longleftrightarrow>
     (\<forall>c \<in> set xs \<union> set ys. fits sz al c \<longrightarrow> b_slack sz al b \<le> b_slack sz al c)"

lemma alloc_request_eff:
  assumes "alloc_request sz al"
  obtains sz' al' where "al' = (if al < sizeof_max_align_t then sizeof_max_align_t else al)"
    "align_forward_size (if sz < sizeof_Free_List_Node then sizeof_Free_List_Node else sz) al' = Some sz'"
    "unat al' = eff_align al" "unat sz' = eff_size sz al" "request_ok sz' al'" "unat sz \<le> unat sz'"
proof -
  define al' where "al' = (if al < sizeof_max_align_t then sizeof_max_align_t else al)"
  define s where "s = (if sz < sizeof_Free_List_Node then sizeof_Free_List_Node else sz)"
  have ual: "unat al' = eff_align al" by (simp add: al'_def eff_align_def fl_sizes word_less_nat_alt)
  have us: "unat s = max 8 (unat sz)" by (simp add: s_def fl_sizes word_less_nat_alt)
  have "is_power_of_two (16 :: u32)" by (simp add: is_power_of_two_def)
  then have p2: "is_power_of_two al'"
    using assms by (auto simp: alloc_request_def al'_def fl_sizes word_less_nat_alt)
  have a0: "0 < eff_align al" by (simp add: eff_align_def)
  have ru: "max 8 (unat sz) \<le> eff_size sz al" "eff_size sz al < max 8 (unat sz) + eff_align al"
    using round_up_bounds[OF a0] by (simp_all add: eff_size_def)
  have bnd: "eff_size sz al + eff_align al + 12 \<le> 4294967296" using ru(2) assms by (simp add: alloc_request_def)
  obtain sz' where sz': "align_forward_size s al' = Some sz'" "unat sz' = eff_size sz al"
    using align_forward_size_eq[OF p2, of s] us ual bnd by (auto simp: eff_size_def)
  have "request_ok sz' al'"
    using p2 ual sz' bnd by (simp add: request_ok_def eff_align_def) (simp add: eff_size_def eff_align_def)
  then show thesis using that[OF al'_def _ ual sz'(2)] sz' ru(1) by (simp add: s_def)
qed

lemma frees_split:
  "frees bs = fs1 @ f # fs2 \<Longrightarrow> \<exists>xs ys. bs = xs @ Free (fst f) (snd f) # ys \<and> frees xs = fs1 \<and> frees ys = fs2"
proof (induction bs arbitrary: fs1)
  case (Cons b bs)
  show ?case
  proof (cases b)
    case (Free a s)
    show ?thesis
    proof (cases fs1)
      case Nil
      then show ?thesis using Cons.prems Free by (intro exI[of _ "[]"] exI[of _ bs]) auto
    next
      case (Cons g fs1')
      with Cons.prems Free have "frees bs = fs1' @ f # fs2" "g = (a, s)" by auto
      with Cons.IH[of fs1'] Free Cons show ?thesis by (metis append_Cons frees.simps(2) is_free.simps(1) block.sel(1,3))
    qed
  next
    case (Used a s pd og)
    then obtain xs ys where "bs = xs @ Free (fst f) (snd f) # ys" "frees xs = fs1" "frees ys = fs2"
      using Cons.IH[of fs1] Cons.prems by auto
    then show ?thesis using Used by (intro exI[of _ "b # xs"] exI[of _ ys]) auto
  qed
qed simp

lemma not_fits_frees: "(\<forall>f \<in> set (frees bs). \<not> node_fits sz al f) \<longleftrightarrow> (\<forall>b \<in> set bs. \<not> fits (unat sz) (unat al) b)"
proof (induction bs)
  case (Cons b bs)
  then show ?case by (cases b) (auto simp: node_fits_def fits_def)
qed simp

text \<open>What either search returns, in terms of the layout.\<close>

definition search_result ::
  "Placement_Policy \<Rightarrow> u32 \<Rightarrow> u32 \<Rightarrow> layout \<Rightarrow> addr \<times> addr \<times> u32 \<Rightarrow> bool" where
  "search_result pol sz al bs r \<longleftrightarrow>
     fst r = 0 \<and> (\<forall>b \<in> set bs. \<not> fits (unat sz) (unat al) b)
     \<or> (\<exists>xs a s ys. bs = xs @ Free a s # ys \<and> fits (unat sz) (unat al) (Free a s)
          \<and> chosen pol (unat sz) (unat al) xs (Free a s) ys
          \<and> unat (fst r) = a \<and> unat (fst (snd r)) = last_free xs
          \<and> unat (snd (snd r)) = pad_of a (unat al) 12)"

lemma rep_chain:
  assumes "fl_rep m fl bs"
  shows "seg m (unat (fl_head fl)) (frees bs) 0" "\<forall>f \<in> set (frees bs). 16 dvd fst f"
    "\<forall>f \<in> set (frees bs). fst f + snd f < 4294967296"
proof -
  show "seg m (unat (fl_head fl)) (frees bs) 0" using assms by (simp add: fl_rep_def)
  have lay: "tiles (unat (fl_data fl)) (unat (fl_data fl) + unat (fl_size fl)) bs"
    "\<forall>b \<in> set bs. block_ok b" "unat (fl_data fl) + unat (fl_size fl) < 4294967296"
    using assms by (auto simp: fl_rep_def layout_ok_def)
  show "\<forall>f \<in> set (frees bs). 16 dvd fst f" using lay(2) by (force simp: frees_in_set split_paired_all)
  show "\<forall>f \<in> set (frees bs). fst f + snd f < 4294967296"
    using tiles_inside[OF lay(1)] lay(3) by (fastforce simp: frees_in_set)
qed

lemma find_first_search:
  assumes "request_ok sz al" "fl_rep m fl bs"
  shows "\<exists>r. free_list_find_first m fl sz al = Some r \<and> search_result Placement_Policy_Find_First sz al bs r"
proof -
  obtain node prev pad fs1 fs2 where r: "free_list_find_first m fl sz al = Some (node, prev, pad)"
    and fs: "frees bs = fs1 @ fs2" "\<forall>f \<in> set fs1. \<not> node_fits sz al f" "unat prev = prev_in fs1 0"
    and c: "case fs2 of [] \<Rightarrow> node = 0
       | f # _ \<Rightarrow> node_fits sz al f \<and> unat node = fst f \<and> unat pad = pad_of (fst f) (unat al) 12"
    using find_first_loop_spec[OF assms(1) rep_chain(1,2)[OF assms(2)], where prev = 0 and pad = 0]
    unfolding free_list_find_first_def by blast
  have "search_result Placement_Policy_Find_First sz al bs (node, prev, pad)"
  proof (cases fs2)
    case Nil
    then show ?thesis using fs c not_fits_frees[of bs sz al] by (simp add: search_result_def)
  next
    case (Cons f fs2')
    obtain xs ys where bs: "bs = xs @ Free (fst f) (snd f) # ys" "frees xs = fs1"
      using frees_split[of bs fs1 f fs2'] fs(1) Cons by auto
    then show ?thesis
      unfolding search_result_def using fs(2,3) c Cons not_fits_frees[of xs sz al]
      by (intro disjI2 exI[of _ xs] exI[of _ "fst f"] exI[of _ "snd f"] exI[of _ ys])
         (auto simp: prev_in_def last_free_def node_fits_def fits_def)
  qed
  with r show ?thesis by blast
qed

lemma find_best_search:
  assumes "request_ok sz al" "fl_rep m fl bs"
  shows "\<exists>r. free_list_find_best m fl sz al = Some r \<and> search_result Placement_Policy_Find_Best sz al bs r"
proof -
  have mx: "unat (NOT 0 :: u32) = 4294967295" by (simp add: unsigned_minus_1_eq_mask mask_eq_exp_minus_1)
  obtain r where r: "free_list_find_best m fl sz al = Some r"
    and c: "r = (0, 0, 0) \<and> none_better sz al (frees bs) 4294967295
      \<or> best_found sz al (frees bs) 0 4294967295 r"
    using find_best_loop_spec[OF assms(1) rep_chain(1,2)[OF assms(2)], of 0 "(0, 0, 0)" "NOT 0"]
    unfolding free_list_find_best_def mx by blast
  from c have "search_result Placement_Policy_Find_Best sz al bs r"
  proof
    assume n: "r = (0, 0, 0) \<and> none_better sz al (frees bs) 4294967295"
    have a0: "0 < unat al" using assms(1) by (simp add: request_ok_def)
    have "\<forall>f \<in> set (frees bs). \<not> node_fits sz al f"
    proof
      fix f assume f: "f \<in> set (frees bs)"
      have "node_slack sz al f < 4294967295"
        using rep_chain(3)[OF assms(2)] f pad_of_props(1)[OF a0, of 12 "fst f"]
        by (fastforce simp: node_slack_def)
      then show "\<not> node_fits sz al f" using n f by (auto simp: none_better_def)
    qed
    then show ?thesis using n not_fits_frees[of bs sz al] by (simp add: search_result_def)
  next
    assume "best_found sz al (frees bs) 0 4294967295 r"
    then obtain fs1 f fs2 where f: "frees bs = fs1 @ f # fs2" "node_fits sz al f"
      "none_better sz al (frees bs) (node_slack sz al f)" "unat (fst r) = fst f"
      "unat (fst (snd r)) = prev_in fs1 0" "unat (snd (snd r)) = pad_of (fst f) (unat al) 12"
      by (auto simp: best_found_def)
    obtain xs ys where bs: "bs = xs @ Free (fst f) (snd f) # ys" "frees xs = fs1"
      using frees_split[OF f(1)] by auto
    have best: "b_slack (unat sz) (unat al) (Free (fst f) (snd f)) \<le> b_slack (unat sz) (unat al) c"
      if c: "c \<in> set bs" "fits (unat sz) (unat al) c" for c
    proof -
      have "is_free c" using c(2) by (simp add: fits_def)
      then obtain a s where as: "c = Free a s" by (cases c) auto
      then have "(a, s) \<in> set (frees bs)" "node_fits sz al (a, s)"
        using c by (simp_all add: frees_in_set node_fits_def fits_def)
      then have "node_slack sz al f \<le> node_slack sz al (a, s)" using f(3) by (simp add: none_better_def)
      then show ?thesis using as by (simp add: node_slack_def b_slack_def)
    qed
    then show ?thesis
      unfolding search_result_def using f bs
      by (intro disjI2 exI[of _ xs] exI[of _ "fst f"] exI[of _ "snd f"] exI[of _ ys])
         (auto simp: prev_in_def last_free_def node_fits_def fits_def)
  qed
  with r show ?thesis by blast
qed

lemma free_list_alloc_rep:
  assumes rep: "fl_rep m fl bs" and req: "alloc_request sz al"
  defines "S \<equiv> eff_size sz al" and "A \<equiv> eff_align al"
  shows "\<exists>m' fl' p. free_list_alloc m fl sz al = Some (m', fl', p) \<and>
    (p = 0 \<and> m' = m \<and> fl' = fl \<and> (\<forall>b \<in> set bs. \<not> fits S A b)
     \<or> (\<exists>xs a s ys. bs = xs @ Free a s # ys \<and> fits S A (Free a s) \<and> chosen (fl_policy fl) S A xs (Free a s) ys
          \<and> fl_rep m' fl' (xs @ carve a s S (pad_of a A 12) (unat sz) @ ys)
          \<and> p \<noteq> 0 \<and> unat p = a + pad_of a A 12
          \<and> changed_only m m' ({a..<a + s} \<union> word_at0 (last_free xs))
          \<and> fl_data fl' = fl_data fl \<and> fl_size fl' = fl_size fl \<and> fl_policy fl' = fl_policy fl))"
proof -
  obtain sz' al' where e: "al' = (if al < sizeof_max_align_t then sizeof_max_align_t else al)"
    "align_forward_size (if sz < sizeof_Free_List_Node then sizeof_Free_List_Node else sz) al' = Some sz'"
    and u: "unat al' = A" "unat sz' = S" and ro: "request_ok sz' al'" and le: "unat sz \<le> unat sz'"
    unfolding S_def A_def by (rule alloc_request_eff[OF req])
  obtain node prev padding where sr: "(if fl_policy fl = Placement_Policy_Find_Best
      then free_list_find_best m fl sz' al' else free_list_find_first m fl sz' al') = Some (node, prev, padding)"
    and r: "search_result (fl_policy fl) sz' al' bs (node, prev, padding)"
    using find_first_search[OF ro rep] find_best_search[OF ro rep] by (cases "fl_policy fl") auto
  have run: "free_list_alloc m fl sz al =
      Some (if node = 0 then (m, fl, 0) else free_list_take m fl node prev sz' padding sz)"
    unfolding free_list_alloc_def Let_def e(1)[symmetric] e(2) Option.bind.simps sr by simp
  from r[unfolded search_result_def u] show ?thesis
  proof
    assume "fst (node, prev, padding) = 0 \<and> (\<forall>b \<in> set bs. \<not> fits S A b)"
    then show ?thesis using run by simp
  next
    assume "\<exists>xs a s ys. bs = xs @ Free a s # ys \<and> fits S A (Free a s) \<and> chosen (fl_policy fl) S A xs (Free a s) ys
      \<and> unat (fst (node, prev, padding)) = a \<and> unat (fst (snd (node, prev, padding))) = last_free xs
      \<and> unat (snd (snd (node, prev, padding))) = pad_of a A 12"
    then obtain xs a s ys where bs: "bs = xs @ Free a s # ys" and fit: "fits S A (Free a s)"
      and ch: "chosen (fl_policy fl) S A xs (Free a s) ys"
      and nd: "unat node = a" and pv: "unat prev = last_free xs" and pd: "unat padding = pad_of a A 12" by auto
    have A: "0 < A" "16 dvd A" "A dvd S"
    proof -
      have "is_power_of_two (16 :: u32)" by (simp add: is_power_of_two_def)
      then show "16 dvd A" using ro u(1) is_power_of_two_dvd[of 16 al'] by (simp add: request_ok_def)
      show "0 < A" "A dvd S" using ro u by (auto simp: request_ok_def)
    qed
    note pp = pad_of_props[OF A(1), where p = a and h = 12]
    obtain m' fl' p where tk: "free_list_take m fl node prev sz' padding sz = (m', fl', p)" by (metis surj_pair)
    note t = free_list_take_rep[OF rep[unfolded bs] nd pv pd pp(1) dvd_trans[OF A(2) pp(3)] _ _ le tk, unfolded u]
    have f1: "S + pad_of a A 12 \<le> s" using fit by (simp add: fits_def)
    have f2: "16 dvd S" using A by (metis dvd_trans)
    have "a \<noteq> 0" using rep_split(6,10)[OF rep[unfolded bs]] by simp
    then have "node \<noteq> 0" "p \<noteq> 0" using nd t(2)[OF f1 f2] by auto
    then show ?thesis
      using run tk t(1-4)[OF f1 f2] bs fit ch by (intro exI[of _ m'] exI[of _ fl'] exI[of _ p]) auto
  qed
qed

end
