(* ===== verification/FreeListFree.thy ===== *)
theory FreeListFree
  imports FreeListAlloc
begin

text \<open>
  \<^verbatim>\<open>free_list_free\<close> and initialisation: the search for the insertion point terminates between the
  free neighbours of the block, the coalescing merges with exactly the adjacent free blocks, and
  the whole call is \<open>lay_free\<close> of the layout.
\<close>

section \<open>Inserting in address order\<close>

lemma seg_last: "seg m p fs q \<Longrightarrow> fs \<noteq> [] \<Longrightarrow> ldn m (fst (last fs)) = q"
  by (induction fs arbitrary: p) (auto split: if_splits)

lemma free_insert_loop_spec:
  assumes "seg m (unat node) (fs1 @ fs2) 0"
    and "\<forall>f \<in> set fs1. fst f < unat fn" "\<forall>f \<in> set fs2. unat fn < fst f"
  shows "\<exists>node' pv. unat pv = prev_in fs1 prev \<and> (node' = 0 \<longleftrightarrow> fs2 = [])
    \<and> free_insert_loop m head fn node prev =
        Some (if fs2 = [] then (m, head, node', pv)
              else (let (m', h') = free_list_node_insert m head pv fn in (m', h', node', pv)))"
  using assms(1,2)
proof (induction fs1 arbitrary: node prev)
  case Nil
  show ?case
  proof (cases fs2)
    case Nil
    then have "node = 0" using Nil.prems by (simp add: unat_eq_0)
    with Nil have "free_insert_loop m head fn node prev = Some (m, head, 0, prev)"
      by (subst free_insert_loop.simps) simp
    with Nil show ?thesis
      by (simp add: prev_in_def)
  next
    case (Cons f fs)
    then have "node \<noteq> 0" "fn < node" using Nil.prems assms(3) by (auto simp: word_less_nat_alt)
    then have "free_insert_loop m head fn node prev =
        Some (let (m', h') = free_list_node_insert m head prev fn in (m', h', node, prev))"
      by (subst free_insert_loop.simps) (simp split: prod.splits)
    with Cons \<open>node \<noteq> 0\<close> have "unat prev = prev_in [] prev \<and> (node = 0 \<longleftrightarrow> fs2 = [])
      \<and> free_insert_loop m head fn node prev = Some (if fs2 = [] then (m, head, node, prev)
          else (let (m', h') = free_list_node_insert m head prev fn in (m', h', node, prev)))"
      by (simp add: prev_in_def)
    then show ?thesis by blast
  qed
next
  case (Cons f fs1)
  have n: "node \<noteq> 0" "unat node = fst f" "seg m (unat (node_next m node)) (fs1 @ fs2) 0"
    "\<forall>f \<in> set fs1. fst f < unat fn" "\<not> fn < node"
    using Cons.prems by (auto simp: node_next_ldn word_less_nat_alt)
  have step: "free_insert_loop m head fn node prev = free_insert_loop m head fn (node_next m node) node"
    using n(1,5) by (subst free_insert_loop.simps) simp
  have pi: "prev_in (f # fs1) prev = prev_in fs1 node" using n(2) by (simp add: prev_in_def)
  show ?case unfolding step pi by (rule Cons.IH[OF n(3,4)])
qed

lemma seg_size: "seg m p fs q \<Longrightarrow> (a, s) \<in> set fs \<Longrightarrow> ldn m (a + 4) = s"
  by (induction fs arbitrary: p) auto

section \<open>Coalescing\<close>

text \<open>Node \<open>x\<close> takes over the following node \<open>y\<close>: both halves of \<^verbatim>\<open>free_list_coalescence\<close>.\<close>

lemma absorb_effect:
  assumes x: "unat x = a" "16 dvd a" "a \<noteq> 0" and y: "unat y = b" "16 dvd b" "b \<noteq> a"
    and s: "ldn m (a + 4) = s" "ldn m (b + 4) = t" "s + t < 4294967296"
    and rm: "free_list_node_remove (set_block_size m x (node_block_size m x + node_block_size m y)) head x y
      = (m', h')"
  shows "h' = head" "ldn m' a = ldn m b" "ldn m' (a + 4) = s + t" "changed_only m m' {a..<a + 8}"
proof -
  let ?v = "node_block_size m x + node_block_size m y"
  have x16: "16 dvd unat x" and y16: "16 dvd unat y" and x0: "x \<noteq> 0" using x y by auto
  have v: "unat ?v = s + t"
    using node_block_size_ldn[OF x16, of m] node_block_size_ldn[OF y16, of m] x y s by (simp add: unat_add_nowrap)
  have lt: "a + 16 \<le> 4294967296" "b < 4294967296" using node16(4)[OF x16] x y(1) unat_less_32[of y] by auto
  have d: "4 dvd b" "4 dvd a + 4" using x(2) y(2) by presburger+
  have ne: "b \<noteq> a + 4" "a + 4 \<noteq> a" using x(2) y(2) by presburger+
  note b = set_block_size_effect[OF x16, where m = m and v = ?v, unfolded x(1)]
  note r = remove_effect[OF x16 rm, unfolded x(1) y(1)]
  show "h' = head" using rm x0 by (simp add: free_list_node_remove_def)
  show "ldn m' a = ldn m b" using r(2) x0 b(2)[OF d(1) lt(2)] ne by simp
  show "ldn m' (a + 4) = s + t" using r(3)[OF d(2)] b(2)[OF d(2)] lt ne v by simp
  have "changed_only m (set_block_size m x ?v) {a..<a + 8}" by (rule changed_only_mono[OF b(1)]) auto
  moreover have "changed_only (set_block_size m x ?v) m' {a..<a + 8}"
    by (rule changed_only_mono[OF r(4)]) (auto simp: word_at0_def)
  ultimately show "changed_only m m' {a..<a + 8}" by (rule changed_only_trans1)
qed

text \<open>The test of each half: the next free node starts where the block ends, exactly when the neighbour is free.\<close>

lemma next_adjacent_iff:
  assumes "tiles E hi ys" "\<forall>b \<in> set ys. block_ok b" "seg m r (frees ys) 0" "0 < E"
  shows "r \<noteq> 0 \<and> E = r \<longleftrightarrow> ys \<noteq> [] \<and> is_free (hd ys)"
proof (cases ys)
  case Nil
  then show ?thesis using assms by simp
next
  case (Cons b ys')
  show ?thesis
  proof (cases "is_free b")
    case True
    then show ?thesis using assms Cons by auto
  next
    case False
    then have sg: "seg m r (frees ys') 0" and t: "tiles (b_end b) hi ys'" "8 \<le> b_size b" "b_addr b = E"
      using assms Cons block_ok_size[of b] by auto
    have "E < r" if r0: "r \<noteq> 0"
    proof -
      have "frees ys' \<noteq> []" using sg r0 by auto
      then obtain f fs where "frees ys' = f # fs" by (meson list.exhaust)
      then have "(r, snd f) \<in> set (frees ys')" using sg by (cases f) auto
      then have "Free r (snd f) \<in> set ys'" by (simp add: frees_in_set)
      then show ?thesis using tiles_inside[OF t(1)] t by force
    qed
    then show ?thesis using Cons False by auto
  qed
qed

lemma last_adjacent_iff:
  assumes "tiles lo a xs" "\<forall>b \<in> set xs. block_ok b" "0 < lo" "Free (last_free xs) t \<in> set xs"
  shows "last_free xs + t = a \<longleftrightarrow> is_free (last xs)"
proof -
  have ne: "xs \<noteq> []" using assms(4) by auto
  then obtain ys b where xs: "xs = ys @ [b]" by (metis append_butlast_last_id)
  have t: "tiles lo (b_addr b) ys" "b_end b = a" using assms(1) xs by (auto simp: tiles_append)
  have b8: "8 \<le> b_size b" using assms(2) xs block_ok_size by auto
  show ?thesis
  proof (cases "is_free b")
    case True
    then have l: "last_free xs = b_addr b" using xs by (simp add: last_free_def)
    have "Free (last_free xs) t \<notin> set ys"
    proof
      assume f: "Free (last_free xs) t \<in> set ys"
      have "8 \<le> t" using assms(2,4) by force
      then show False using tiles_inside[OF t(1) f] l by simp
    qed
    then have b: "b = Free (last_free xs) t" using assms(4) xs by auto
    then have "last_free xs + t = a" using t(2) by (metis block.sel(1,3))
    then show ?thesis using True xs by simp
  next
    case False
    then have "b \<noteq> Free (last_free xs) t" by auto
    then have "Free (last_free xs) t \<in> set ys" using assms(4) xs by auto
    then show ?thesis using tiles_inside[OF t(1)] t(2) b8 xs False by force
  qed
qed

text \<open>The two halves of the coalescing as one operation.\<close>

definition absorb_if :: "bool \<Rightarrow> mem \<Rightarrow> addr \<Rightarrow> addr \<Rightarrow> addr \<Rightarrow> mem \<times> addr" where
  "absorb_if c m head x y =
     (if c then free_list_node_remove (set_block_size m x (node_block_size m x + node_block_size m y)) head x y
      else (m, head))"

lemma free_list_coalescence_absorb:
  "free_list_coalescence m head pv fn =
     (let (m3, h3) = absorb_if (node_next m fn \<noteq> 0 \<and> fn + node_block_size m fn = node_next m fn)
                       m head fn (node_next m fn)
      in absorb_if (pv \<noteq> 0 \<and> pv + node_block_size m3 pv = fn) m3 h3 pv fn)"
  by (simp add: free_list_coalescence_def absorb_if_def Let_def split: prod.splits)

text \<open>
  A freed block of \<open>s\<close> bytes at \<open>a\<close> between \<open>xs\<close> and the free node \<open>r\<close>, linked into the list but
  not merged with what is before it.
\<close>

definition linked_at :: "mem \<Rightarrow> mem \<Rightarrow> layout \<Rightarrow> nat \<Rightarrow> nat \<Rightarrow> nat \<Rightarrow> bool" where
  "linked_at m m' xs a s r \<longleftrightarrow> ldn m' a = r \<and> ldn m' (a + 4) = s
     \<and> (frees xs \<noteq> [] \<longrightarrow> ldn m' (last_free xs) = a)
     \<and> changed_only m m' ({a..<a + s} \<union> word_at0 (last_free xs))"

text \<open>Whether the code finds the freed block and the next free node adjacent.\<close>

lemma right_test:
  assumes fn: "unat fn = a" "16 dvd a" "a \<noteq> 0" "8 \<le> s"
    and ty: "tiles (a + s) hi ys" "hi < 4294967296" "\<forall>b \<in> set ys. block_ok b"
    and sy: "seg m r (frees ys) 0" and l: "linked_at m m2 xs a s r"
  shows "(node_next m2 fn \<noteq> 0 \<and> fn + node_block_size m2 fn = node_next m2 fn) \<longleftrightarrow> ys \<noteq> [] \<and> is_free (hd ys)"
    "unat (node_next m2 fn) = r"
    "ys \<noteq> [] \<Longrightarrow> is_free (hd ys) \<Longrightarrow> \<exists>t ys'. ys = Free (a + s) t # ys' \<and> r = a + s"
proof -
  have fn16: "16 dvd unat fn" using fn by simp
  show un: "unat (node_next m2 fn) = r" using l fn by (simp add: node_next_ldn linked_at_def)
  have ub: "unat (node_block_size m2 fn) = s"
    using l fn node_block_size_ldn[OF fn16] by (simp add: linked_at_def)
  have "unat (fn + node_block_size m2 fn) = a + s" using fn ub tiles_le[OF ty(1)] ty(2) by (simp add: unat_add_nowrap)
  then have c: "(node_next m2 fn \<noteq> 0 \<and> fn + node_block_size m2 fn = node_next m2 fn) \<longleftrightarrow> r \<noteq> 0 \<and> a + s = r"
    using un by (metis u32_eq_iff unat_eq_0)
  have adj: "r \<noteq> 0 \<and> a + s = r \<longleftrightarrow> ys \<noteq> [] \<and> is_free (hd ys)"
    using next_adjacent_iff[OF ty(1,3) sy] fn by simp
  show "(node_next m2 fn \<noteq> 0 \<and> fn + node_block_size m2 fn = node_next m2 fn) \<longleftrightarrow> ys \<noteq> [] \<and> is_free (hd ys)"
    unfolding c by (rule adj)
  show "\<exists>t ys'. ys = Free (a + s) t # ys' \<and> r = a + s" if ne: "ys \<noteq> []" "is_free (hd ys)"
    using ne ty(1) adj by (cases ys; cases "hd ys") auto
qed

text \<open>A node behind the freed block is as it was.\<close>

lemma linked_at_behind:
  assumes l: "linked_at m m2 xs a s r" "frees xs \<noteq> [] \<Longrightarrow> last_free xs + 8 \<le> a"
    and n: "16 dvd n" "8 \<le> t" "a + s \<le> n" "n + t \<le> 4294967296"
  shows "ldn m n = ldn m2 n \<and> ldn m (n + 4) = ldn m2 (n + 4)"
proof -
  have ch: "changed_only m m2 ({a..<a + s} \<union> word_at0 (last_free xs))" using l(1) by (simp add: linked_at_def)
  have dis: "{i..<k} \<inter> ({a..<a + s} \<union> word_at0 (last_free xs)) = {}" if "a + s \<le> i" for i k
    using that l(2) by (cases "frees xs = []") (auto simp: word_at0_def last_free_def)
  show ?thesis using node_frame[OF n(1,2,4) ch] dis[of n] dis[of "n + 4"] n(3) by simp
qed

lemma coalesce_right:
  assumes fn: "unat fn = a" "16 dvd a" "a \<noteq> 0" "8 \<le> s"
    and ty: "tiles (a + s) hi ys" "hi < 4294967296" "\<forall>b \<in> set ys. block_ok b"
    and sy: "seg m r (frees ys) 0" and l: "linked_at m m2 xs a s r" "frees xs \<noteq> [] \<Longrightarrow> last_free xs + 8 \<le> a" "16 dvd last_free xs"
    and m3: "absorb_if (node_next m2 fn \<noteq> 0 \<and> fn + node_block_size m2 fn = node_next m2 fn)
               m2 head fn (node_next m2 fn) = (m3, h3)"
  obtains r1 where "h3 = head" "linked_at m m3 xs a (fst (join_right s ys)) r1"
    "seg m r1 (frees (snd (join_right s ys))) 0" "tiles (a + fst (join_right s ys)) hi (snd (join_right s ys))"
proof -
  have le: "a + s \<le> hi" using ty(1) by (rule tiles_le)
  note rt = right_test[OF fn ty sy l(1)]
  show thesis
  proof (cases "ys \<noteq> [] \<and> is_free (hd ys)")
    case False
    then have "m3 = m2" "h3 = head" using m3 unfolding absorb_if_def rt(1) by auto
    then show ?thesis using False that[of r] l sy ty(1) by (auto simp: join_right_def)
  next
    case True
    then obtain t ys' where ys: "ys = Free r t # ys'" and ra: "r = a + s" using rt(3) by auto
    have t: "16 dvd r" "8 \<le> t" "tiles (a + s + t) hi ys'" "a + s + t \<le> hi"
      using ty(1,3) ys ra tiles_le[of "a + s + t" hi ys'] by auto
    have rl: "ldn m r = ldn m2 r \<and> ldn m (r + 4) = ldn m2 (r + 4)"
      by (rule linked_at_behind[OF l(1,2) t(1,2)]) (use t(4) ty(2) ra in simp_all)
    have sr: "ldn m (r + 4) = t" "seg m (ldn m r) (frees ys') 0" using sy ys by auto
    have rm: "free_list_node_remove (set_block_size m2 fn (node_block_size m2 fn + node_block_size m2 (node_next m2 fn)))
      head fn (node_next m2 fn) = (m3, h3)" using m3 True unfolding absorb_if_def rt(1) by simp
    have rne: "r \<noteq> a" and st: "s + t < 4294967296" and sz: "ldn m2 (a + 4) = s" "ldn m2 (r + 4) = t"
      using ra fn t ty(2) l(1) rl sr by (auto simp: linked_at_def)
    note ab = absorb_effect[OF fn(1-3) rt(2) t(1) rne sz st rm]
    have "ldn m3 (last_free xs) = a" if ne: "frees xs \<noteq> []"
    proof -
      have "ldn m3 (last_free xs) = ldn m2 (last_free xs)"
      proof (rule ldn_changed_only[OF ab(4)])
        show "last_free xs < 4294967296" using l(2)[OF ne] le ty(2) by simp
        show "word_at (last_free xs) \<inter> {a..<a + 8} = {}" using l(2)[OF ne] by auto
        show "4 dvd last_free xs" using l(3) by (rule dvd_trans[rotated]) simp
      qed
      then show ?thesis using l(1) ne by (simp add: linked_at_def)
    qed
    moreover have "changed_only m m3 ({a..<a + (s + t)} \<union> word_at0 (last_free xs))"
      using l(1) by (intro changed_only_trans[OF _ ab(4)]) (use fn(4) in \<open>auto simp: linked_at_def\<close>)
    ultimately have "linked_at m m3 xs a (s + t) (ldn m r)"
      using ab(2,3) rl by (simp add: linked_at_def)
    then show ?thesis using that[of "ldn m r"] ab(1) sr t ys by (simp add: join_right_def add.assoc)
  qed
qed

text \<open>The test for the merge with the block in front.\<close>

lemma left_test:
  assumes lo: "0 < lo" and a: "unat fn = a" "a \<le> 4294967296"
    and tx: "tiles lo a xs" and okx: "\<forall>b \<in> set xs. block_ok b"
    and sx: "seg m p (frees xs) q" and l: "linked_at m m3 xs a s r"
    and pv: "unat pv = last_free xs"
  shows "(pv \<noteq> 0 \<and> pv + node_block_size m3 pv = fn) \<longleftrightarrow> xs \<noteq> [] \<and> is_free (last xs)"
    and "Free (last_free xs) t \<in> set xs \<Longrightarrow> ldn m3 (last_free xs + 4) = t"
proof -
  note ln = last_free_node[OF tx okx a(2)]
  have pv0: "pv = 0 \<longleftrightarrow> frees xs = []" using pv ln(2) ln(4)[OF lo] by (metis unat_eq_0)
  have ch: "changed_only m m3 ({a..<a + s} \<union> word_at0 (last_free xs))" using l by (auto simp: linked_at_def)
  have pv16: "16 dvd unat pv" using ln(1) pv by simp
  have szl: "ldn m3 (last_free xs + 4) = t" if f: "Free (last_free xs) t \<in> set xs" for t
  proof -
    have t: "8 \<le> t" "last_free xs + t \<le> a" using okx f tiles_inside[OF tx f] by force+
    have "ldn m3 (last_free xs + 4) = ldn m (last_free xs + 4)"
      by (rule node_frame(2)[OF ln(1) t(1) _ ch]) (use t a(2) in \<open>auto simp: word_at0_def\<close>)
    moreover have "(last_free xs, t) \<in> set (frees xs)" using f by (simp add: frees_in_set)
    ultimately show ?thesis using seg_size[OF sx] by simp
  qed
  then show "Free (last_free xs) t \<in> set xs \<Longrightarrow> ldn m3 (last_free xs + 4) = t" .
  show "(pv \<noteq> 0 \<and> pv + node_block_size m3 pv = fn) \<longleftrightarrow> xs \<noteq> [] \<and> is_free (last xs)"
  proof (cases "frees xs = []")
    case True
    then have "xs = [] \<or> \<not> is_free (last xs)"
      by (metis append_butlast_last_id append_is_Nil_conv frees.simps(2) frees_append list.discI)
    then show ?thesis using True pv0 by auto
  next
    case False
    then obtain t where f: "Free (last_free xs) t \<in> set xs" by (rule last_free_in)
    have "unat (node_block_size m3 pv) = t" using node_block_size_ldn[OF pv16] szl[OF f] pv by simp
    moreover have "last_free xs + t < 4294967296"
      using tiles_inside[OF tx f] a(1) unat_less_32[of fn] by simp
    ultimately have "unat (pv + node_block_size m3 pv) = last_free xs + t"
      using pv by (subst unat_add_nowrap) auto
    then show ?thesis
      using last_adjacent_iff[OF tx okx lo f] False pv0 a(1) f by (auto simp: u32_eq_iff)
  qed
qed

text \<open>The merge with the block in front, and the representation it leaves.\<close>

text \<open>A free block in front of the freed one.\<close>

lemma last_free_split:
  assumes "xs \<noteq> []" "is_free (last xs)" "tiles lo a xs" "\<forall>b \<in> set xs. block_ok b"
  obtains xs' c t where "xs = xs' @ [Free c t]" "last_free xs = c" "join_left xs a s = (xs', c, t + s)"
    "tiles lo c xs'" "c + t = a" "16 dvd c" "8 \<le> t"
proof -
  obtain c t where last: "last xs = Free c t" using assms(2) by (cases "last xs") auto
  define xs' where "xs' = butlast xs"
  have xs: "xs = xs' @ [Free c t]" using assms(1) last append_butlast_last_id[of xs] by (simp add: xs'_def)
  show thesis using assms(3,4) by (intro that[of xs' c t]) (auto simp: xs last_free_def join_left_def tiles_append)
qed

text \<open>Writes behind the last node of a list leave its link to the next.\<close>

lemma seg_last_kept:
  assumes "seg m p (frees xs) c" "frees xs \<noteq> []" "tiles lo c xs" "\<forall>b \<in> set xs. block_ok b" "c \<le> 4294967296"
    and ch: "changed_only m m' {c..<k}"
  shows "ldn m' (last_free xs) = c"
proof -
  have ln: "16 dvd last_free xs" "last_free xs + 8 \<le> c"
    using last_free_node[OF assms(3,4)] assms(2,5) by auto
  have "ldn m' (last_free xs) = ldn m (last_free xs)"
    by (rule ldn_changed_only[OF ch dvd_trans[OF _ ln(1)]]) (use ln assms(5) in auto)
  then show ?thesis using seg_last[OF assms(1,2)] assms(2) by (simp add: last_free_def)
qed

lemma coalesce_left:
  assumes fl: "0 < unat (fl_data fl)" "unat (fl_data fl) + unat (fl_size fl) < 4294967296"
    and a: "unat fn = a" "16 dvd a" "8 \<le> s"
    and tx: "tiles (unat (fl_data fl)) a xs" and ty: "tiles (a + s) (unat (fl_data fl) + unat (fl_size fl)) ys"
    and ok: "\<forall>b \<in> set xs \<union> set ys. block_ok b \<and> hdr_ok m b"
    and co: "coalesced xs" "coalesced ys" "ys = [] \<or> \<not> is_free (hd ys)"
    and sx: "seg m p (frees xs) q" and sy: "seg m r (frees ys) 0" and l: "linked_at m m3 xs a s r"
    and pv: "unat pv = last_free xs" and h3: "unat h3 = (if frees xs = [] then a else p)"
    and m4: "absorb_if (pv \<noteq> 0 \<and> pv + node_block_size m3 pv = fn) m3 h3 pv fn = (m4, fl_head fl)"
    and used: "unat (fl_used fl) = used_bytes xs + used_bytes ys"
    and jl: "join_left xs a s = (xs1, a1, s1)"
  shows "fl_rep m4 fl (xs1 @ [Free a1 s1] @ ys) \<and> changed_only m m4 ({a1..<a1 + s1} \<union> word_at0 (last_free xs1))"
proof -
  let ?D = "unat (fl_data fl)" let ?E = "?D + unat (fl_size fl)"
  have as: "a + s \<le> ?E" using ty by (rule tiles_le)
  have okx: "\<forall>b \<in> set xs. block_ok b" and a32: "a \<le> 4294967296" using ok as fl by auto
  note lt = left_test[OF fl(1) a(1) a32 tx okx sx l pv]
  have L: "ldn m3 a = r" "ldn m3 (a + 4) = s" "frees xs \<noteq> [] \<Longrightarrow> ldn m3 (last_free xs) = a"
    "changed_only m m3 ({a..<a + s} \<union> word_at0 (last_free xs))" using l by (auto simp: linked_at_def)
  have a0: "a \<noteq> 0" using tiles_le[OF tx] fl by simp
  show ?thesis
  proof (cases "xs \<noteq> [] \<and> is_free (last xs)")
    case False
    then have eq: "m4 = m3" "fl_head fl = h3" and j: "xs1 = xs" "a1 = a" "s1 = s"
      using m4 jl unfolding absorb_if_def lt(1) by (auto simp: join_left_def)
    have "fl_rep m3 fl (xs @ [Free a s] @ ys)"
    proof (rule rep_rebuild[where m = m and A = a and B = "a + s" and Q = a and r = r and p = p and q = q])
      show "coalesced (xs @ [Free a s] @ ys)" using co False by (auto simp: coalesced_append coalesced_Cons)
      show "seg m3 a (frees [Free a s]) r" using L a0 by simp
      show "\<forall>b \<in> set [Free a s]. block_ok b \<and> hdr_ok m3 b" "tiles a (a + s) [Free a s]" using a by simp_all
      show "unat (fl_head fl) = (if frees xs = [] then a else p)" using h3 eq by simp
      show "unat (fl_used fl) = used_bytes (xs @ [Free a s] @ ys)" using used by simp
    qed (use fl tx ty ok sx sy L in blast)+
    then show ?thesis using L(4) by (simp add: j eq)
  next
    case True
    obtain xs' c t where xs: "xs = xs' @ [Free c t]" and lf: "last_free xs = c" and jl': "join_left xs a s = (xs', c, t + s)"
      and ct: "tiles ?D c xs'" "c + t = a" "16 dvd c" "8 \<le> t"
      using last_free_split[OF _ _ tx okx, of s] True by metis
    have j: "xs1 = xs'" "a1 = c" "s1 = t + s" using jl jl' by simp_all
    have c0: "c \<noteq> 0" using tiles_le[OF ct(1)] fl by simp
    have sx': "seg m p (frees xs') c" using sx by (auto simp: xs seg_append)
    have rm: "free_list_node_remove (set_block_size m3 pv (node_block_size m3 pv + node_block_size m3 fn)) h3 pv fn
      = (m4, fl_head fl)" using m4 True unfolding absorb_if_def lt(1) by simp
    have "Free (last_free xs) t \<in> set xs" unfolding lf by (simp add: xs)
    then have sz: "ldn m3 (c + 4) = t" "t + s < 4294967296" using lt(2)[of t] lf ct as fl by auto
    have ac: "a \<noteq> c" using ct by simp
    note ab = absorb_effect[OF pv[unfolded lf] ct(3) c0 a(1,2) ac sz(1) L(2) sz(2) rm]
    have ch: "changed_only m m4 {c..<c + (t + s)}"
      by (rule changed_only_trans[OF L(4) ab(4)]) (use ct lf in \<open>auto simp: word_at0_def\<close>)
    have ok': "\<forall>b \<in> set xs' \<union> set ys. block_ok b \<and> hdr_ok m b" "\<forall>b \<in> set xs'. block_ok b" using ok by (auto simp: xs)
    have link: "frees xs' \<noteq> [] \<Longrightarrow> ldn m4 (last_free xs') = c"
      using seg_last_kept[OF sx' _ ct(1) ok'(2) _ ch] ct(2) a32 by simp
    have "fl_rep m4 fl (xs' @ [Free c (t + s)] @ ys)"
    proof (rule rep_rebuild[where m = m and A = c and B = "a + s" and Q = c and r = r and p = p and q = c])
      show "coalesced (xs' @ [Free c (t + s)] @ ys)"
        using co by (auto simp: xs coalesced_append coalesced_Cons)
      show "changed_only m m4 ({c..<a + s} \<union> word_at0 (last_free xs'))"
        by (rule changed_only_mono[OF ch]) (use ct in auto)
      show "seg m4 c (frees [Free c (t + s)]) r" using ab L c0 by simp
      show "unat (fl_head fl) = (if frees xs' = [] then c else p)" using ab(1) h3 sx' by (auto simp: xs)
    qed (use fl ct ty ok' sx' sy link used a in \<open>auto simp: xs\<close>)
    then show ?thesis using ch by (auto simp: j intro: changed_only_mono)
  qed
qed

section \<open>The whole call\<close>

text \<open>From the header to the list: the freed block becomes a node between its neighbours.\<close>

lemma link_freed:
  assumes fn: "unat fn = a" "16 dvd a" "a \<noteq> 0" "8 \<le> s" "unat sz = s" "hi < 4294967296" "0 < lo"
    and tx: "tiles lo a xs" and ty: "tiles (a + s) hi ys"
    and ok: "\<forall>b \<in> set xs \<union> set ys. block_ok b \<and> hdr_ok m b"
    and sx: "seg m (unat head) (frees xs) r" and sy: "seg m r (frees ys) 0"
  defines "m1 \<equiv> set_next (set_block_size m fn sz) fn 0"
  obtains node pv m2 h2 where
    "free_insert_loop m1 head fn head 0 = Some (if frees ys = [] then (m1, head, node, pv) else (m2, h2, node, pv))"
    "node = 0 \<longleftrightarrow> frees ys = []" "unat pv = last_free xs"
    "free_list_node_insert m1 head pv fn = (m2, h2)" "linked_at m m2 xs a s r"
    "unat h2 = (if frees xs = [] then a else unat head)"
proof -
  let ?l = "last_free xs"
  have as: "a + s < 4294967296" "a \<le> 4294967296" using tiles_le[OF ty] fn(6) by auto
  have f16: "16 dvd unat fn" using fn by simp
  have d: "4 dvd a" "4 dvd a + 4" using fn(2) by presburger+
  note ns = set_next_effect[OF f16, unfolded fn(1)] and bs = set_block_size_effect[OF f16, unfolded fn(1)]
  have ch1: "changed_only m m1 {a..<a + 8}"
    unfolding m1_def by (rule changed_only_trans[OF bs(1) ns(1)]) auto
  have sz1: "ldn m1 (a + 4) = s" unfolding m1_def using ns(2) bs(2) d as fn by simp
  have ch1': "changed_only m m1 ({a..<a + s} \<union> word_at0 ?l)" by (rule changed_only_mono[OF ch1]) (use fn(4) in auto)
  have okx: "\<forall>b \<in> set xs. block_ok b" using ok by blast
  note ln = last_free_node[OF tx okx as(2)]
  have l1: "ldn m1 ?l = r" if ne: "frees xs \<noteq> []"
  proof -
    have "ldn m1 ?l = ldn m ?l"
      by (rule ldn_changed_only[OF ch1 dvd_trans[OF _ ln(1)]]) (use ln(3)[OF ne] as in auto)
    then show ?thesis using seg_last[OF sx ne] ne by (simp add: last_free_def)
  qed
  note fr = rest_frame[OF tx ty _ _ ok ch1']
  have hr: "frees xs = [] \<Longrightarrow> r = unat head" using sx by simp
  have "seg m1 (unat head) (frees xs) r" using fr(3)[OF _ _ sx l1] hr fn(6) by (auto split: if_splits)
  moreover have "seg m1 r (frees ys) 0" using fr(2)[OF _ _ sy] fn(6) by simp
  ultimately have sg: "seg m1 (unat head) (frees xs @ frees ys) 0" by (auto simp: seg_append)
  have "\<forall>f \<in> set (frees xs). fst f < unat fn" using tiles_inside[OF tx] okx fn(1) by (force simp: frees_in_set)
  moreover have "\<forall>f \<in> set (frees ys). unat fn < fst f" using tiles_inside[OF ty] fn by (force simp: frees_in_set)
  ultimately obtain node pv where lp: "unat pv = prev_in (frees xs) 0" "node = 0 \<longleftrightarrow> frees ys = []"
    "free_insert_loop m1 head fn head 0 = Some (if frees ys = [] then (m1, head, node, pv)
       else (let (m', h') = free_list_node_insert m1 head pv fn in (m', h', node, pv)))"
    using free_insert_loop_spec[OF sg, of fn 0 head] by blast
  have upv: "unat pv = ?l" using lp(1) by (simp add: prev_in_def last_free_def)
  have pv0: "pv = 0 \<longleftrightarrow> frees xs = []" using upv ln(2) ln(4)[OF fn(7)] by (metis unat_eq_0)
  have la: "frees xs \<noteq> [] \<Longrightarrow> ?l + 8 \<le> a" using ln(3) by simp
  have ne: "fn \<noteq> pv" using upv la fn(1,3) by (cases "frees xs = []") (auto simp: last_free_def)
  obtain m2 h2 where ins: "free_list_node_insert m1 head pv fn = (m2, h2)" by (metis surj_pair)
  have p16: "16 dvd unat pv" using ln(1) upv by simp
  note ie = insert_effect[OF f16 p16 ne ins, unfolded fn(1) upv]
  have "ldn m2 (a + 4) = ldn m1 (a + 4)"
    by (rule ldn_changed_only[OF ie(4) d(2)]) (use as fn(4) la in \<open>auto simp: word_at0_def last_free_def split: if_splits\<close>)
  then have "ldn m2 (a + 4) = s" using sz1 by simp
  moreover have "ldn m2 a = r" using ie(2) pv0 hr l1 by auto
  moreover have "changed_only m m2 ({a..<a + s} \<union> word_at0 ?l)"
    by (rule changed_only_trans[OF ch1 ie(4)]) (use fn(4) in auto)
  ultimately have "linked_at m m2 xs a s r" using ie(3) pv0 by (simp add: linked_at_def)
  then show thesis using that[OF _ lp(2) upv ins] lp(3) ins ie(1) pv0 fn(1) by simp
qed

text \<open>What the header of a used block tells the code.\<close>

lemma header_of_ptr:
  assumes rep: "fl_rep m fl (xs @ Used a s pd og # ys)" and ptr: "unat ptr = a + pd + 12"
  defines "h \<equiv> ptr - sizeof_Free_List_Allocation_Header"
  shows "unat (h - header_padding m h) = a" "unat (header_block_size m h) = s" "ptr \<noteq> 0"
proof -
  note rs = rep_split[OF rep, simplified]
  have hd: "ldn m (a + pd) = og" "ldn m (a + pd + 4) = s" "ldn m (a + pd + 8) = pd" using rs(5) by auto
  have uh: "unat h = a + pd" unfolding h_def using ptr by (subst unat_sub_nowrap) (simp_all add: fl_sizes)
  have lt: "a + pd + 12 < 4294967296" using ptr unat_less_32[of ptr] by simp
  have "unat (h + 4) = a + pd + 4" "unat (h + 8) = a + pd + 8" using uh lt by (simp_all add: unat_add_nowrap)
  then have v: "unat (header_block_size m h) = s" "unat (header_padding m h) = pd"
    using hd by (simp_all add: header_block_size_def header_padding_def flip: ldn_unat)
  then show "unat (header_block_size m h) = s" "unat (h - header_padding m h) = a"
    using uh by (simp_all add: unat_sub_nowrap)
  show "ptr \<noteq> 0" using ptr by auto
qed

lemma free_list_free_rep:
  assumes rep: "fl_rep m fl (xs @ Used a s pd og # ys)" and ptr: "unat ptr = a + pd + 12"
    and jr: "join_right s ys = (s1, ys1)" and jl: "join_left xs a s1 = (xs1, a1, s2)"
  obtains m' fl' where "free_list_free m fl ptr = Some (m', fl')"
    "fl_rep m' fl' (xs1 @ [Free a1 s2] @ ys1)"
    "changed_only m m' ({a1..<a1 + s2} \<union> word_at0 (last_free xs1))"
    "fl_data fl' = fl_data fl" "fl_size fl' = fl_size fl" "fl_policy fl' = fl_policy fl"
proof -
  note rs = rep_split[OF rep, simplified]
  define h where "h = ptr - sizeof_Free_List_Allocation_Header"
  define fn where "fn = h - header_padding m h"
  note hp = header_of_ptr[OF rep ptr, folded h_def, folded fn_def]
  let ?E = "unat (fl_data fl) + unat (fl_size fl)"
  have a: "16 dvd a" "a \<noteq> 0" "8 \<le> s" using rs(4,6,10) by auto
  obtain r where sx: "seg m (unat (fl_head fl)) (frees xs) r" and sy: "seg m r (frees ys) 0"
    using rep by (auto simp: fl_rep_def seg_append)
  obtain node pv m2 h2 where lf:
    "free_insert_loop (set_next (set_block_size m fn (header_block_size m h)) fn 0) (fl_head fl) fn (fl_head fl) 0
       = Some (if frees ys = [] then (set_next (set_block_size m fn (header_block_size m h)) fn 0, fl_head fl, node, pv)
               else (m2, h2, node, pv))"
    "node = 0 \<longleftrightarrow> frees ys = []" "unat pv = last_free xs"
    "free_list_node_insert (set_next (set_block_size m fn (header_block_size m h)) fn 0) (fl_head fl) pv fn = (m2, h2)"
    "linked_at m m2 xs a s r" "unat h2 = (if frees xs = [] then a else unat (fl_head fl))"
    by (rule link_freed[OF hp(1) a hp(2) rs(7,6,1,2,3) sx sy])
  obtain m4 h4 where cl: "free_list_coalescence m2 h2 pv fn = (m4, h4)" by (metis surj_pair)
  obtain m3 h3 where m3: "absorb_if (node_next m2 fn \<noteq> 0 \<and> fn + node_block_size m2 fn = node_next m2 fn)
      m2 h2 fn (node_next m2 fn) = (m3, h3)" by (metis surj_pair)
  have m4: "absorb_if (pv \<noteq> 0 \<and> pv + node_block_size m3 pv = fn) m3 h3 pv fn = (m4, h4)"
    using cl by (simp add: free_list_coalescence_absorb m3)
  define fl' where "fl' = fl\<lparr>fl_used := fl_used fl - node_block_size m2 fn, fl_head := h4\<rparr>"
  have run: "free_list_free m fl ptr = Some (m4, fl')"
    using lf(1,2,4) hp(3) cl unfolding free_list_free_def Let_def fl'_def
    by (simp add: fn_def[symmetric] h_def[symmetric] split: if_splits)
  have okx: "\<forall>b \<in> set xs. block_ok b" "\<forall>b \<in> set ys. block_ok b" and a32: "a \<le> 4294967296"
    using rs(3,7,9) by auto
  note ln = last_free_node[OF rs(1) okx(1) a32]
  obtain r1 where R: "h3 = h2" "linked_at m m3 xs a s1 r1" "seg m r1 (frees ys1) 0" "tiles (a + s1) ?E ys1"
    using coalesce_right[OF hp(1) a rs(2,7) okx(2) sy lf(5) ln(3,1) m3] jr by auto
  have co: "coalesced xs" "coalesced ys" using rs(8) by (auto simp: coalesced_append coalesced_Cons)
  have y1: "set ys1 \<subseteq> set ys" "coalesced ys1" "ys1 = [] \<or> \<not> is_free (hd ys1)" "8 \<le> s1" "used_bytes ys1 = used_bytes ys"
    using jr co(2) a(3) by (cases ys; auto simp: join_right_def coalesced_Cons split: if_splits)+
  have "unat (fl_used fl - node_block_size m2 fn) = used_bytes xs + used_bytes ys1"
  proof -
    have "unat (node_block_size m2 fn) = s"
      using node_block_size_ldn[of fn m2] hp(1) a(1) lf(5) by (simp add: linked_at_def)
    then show ?thesis using rs(11) y1(5) by (simp add: unat_sub_nowrap)
  qed
  then have "fl_rep m4 fl' (xs1 @ [Free a1 s2] @ ys1) \<and> changed_only m m4 ({a1..<a1 + s2} \<union> word_at0 (last_free xs1))"
    using coalesce_left[of fl' fn a s1 xs ys1 m "unat (fl_head fl)" r r1 m3 pv h3 m4 xs1 a1 s2]
      rs(1,3,6,7) hp(1) a(1) y1 R co(1) sx lf(3,6) m4 jl by (auto simp: fl'_def)
  then show thesis using that[OF run] by (simp add: fl'_def)
qed

end
