(* ===== verification/Heap.thy ===== *)
theory Heap
  imports FreeListFree
begin

text \<open>
  The contract between the free-list allocator and its clients: which blocks are in use, where
  a client may write, and what each call keeps.  The locale states it, the free list of
  \<^verbatim>\<open>allocators.c\<close> interprets it, and the theorems about the allocator follow.
\<close>

section \<open>Used blocks and free bytes\<close>

definition useds :: "layout \<Rightarrow> block set" where
  "useds bs = {b \<in> set bs. \<not> is_free b}"

definition free_bytes :: "layout \<Rightarrow> nat set" where
  "free_bytes bs = (\<Union>b \<in> {b \<in> set bs. is_free b}. {b_addr b..<b_end b})"

text \<open>The bytes the owner of a block may use.\<close>

definition payload :: "block \<Rightarrow> nat set" where
  "payload b = {b_ptr b..<b_ptr b + b_orig b}"

lemma useds_simps [simp]:
  "useds [] = {}" "useds (b # bs) = (if is_free b then useds bs else insert b (useds bs))"
  "useds (xs @ ys) = useds xs \<union> useds ys"
  by (auto simp: useds_def)

lemma used_cases:
  assumes "b \<in> useds bs"
  obtains a s pd og xs ys where "b = Used a s pd og" "bs = xs @ Used a s pd og # ys"
proof -
  have "b \<in> set bs" "\<not> is_free b" using assms by (auto simp: useds_def)
  then obtain xs ys where "bs = xs @ b # ys" by (meson split_list)
  with \<open>\<not> is_free b\<close> show thesis using that by (cases b) auto
qed

lemma payload_in_block: "block_ok b \<Longrightarrow> \<not> is_free b \<Longrightarrow> payload b \<subseteq> {b_addr b..<b_end b}"
  by (cases b) (auto simp: payload_def b_ptr_def)

lemma block_disjoint:
  assumes "layout_ok lo hi bs" "b \<in> set bs" "c \<in> set bs" "b \<noteq> c"
  shows "{b_addr b..<b_end b} \<inter> {b_addr c..<b_end c} = {}"
  using tiles_disjoint[of lo hi bs b c] assms by (auto simp: layout_ok_def)

lemma payload_disjoint:
  assumes "layout_ok lo hi bs" "b \<in> useds bs" "c \<in> useds bs" "b \<noteq> c"
  shows "payload b \<inter> payload c = {}"
proof -
  have "b \<in> set bs" "c \<in> set bs" "\<not> is_free b" "\<not> is_free c" using assms by (auto simp: useds_def)
  moreover have "block_ok b" "block_ok c" using assms(1) calculation by (auto simp: layout_ok_def)
  ultimately show ?thesis
    using block_disjoint[OF assms(1) _ _ assms(4)] payload_in_block[of b] payload_in_block[of c] by blast
qed

lemma used_free_disjoint:
  assumes "layout_ok lo hi bs" "b \<in> useds bs"
  shows "{b_addr b..<b_end b} \<inter> free_bytes bs = {}"
  using assms block_disjoint[OF assms(1)] by (fastforce simp: free_bytes_def useds_def)

text \<open>A block cut out of free bytes is a new one.\<close>

lemma carved_fresh:
  assumes "layout_ok lo hi bs" "layout_ok lo' hi' bs'" "b \<in> useds bs'" "{b_addr b..<b_end b} \<subseteq> free_bytes bs"
  shows "b \<notin> useds bs"
proof
  assume "b \<in> useds bs"
  then have "{b_addr b..<b_end b} = {}" using used_free_disjoint[OF assms(1)] assms(4) by blast
  moreover have "8 \<le> b_size b" using assms(2,3) by (auto simp: useds_def layout_ok_def intro: block_ok_size)
  ultimately show False by simp
qed

text \<open>A pointer identifies its block.\<close>

lemma b_ptr_inj:
  assumes "layout_ok lo hi bs" "b \<in> useds bs" "c \<in> useds bs" "b_ptr b = b_ptr c"
  shows "b = c"
proof (rule ccontr)
  assume "b \<noteq> c"
  moreover have m: "b \<in> set bs" "c \<in> set bs" "\<not> is_free b" "\<not> is_free c" using assms by (auto simp: useds_def)
  moreover have "block_ok b" "block_ok c" using assms(1) m by (auto simp: layout_ok_def)
  ultimately show False
    using tiles_disjoint[of lo hi bs b c] assms(1,4) by (cases b; cases c) (auto simp: layout_ok_def b_ptr_def)
qed

section \<open>The effect of freeing on a layout\<close>

lemma release_other: "\<forall>b \<in> useds bs. b_ptr b \<noteq> p \<Longrightarrow> map (release p) bs = bs"
proof (induction bs)
  case (Cons b bs)
  then show ?case by (cases b) auto
qed simp

lemma lay_free_split:
  assumes "layout_ok lo hi (xs @ Used a s pd og # ys)"
  shows "lay_free (a + pd + 12) (xs @ Used a s pd og # ys) = merge_free (xs @ Free a s # ys)"
proof -
  have dist: "tiles lo hi (xs @ Used a s pd og # ys)" using assms by (simp add: layout_ok_def)
  have "Used a s pd og \<notin> set xs \<union> set ys"
  proof -
    have "8 \<le> s" using assms block_ok_size[of "Used a s pd og"] by (auto simp: layout_ok_def)
    then show ?thesis using tiles_split(3,4)[OF dist, of "Used a s pd og"] by auto
  qed
  then have "b_ptr b \<noteq> a + pd + 12" if "b \<in> useds xs \<union> useds ys" for b
    using b_ptr_inj[OF assms, of b "Used a s pd og"] that by (auto simp: b_ptr_def useds_def)
  then show ?thesis
    using release_other[of xs "a + pd + 12"] release_other[of ys "a + pd + 12"]
    by (simp add: lay_free_def b_ptr_def)
qed

lemma lay_free_joined:
  assumes "layout_ok lo hi (xs @ Used a s pd og # ys)"
    and "join_right s ys = (s1, ys1)" "join_left xs a s1 = (xs1, a1, s2)"
  shows "lay_free (a + pd + 12) (xs @ Used a s pd og # ys) = xs1 @ [Free a1 s2] @ ys1"
proof -
  have "coalesced xs" "coalesced ys" using assms(1) by (auto simp: layout_ok_def coalesced_append coalesced_Cons)
  then show ?thesis using merge_free_around[of xs ys a s] assms by (simp add: lay_free_split)
qed

lemma useds_merge_free [simp]: "useds (merge_free bs) = useds bs"
  by (induction bs rule: merge_free.induct) auto

lemma useds_lay_free: "useds (lay_free p bs) = {b \<in> useds bs. b_ptr b \<noteq> p}"
proof -
  have "useds (map (release p) bs) = {b \<in> useds bs. b_ptr b \<noteq> p}"
  proof (induction bs)
    case (Cons b bs)
    then show ?case by (cases b) auto
  qed simp
  then show ?thesis by (simp add: lay_free_def)
qed

lemma useds_carve:
  obtains s' where "useds (xs @ carve a s sz pd og @ ys) = insert (Used a s' (pd - 12) og) (useds xs \<union> useds ys)"
  by (rule that[of "if 16 \<le> s - (sz + pd) then sz + pd else s"]) (auto simp: carve_def)

text \<open>A layout without used blocks is one free block.\<close>

lemma all_free_single:
  assumes "layout_ok lo hi bs" "useds bs = {}" "lo < hi"
  shows "bs = [Free lo (hi - lo)]"
proof -
  have fr: "\<forall>b \<in> set bs. is_free b" using assms(2) by (auto simp: useds_def)
  have t: "tiles lo hi bs" "coalesced bs" using assms(1) by (auto simp: layout_ok_def)
  then obtain b bs' where bs: "bs = b # bs'" using assms(3) by (cases bs) auto
  then have "bs' = []" using t(2) fr by (cases bs') auto
  then show ?thesis using bs t(1) fr by (cases b) auto
qed

section \<open>The contract\<close>

text \<open>
  A null pointer is a refusal, because no free block fits, and changes nothing.  Any other result is a new used block of the
  requested size at an address of the requested alignment; the call writes to free bytes only.
  Freeing a pointer of a used block removes that block, again without touching bytes in use; and
  clients may write to their payloads at any time.
\<close>

locale heap_allocator =
  fixes rep :: "mem \<Rightarrow> 'h \<Rightarrow> layout \<Rightarrow> bool"
    and alloc :: "mem \<Rightarrow> 'h \<Rightarrow> u32 \<Rightarrow> u32 \<Rightarrow> (mem \<times> 'h \<times> addr) option"
    and free :: "mem \<Rightarrow> 'h \<Rightarrow> addr \<Rightarrow> (mem \<times> 'h) option"
    and region :: "'h \<Rightarrow> nat \<times> nat"
  assumes rep_layout: "rep m h bs \<Longrightarrow>
      layout_ok (fst (region h)) (snd (region h)) bs \<and> 0 < fst (region h) \<and> snd (region h) < 4294967296"
    and alloc_law: "rep m h bs \<Longrightarrow> alloc_request sz al \<Longrightarrow>
      \<exists>m' h' p. alloc m h sz al = Some (m', h', p) \<and> region h' = region h
        \<and> (p = 0 \<and> m' = m \<and> h' = h \<and> (\<forall>b \<in> set bs. \<not> fits (eff_size sz al) (eff_align al) b)
           \<or> p \<noteq> 0 \<and> eff_align al dvd unat p \<and> changed_only m m' (free_bytes bs)
             \<and> (\<exists>bs' b. rep m' h' bs' \<and> useds bs' = insert b (useds bs) \<and> b_ptr b = unat p
                  \<and> b_orig b = unat sz \<and> \<not> is_free b \<and> {b_addr b..<b_end b} \<subseteq> free_bytes bs))"
    and free_law: "rep m h bs \<Longrightarrow> b \<in> useds bs \<Longrightarrow> unat p = b_ptr b \<Longrightarrow>
      \<exists>m' h' bs'. free m h p = Some (m', h') \<and> region h' = region h \<and> rep m' h' bs'
        \<and> useds bs' = useds bs - {b} \<and> changed_only m m' (free_bytes bs')"
    and client_write: "rep m h bs \<Longrightarrow> b \<in> useds bs \<Longrightarrow> changed_only m m' (payload b) \<Longrightarrow> rep m' h bs"
begin

text \<open>Neither call touches a byte of a block that stays in use.\<close>

lemma bytes_kept:
  assumes "rep m0 h bs" "b \<in> useds bs" "changed_only m m' (free_bytes bs)" "unat x \<in> payload b"
  shows "m' x = m x"
proof -
  have l: "layout_ok (fst (region h)) (snd (region h)) bs" using rep_layout[OF assms(1)] by blast
  have b: "b \<in> set bs" "\<not> is_free b" "block_ok b" using assms(2) l by (auto simp: useds_def layout_ok_def)
  have "unat x \<notin> free_bytes bs"
    using used_free_disjoint[OF l assms(2)] payload_in_block[OF b(3,2)] assms(4) by blast
  then show ?thesis using assms(3) by (simp add: changed_only_def)
qed

text \<open>Somebody else, such as a device, may write to many payloads at once.\<close>

lemma client_writes:
  assumes "finite B" "rep m h bs" "B \<subseteq> useds bs" "changed_only m m' (\<Union> (payload ` B))"
  shows "rep m' h bs"
  using assms
proof (induction B arbitrary: m rule: finite_induct)
  case empty
  then have "m' = m" by (simp add: changed_only_def fun_eq_iff)
  then show ?case using empty by simp
next
  case (insert b B)
  define m1 where "m1 = (\<lambda>x. if unat x \<in> payload b then m' x else m x)"
  have "changed_only m m1 (payload b)" by (simp add: changed_only_def m1_def)
  then have r: "rep m1 h bs" using insert.prems(1,2) client_write[of m h bs b m1] by blast
  have "changed_only m1 m' (\<Union> (payload ` B))" using insert.prems(3) by (simp add: changed_only_def m1_def)
  then show ?case using insert.IH[OF r] insert.prems(2) by blast
qed

text \<open>A payload lies inside the region, so its addresses do not wrap.\<close>

lemma payload_bounds:
  assumes "rep m h bs" "b \<in> useds bs"
  shows "0 < b_ptr b" "b_ptr b + b_orig b < 4294967296"
proof -
  have l: "layout_ok (fst (region h)) (snd (region h)) bs" "snd (region h) < 4294967296"
    using rep_layout[OF assms(1)] by auto
  have b: "b \<in> set bs" "\<not> is_free b" "block_ok b" using assms(2) l by (auto simp: useds_def layout_ok_def)
  show "0 < b_ptr b" by (simp add: b_ptr_def)
  have "b_end b \<le> snd (region h)" using tiles_inside[of _ _ bs b] l b by (auto simp: layout_ok_def)
  then show "b_ptr b + b_orig b < 4294967296" using b l(2) by (cases b) (auto simp: b_ptr_def)
qed

end

section \<open>The free list keeps the contract\<close>

definition fl_region :: "Free_List \<Rightarrow> nat \<times> nat" where
  "fl_region fl = (unat (fl_data fl), unat (fl_data fl) + unat (fl_size fl))"

lemma fl_rep_layout:
  "fl_rep m fl bs \<Longrightarrow> layout_ok (fst (fl_region fl)) (snd (fl_region fl)) bs
     \<and> 0 < fst (fl_region fl) \<and> snd (fl_region fl) < 4294967296"
  by (simp add: fl_rep_def fl_region_def)

lemma last_free_bytes:
  assumes "\<forall>b \<in> set xs. block_ok b"
  shows "word_at0 (last_free xs) \<subseteq> free_bytes xs"
proof (cases "frees xs = []")
  case False
  then obtain t where t: "Free (last_free xs) t \<in> set xs" by (rule last_free_in)
  then have "8 \<le> t" using assms by force
  then have "word_at0 (last_free xs) \<subseteq> {b_addr (Free (last_free xs) t)..<b_end (Free (last_free xs) t)}"
    by (auto simp: word_at0_def)
  then show ?thesis using t unfolding free_bytes_def by force
qed (simp add: word_at0_def last_free_def)

lemma free_bytes_append [simp]: "free_bytes (xs @ ys) = free_bytes xs \<union> free_bytes ys"
  by (auto simp: free_bytes_def)

lemma free_bytes_Cons [simp]:
  "free_bytes (b # bs) = (if is_free b then {b_addr b..<b_end b} \<union> free_bytes bs else free_bytes bs)"
  by (auto simp: free_bytes_def)

text \<open>Allocation in the words of the contract.\<close>

lemma free_list_alloc_contract:
  assumes rep: "fl_rep m fl bs" and req: "alloc_request sz al"
  shows "\<exists>m' fl' p. free_list_alloc m fl sz al = Some (m', fl', p) \<and> fl_region fl' = fl_region fl
    \<and> (p = 0 \<and> m' = m \<and> fl' = fl \<and> (\<forall>b \<in> set bs. \<not> fits (eff_size sz al) (eff_align al) b)
       \<or> p \<noteq> 0 \<and> eff_align al dvd unat p \<and> changed_only m m' (free_bytes bs)
         \<and> (\<exists>bs' b. fl_rep m' fl' bs' \<and> useds bs' = insert b (useds bs) \<and> b_ptr b = unat p
              \<and> b_orig b = unat sz \<and> \<not> is_free b \<and> {b_addr b..<b_end b} \<subseteq> free_bytes bs))"
proof -
  let ?S = "eff_size sz al" and ?A = "eff_align al"
  obtain m' fl' p where run: "free_list_alloc m fl sz al = Some (m', fl', p)"
    and c: "p = 0 \<and> m' = m \<and> fl' = fl \<and> (\<forall>b \<in> set bs. \<not> fits ?S ?A b) \<or> (\<exists>xs a s ys. bs = xs @ Free a s # ys \<and> fits ?S ?A (Free a s)
          \<and> fl_rep m' fl' (xs @ carve a s ?S (pad_of a ?A 12) (unat sz) @ ys)
          \<and> p \<noteq> 0 \<and> unat p = a + pad_of a ?A 12
          \<and> changed_only m m' ({a..<a + s} \<union> word_at0 (last_free xs))
          \<and> fl_data fl' = fl_data fl \<and> fl_size fl' = fl_size fl)"
    using free_list_alloc_rep[OF rep req] by blast
  show ?thesis
  proof (cases "p = 0")
    case True
    then show ?thesis using run c by auto
  next
    case False
    then obtain xs a s ys where bs: "bs = xs @ Free a s # ys" and fit: "fits ?S ?A (Free a s)"
      and r': "fl_rep m' fl' (xs @ carve a s ?S (pad_of a ?A 12) (unat sz) @ ys)"
      and p: "p \<noteq> 0" "unat p = a + pad_of a ?A 12"
      and ch: "changed_only m m' ({a..<a + s} \<union> word_at0 (last_free xs))"
      and fl: "fl_data fl' = fl_data fl" "fl_size fl' = fl_size fl" using c by blast
    have A: "0 < ?A" by (simp add: eff_align_def)
    note pp = pad_of_props[OF A, where p = a and h = 12]
    have okx: "\<forall>b \<in> set xs. block_ok b" using rep_split(3)[OF rep[unfolded bs]] by blast
    let ?lay = "xs @ carve a s ?S (pad_of a ?A 12) (unat sz) @ ys"
    define b where "b = Used a (if 16 \<le> s - (?S + pad_of a ?A 12) then ?S + pad_of a ?A 12 else s)
      (pad_of a ?A 12 - 12) (unat sz)"
    have "useds ?lay = insert b (useds bs)" by (auto simp: b_def carve_def bs)
    moreover have "b_ptr b = unat p" "b_orig b = unat sz" "\<not> is_free b"
      using p pp by (simp_all add: b_def b_ptr_def)
    moreover have "{b_addr b..<b_end b} \<subseteq> free_bytes bs"
      using fit by (auto simp: b_def bs fits_def)
    moreover have "changed_only m m' (free_bytes bs)"
      by (rule changed_only_mono[OF ch]) (use last_free_bytes[OF okx] in \<open>auto simp: bs\<close>)
    moreover have "?A dvd unat p" using p pp by simp
    moreover have "fl_region fl' = fl_region fl" using fl by (simp add: fl_region_def)
    ultimately show ?thesis using run p(1) r' by blast
  qed
qed

text \<open>Freeing, in the words of the layout and of the contract.\<close>

lemma free_list_free_lay:
  assumes rep: "fl_rep m fl bs" and b: "b \<in> useds bs" and p: "unat p = b_ptr b"
  shows "\<exists>m' fl'. free_list_free m fl p = Some (m', fl') \<and> fl_rep m' fl' (lay_free (unat p) bs)
    \<and> changed_only m m' (free_bytes (lay_free (unat p) bs))
    \<and> fl_region fl' = fl_region fl \<and> fl_policy fl' = fl_policy fl"
proof -
  obtain a s pd og xs ys where u: "b = Used a s pd og" and bs: "bs = xs @ Used a s pd og # ys"
    by (rule used_cases[OF b])
  obtain s1 ys1 where jr: "join_right s ys = (s1, ys1)" by (metis surj_pair)
  obtain xs1 a1 s2 where jl: "join_left xs a s1 = (xs1, a1, s2)" by (metis prod_cases3)
  have ptr: "unat p = a + pd + 12" using p u by (simp add: b_ptr_def)
  have "layout_ok (fst (fl_region fl)) (snd (fl_region fl)) bs" using fl_rep_layout[OF rep] by blast
  then have lay: "lay_free (unat p) bs = xs1 @ [Free a1 s2] @ ys1"
    unfolding ptr bs by (rule lay_free_joined[OF _ jr jl])
  obtain m' fl' where F: "free_list_free m fl p = Some (m', fl')" "fl_rep m' fl' (xs1 @ [Free a1 s2] @ ys1)"
    "changed_only m m' ({a1..<a1 + s2} \<union> word_at0 (last_free xs1))"
    "fl_data fl' = fl_data fl" "fl_size fl' = fl_size fl" "fl_policy fl' = fl_policy fl"
    by (rule free_list_free_rep[OF rep[unfolded bs] ptr jr jl])
  have "\<forall>b \<in> set xs1. block_ok b" using F(2) by (simp add: fl_rep_def layout_ok_def)
  then have "{a1..<a1 + s2} \<union> word_at0 (last_free xs1) \<subseteq> free_bytes (xs1 @ [Free a1 s2] @ ys1)"
    using last_free_bytes[of xs1] by auto
  then have "changed_only m m' (free_bytes (xs1 @ [Free a1 s2] @ ys1))" by (rule changed_only_mono[OF F(3)])
  then show ?thesis using F lay by (simp add: fl_region_def)
qed

lemma fl_rep_client_write:
  assumes rep: "fl_rep m fl bs" and b: "b \<in> useds bs" and ch: "changed_only m m' (payload b)"
  shows "fl_rep m' fl bs"
proof -
  have l: "layout_ok (fst (fl_region fl)) (snd (fl_region fl)) bs" and hi: "snd (fl_region fl) < 4294967296"
    using fl_rep_layout[OF rep] by auto
  have bb: "b \<in> set bs" "\<not> is_free b" "block_ok b" using b l by (auto simp: useds_def layout_ok_def)
  have ch': "changed_only m m' {b_addr b..<b_end b}"
    by (rule changed_only_mono[OF ch payload_in_block[OF bb(3,2)]])
  have ok: "block_ok c \<and> hdr_ok m c \<and> b_end c \<le> 4294967296" if c: "c \<in> set bs" for c
    using c rep l hi tiles_inside[of _ _ bs c] by (fastforce simp: fl_rep_def layout_ok_def)
  have "hdr_ok m' c" if c: "c \<in> set bs" for c
  proof (cases "c = b")
    case False
    then show ?thesis using hdr_frame[OF _ _ _ ch'] ok[OF c] block_disjoint[OF l c bb(1)] by blast
  next
    case True
    obtain a s pd og where u: "b = Used a s pd og" using bb(2) by (cases b) auto
    have "ldn m' (a + pd + k) = ldn m (a + pd + k)" if k: "k \<in> {0, 4, 8}" for k
    proof (rule ldn_changed_only[OF ch])
      have d: "16 dvd a + pd + 12" and le: "a + pd + 12 \<le> 4294967296" using ok[OF bb(1)] u by auto
      show "4 dvd a + pd + k" using d k by (auto; presburger)
      show "a + pd + k < 4294967296" using le k by auto
      show "word_at (a + pd + k) \<inter> payload b = {}" using k u by (auto simp: payload_def b_ptr_def)
    qed
    from this[of 0] this[of 4] this[of 8] show ?thesis using ok[OF bb(1)] u True by simp
  qed
  moreover have "seg m' (unat (fl_head fl)) (frees bs) 0"
  proof -
    have "seg m' (unat (fl_head fl)) (frees bs) 0 = seg m (unat (fl_head fl)) (frees bs) 0"
    proof (rule seg_cong)
      fix a s assume "(a, s) \<in> set (frees bs)"
      then have f: "Free a s \<in> set bs" by (simp add: frees_in_set)
      have s: "16 dvd a" "8 \<le> s" "a + s \<le> 4294967296" using ok[OF f] by auto
      have "Free a s \<noteq> b" using bb(2) by auto
      then have "{a..<a + s} \<inter> {b_addr b..<b_end b} = {}" using block_disjoint[OF l f bb(1)] by simp
      moreover have "word_at a \<subseteq> {a..<a + s}" "word_at (a + 4) \<subseteq> {a..<a + s}" using s(2) by auto
      ultimately show "ldn m' a = ldn m a \<and> ldn m' (a + 4) = ldn m (a + 4)"
        using node_frame[OF s ch'] by blast
    qed
    then show ?thesis using rep by (simp add: fl_rep_def)
  qed
  ultimately show ?thesis using rep by (simp add: fl_rep_def)
qed

interpretation flh: heap_allocator fl_rep free_list_alloc free_list_free fl_region
proof unfold_locales
  fix m fl bs b and p :: addr assume rep: "fl_rep m fl bs" and b: "b \<in> useds bs" and p: "unat p = b_ptr b"
  have l: "layout_ok (fst (fl_region fl)) (snd (fl_region fl)) bs" using fl_rep_layout[OF rep] by blast
  have "useds (lay_free (unat p) bs) = useds bs - {b}"
    unfolding useds_lay_free using b_ptr_inj[OF l _ b] b p by auto
  then show "\<exists>m' h' bs'. free_list_free m fl p = Some (m', h') \<and> fl_region h' = fl_region fl \<and> fl_rep m' h' bs'
      \<and> useds bs' = useds bs - {b} \<and> changed_only m m' (free_bytes bs')"
    using free_list_free_lay[OF rep b p] by blast
qed (rule fl_rep_layout free_list_alloc_contract fl_rep_client_write; assumption)+

section \<open>Initialisation\<close>

lemma free_list_free_all_rep:
  assumes "16 dvd unat (fl_data fl)" "0 < unat (fl_data fl)" "8 \<le> unat (fl_size fl)"
    "unat (fl_data fl) + unat (fl_size fl) < 4294967296" "free_list_free_all m fl = (m', fl')"
  shows "fl_rep m' fl' [Free (unat (fl_data fl)) (unat (fl_size fl))]"
    "fl_region fl' = fl_region fl" "fl_policy fl' = fl_policy fl"
    "changed_only m m' {unat (fl_data fl)..<unat (fl_data fl) + 8}"
proof -
  let ?d = "fl_data fl"
  have m': "m' = set_next (set_block_size m ?d (fl_size fl)) ?d 0" and fl': "fl' = fl\<lparr>fl_used := 0, fl_head := ?d\<rparr>"
    using assms(5) by (auto simp: free_list_free_all_def Let_def)
  note ns = set_next_effect[OF assms(1)] and bs = set_block_size_effect[OF assms(1)]
  have d: "4 dvd unat ?d" "4 dvd unat ?d + 4" using assms(1) by presburger+
  have "ldn m' (unat ?d) = 0" "ldn m' (unat ?d + 4) = unat (fl_size fl)"
    using ns(2) bs(2) d assms(3,4) by (simp_all add: m')
  then show "fl_rep m' fl' [Free (unat ?d) (unat (fl_size fl))]"
    using assms by (simp add: fl_rep_def fl' layout_ok_def)
  show "fl_region fl' = fl_region fl" "fl_policy fl' = fl_policy fl" by (simp_all add: fl' fl_region_def)
  show "changed_only m m' {unat ?d..<unat ?d + 8}"
    unfolding m' by (rule changed_only_trans[OF bs(1) ns(1)]) auto
qed

text \<open>The bytes of padding in front of a region that starts at \<open>d\<close>.\<close>

lemma free_list_init_rep:
  assumes "8 \<le> unat d" "unat d + unat sz < 4294967296" "round_up (unat d) 16 + 8 \<le> unat d + unat sz"
  shows "\<exists>m' fl'. free_list_init m fl d sz = Some (m', fl')
    \<and> fl_region fl' = (round_up (unat d) 16, unat d + unat sz) \<and> fl_policy fl' = fl_policy fl
    \<and> fl_rep m' fl' [Free (round_up (unat d) 16) (unat d + unat sz - round_up (unat d) 16)]"
proof -
  have p2: "is_power_of_two (16 :: u32)" by (simp add: is_power_of_two_def)
  obtain st where st: "align_forward_uintptr d sizeof_max_align_t = Some st" "unat st = round_up (unat d) 16"
    using align_forward_size_eq[OF p2, of d] assms by (auto simp: align_forward_uintptr_eq_size fl_sizes)
  have ge: "unat d \<le> round_up (unat d) 16" using round_up_bounds[of 16 "unat d"] by simp
  then have uad: "unat (st - d) = round_up (unat d) 16 - unat d" using st(2) by (simp add: unat_sub_nowrap)
  have usz: "unat (sz - (st - d)) = unat d + unat sz - round_up (unat d) 16"
    using uad assms(3) ge by (simp add: unat_sub_nowrap)
  have "st - d < sz + sizeof_Free_List_Node"
  proof -
    have "unat (sz + sizeof_Free_List_Node) = unat sz + 8"
      using assms(1,2) by (simp add: fl_sizes unat_add_nowrap)
    then show ?thesis using uad assms(3) by (simp add: word_less_nat_alt)
  qed
  then have run: "free_list_init m fl d sz = Some (free_list_free_all m (fl\<lparr>fl_data := st, fl_size := sz - (st - d)\<rparr>))"
    by (simp add: free_list_init_def st(1) Let_def)
  obtain m' fl' where fa: "free_list_free_all m (fl\<lparr>fl_data := st, fl_size := sz - (st - d)\<rparr>) = (m', fl')"
    by (metis surj_pair)
  have pre: "16 dvd unat st" "0 < unat st" "8 \<le> unat (sz - (st - d))" "unat st + unat (sz - (st - d)) < 4294967296"
    "unat st + unat (sz - (st - d)) = unat d + unat sz"
    using st(2) usz assms ge by simp_all
  then have "fl_rep m' fl' [Free (unat st) (unat (sz - (st - d)))]" "fl_policy fl' = fl_policy fl"
    "fl_region fl' = (unat st, unat st + unat (sz - (st - d)))"
    using free_list_free_all_rep[OF _ _ _ _ fa] by (simp_all add: fl_region_def)
  then show ?thesis using run fa pre(5) st(2) usz by simp
qed

text \<open>A heap without used blocks is a single node.\<close>

lemma heap_empty_single:
  assumes "fl_rep m fl bs" "useds bs = {}" "0 < unat (fl_size fl)"
  shows "fl_head fl = fl_data fl \<and> node_next m (fl_head fl) = 0
    \<and> node_block_size m (fl_head fl) = fl_size fl \<and> fl_used fl = 0"
proof -
  let ?d = "unat (fl_data fl)" and ?s = "unat (fl_size fl)"
  have "bs = [Free ?d ?s]"
    using all_free_single[of ?d "?d + ?s" bs] assms by (simp add: fl_rep_def)
  then have r: "fl_rep m fl [Free ?d ?s]" using assms(1) by simp
  then have hd: "fl_head fl = fl_data fl" by (simp add: fl_rep_def u32_eq_iff)
  have "16 dvd ?d" using rep_split(4)[of m fl "[]" "Free ?d ?s" "[]"] r by simp
  then have "unat (node_block_size m (fl_data fl)) = ldn m (?d + 4)" by (rule node_block_size_ldn)
  then show ?thesis
    using r unfolding hd by (simp add: fl_rep_def u32_eq_iff node_next_ldn)
qed

end
