(* ===== verification/HeapProps.thy ===== *)
theory HeapProps
  imports Heap
begin

text \<open>
  The theorems about the free-list allocator: both placement policies, safety of the memory
  handed out, freeing, the round trip of the two, perfect coalescence, initialisation, and the
  request sizes on which the word arithmetic wraps.
\<close>

section \<open>A small heap for examples\<close>

definition small_fl :: "Placement_Policy \<Rightarrow> Free_List" where
  "small_fl pol = \<lparr>fl_data = 0x1000, fl_size = 0x1000, fl_used = 0, fl_head = 0, fl_policy = pol\<rparr>"

definition small_heap :: "Placement_Policy \<Rightarrow> mem \<times> Free_List" where
  "small_heap pol = free_list_free_all (\<lambda>_. 0) (small_fl pol)"

lemma small_heap_rep:
  "fl_rep (fst (small_heap pol)) (snd (small_heap pol)) [Free 4096 4096]"
  "fl_policy (snd (small_heap pol)) = pol" "fl_region (snd (small_heap pol)) = (4096, 8192)"
  using free_list_free_all_rep[of "small_fl pol" "\<lambda>_. 0" "fst (small_heap pol)" "snd (small_heap pol)"]
  by (simp_all add: small_heap_def small_fl_def fl_region_def)

lemma pad_of_4096 [simp]: "pad_of 4096 64 12 = 64"
  by (simp add: pad_of_def round_up_def)

lemma eff_100_64 [simp]: "eff_size 100 64 = 128" "eff_align 64 = 64" "alloc_request 100 64"
  by (simp_all add: eff_size_def eff_align_def round_up_def alloc_request_def is_power_of_two_def)

lemma small_alloc:
  obtains m' fl' p where
    "free_list_alloc (fst (small_heap pol)) (snd (small_heap pol)) 100 64 = Some (m', fl', p)"
    "p \<noteq> 0" "unat p = 4160" "fl_rep m' fl' [Used 4096 192 52 100, Free 4288 3904]"
proof -
  have sp: "[Free 4096 4096] = xs @ Free a s # ys \<longleftrightarrow> xs = [] \<and> a = 4096 \<and> s = 4096 \<and> ys = []" for xs a s ys
    by (cases xs) auto
  show thesis
    using free_list_alloc_rep[OF small_heap_rep(1)[of pol] eff_100_64(3)] that
    unfolding sp by (auto simp: fits_def carve_def)
qed

section \<open>Allocation\<close>

text \<open>C9. With the first-fit policy \<^verbatim>\<open>free_list_alloc\<close> refines the allocation of the specification: it
  returns null and changes nothing exactly when no free block of the layout is large enough, and
  otherwise returns the pointer into the lowest one that is, splitting it as the specification does.\<close>

theorem free_list_alloc_first_fit:
  assumes "fl_rep m fl bs" "alloc_request sz al" "fl_policy fl = Placement_Policy_Find_First"
  shows "\<exists>m' fl' p. free_list_alloc m fl sz al = Some (m', fl', p) \<and>
    (case lay_alloc_first (eff_size sz al) (eff_align al) (unat sz) bs of
       None \<Rightarrow> p = 0 \<and> m' = m \<and> fl' = fl
     | Some (bs', q) \<Rightarrow> p \<noteq> 0 \<and> unat p = q \<and> fl_rep m' fl' bs')"
proof -
  let ?S = "eff_size sz al" and ?A = "eff_align al"
  obtain m' fl' p where run: "free_list_alloc m fl sz al = Some (m', fl', p)"
    and c: "p = 0 \<and> m' = m \<and> fl' = fl \<and> (\<forall>b \<in> set bs. \<not> fits ?S ?A b)
     \<or> (\<exists>xs a s ys. bs = xs @ Free a s # ys \<and> fits ?S ?A (Free a s)
          \<and> chosen (fl_policy fl) ?S ?A xs (Free a s) ys
          \<and> fl_rep m' fl' (xs @ carve a s ?S (pad_of a ?A 12) (unat sz) @ ys)
          \<and> p \<noteq> 0 \<and> unat p = a + pad_of a ?A 12)"
    using free_list_alloc_rep[OF assms(1,2)] by blast
  from c show ?thesis
  proof
    assume "p = 0 \<and> m' = m \<and> fl' = fl \<and> (\<forall>b \<in> set bs. \<not> fits ?S ?A b)"
    then show ?thesis using run lay_alloc_first_None[of ?S ?A "unat sz" bs] by simp
  next
    assume "\<exists>xs a s ys. bs = xs @ Free a s # ys \<and> fits ?S ?A (Free a s)
          \<and> chosen (fl_policy fl) ?S ?A xs (Free a s) ys
          \<and> fl_rep m' fl' (xs @ carve a s ?S (pad_of a ?A 12) (unat sz) @ ys)
          \<and> p \<noteq> 0 \<and> unat p = a + pad_of a ?A 12"
    then show ?thesis using run assms(3) lay_alloc_first_split[of _ ?S ?A] by fastforce
  qed
qed

theorem free_list_alloc_first_fit_witness:
  "\<exists>m' fl' p. free_list_alloc (fst (small_heap Placement_Policy_Find_First))
      (snd (small_heap Placement_Policy_Find_First)) 100 64 = Some (m', fl', p)
    \<and> unat p = 4160 \<and> fl_rep m' fl' [Used 4096 192 52 100, Free 4288 3904]"
  using free_list_alloc_first_fit[OF small_heap_rep(1) eff_100_64(3) small_heap_rep(2)]
  by (simp add: fits_def carve_def) blast

text \<open>C28. With the best-fit policy \<^verbatim>\<open>free_list_alloc\<close> takes a free block of least slack: no free block
  of the layout that is large enough leaves fewer bytes over.  It returns null only when no block
  is large enough.\<close>

theorem free_list_alloc_best_fit:
  assumes "fl_rep m fl bs" "alloc_request sz al" "fl_policy fl = Placement_Policy_Find_Best"
  shows "\<exists>m' fl' p. free_list_alloc m fl sz al = Some (m', fl', p) \<and>
    (p = 0 \<and> m' = m \<and> fl' = fl \<and> (\<forall>b \<in> set bs. \<not> fits (eff_size sz al) (eff_align al) b)
     \<or> (\<exists>xs a s ys. bs = xs @ Free a s # ys \<and> fits (eff_size sz al) (eff_align al) (Free a s)
          \<and> (\<forall>c \<in> set bs. fits (eff_size sz al) (eff_align al) c \<longrightarrow>
               b_slack (eff_size sz al) (eff_align al) (Free a s) \<le> b_slack (eff_size sz al) (eff_align al) c)
          \<and> p \<noteq> 0 \<and> unat p = a + pad_of a (eff_align al) 12
          \<and> fl_rep m' fl' (xs @ carve a s (eff_size sz al) (pad_of a (eff_align al) 12) (unat sz) @ ys)))"
proof -
  obtain m' fl' p where run: "free_list_alloc m fl sz al = Some (m', fl', p)"
    and c: "p = 0 \<and> m' = m \<and> fl' = fl \<and> (\<forall>b \<in> set bs. \<not> fits (eff_size sz al) (eff_align al) b)
     \<or> (\<exists>xs a s ys. bs = xs @ Free a s # ys \<and> fits (eff_size sz al) (eff_align al) (Free a s)
          \<and> chosen Placement_Policy_Find_Best (eff_size sz al) (eff_align al) xs (Free a s) ys
          \<and> fl_rep m' fl' (xs @ carve a s (eff_size sz al) (pad_of a (eff_align al) 12) (unat sz) @ ys)
          \<and> p \<noteq> 0 \<and> unat p = a + pad_of a (eff_align al) 12)"
    using free_list_alloc_rep[OF assms(1,2)] unfolding assms(3) by blast
  have "(\<forall>c \<in> set bs. fits S A c \<longrightarrow> b_slack S A b \<le> b_slack S A c)"
    if "bs = xs @ b # ys" "chosen Placement_Policy_Find_Best S A xs b ys" for S A xs b ys
    using that by auto
  with c run show ?thesis by blast
qed

theorem free_list_alloc_best_fit_witness:
  "\<exists>m' fl' p. free_list_alloc (fst (small_heap Placement_Policy_Find_Best))
      (snd (small_heap Placement_Policy_Find_Best)) 100 64 = Some (m', fl', p)
    \<and> unat p = 4160 \<and> fl_rep m' fl' [Used 4096 192 52 100, Free 4288 3904]"
proof -
  let ?m = "fst (small_heap Placement_Policy_Find_Best)" and ?f = "snd (small_heap Placement_Policy_Find_Best)"
  have sp: "[Free 4096 4096] = xs @ Free a s # ys \<longleftrightarrow> xs = [] \<and> a = 4096 \<and> s = 4096 \<and> ys = []" for xs a s ys
    by (cases xs) auto
  show ?thesis
    using free_list_alloc_best_fit[OF small_heap_rep(1) eff_100_64(3) small_heap_rep(2)]
    unfolding sp by (auto simp: fits_def carve_def)
qed

text \<open>C24. Whatever the policy, a pointer that \<^verbatim>\<open>free_list_alloc\<close> returns is aligned as asked, its \<open>sz\<close> bytes
  lie inside the managed region and outside every block in use, no byte of a block in use changes
  during the call, and the new state again represents a layout, with one more used block.\<close>

theorem free_list_alloc_safe:
  assumes "fl_rep m fl bs" "alloc_request sz al"
    and "free_list_alloc m fl sz al = Some (m', fl', p)" "p \<noteq> 0"
  shows "eff_align al dvd unat p
    \<and> fst (fl_region fl) \<le> unat p \<and> unat p + unat sz \<le> snd (fl_region fl)
    \<and> (\<forall>b \<in> useds bs. {unat p..<unat p + unat sz} \<inter> {b_addr b..<b_end b} = {})
    \<and> (\<forall>b \<in> useds bs. \<forall>x. unat x \<in> {b_addr b..<b_end b} \<longrightarrow> m' x = m x)
    \<and> (\<exists>bs' b. fl_rep m' fl' bs' \<and> useds bs' = insert b (useds bs) \<and> b_ptr b = unat p \<and> b_orig b = unat sz)"
proof -
  obtain bs' b where r: "eff_align al dvd unat p" "changed_only m m' (free_bytes bs)" "fl_rep m' fl' bs'"
    "useds bs' = insert b (useds bs)" "b_ptr b = unat p" "b_orig b = unat sz" "\<not> is_free b"
    "{b_addr b..<b_end b} \<subseteq> free_bytes bs" "fl_region fl' = fl_region fl"
    using flh.alloc_law[OF assms(1,2)] assms(3,4) by auto
  have lay: "layout_ok (fst (fl_region fl)) (snd (fl_region fl)) bs"
    "layout_ok (fst (fl_region fl)) (snd (fl_region fl)) bs'"
    using flh.rep_layout[OF assms(1)] flh.rep_layout[OF r(3)] r(9) by auto
  have b: "b \<in> set bs'" "block_ok b" using r(4) lay(2) by (auto simp: useds_def layout_ok_def)
  have pl: "{unat p..<unat p + unat sz} \<subseteq> {b_addr b..<b_end b}"
    using payload_in_block[OF b(2) r(7)] r(5,6) by (simp add: payload_def)
  have "fst (fl_region fl) \<le> b_addr b" "b_end b \<le> snd (fl_region fl)"
    using tiles_inside[of _ _ bs' b] lay(2) b(1) by (auto simp: layout_ok_def)
  moreover have "b_addr b \<le> unat p" "unat p + unat sz \<le> b_end b"
    using b(2) r(5,6,7) by (cases b; auto simp: b_ptr_def)+
  ultimately have inside: "fst (fl_region fl) \<le> unat p" "unat p + unat sz \<le> snd (fl_region fl)" by linarith+
  have dis: "{b_addr c..<b_end c} \<inter> free_bytes bs = {}" if "c \<in> useds bs" for c
    using used_free_disjoint[OF lay(1) that] .
  have "{unat p..<unat p + unat sz} \<inter> {b_addr c..<b_end c} = {}" if "c \<in> useds bs" for c
    using dis[OF that] pl r(8) by blast
  moreover have "m' x = m x" if "c \<in> useds bs" "unat x \<in> {b_addr c..<b_end c}" for c x
    using dis[OF that(1)] that(2) r(2) unfolding changed_only_def by blast
  ultimately show ?thesis using r(1,3-6) inside by blast
qed

theorem free_list_alloc_safe_witness:
  "\<exists>m' fl' p. free_list_alloc (fst (small_heap Placement_Policy_Find_Best))
      (snd (small_heap Placement_Policy_Find_Best)) 100 64 = Some (m', fl', p)
    \<and> p \<noteq> 0 \<and> 64 dvd unat p \<and> 4096 \<le> unat p \<and> unat p + 100 \<le> 8192"
proof -
  let ?m = "fst (small_heap Placement_Policy_Find_Best)" and ?f = "snd (small_heap Placement_Policy_Find_Best)"
  obtain m' fl' p where run: "free_list_alloc ?m ?f 100 64 = Some (m', fl', p)" and p: "p \<noteq> 0"
    by (rule small_alloc)
  show ?thesis
    using free_list_alloc_safe[OF small_heap_rep(1) eff_100_64(3) run p] run p
    by (auto simp: small_heap_rep)
qed

section \<open>Freeing\<close>

text \<open>C10. \<^verbatim>\<open>free_list_free\<close> of a live pointer refines the specification's free: it terminates, marks the
  block free, merges it with exactly its free neighbours, keeps the list in address order and
  writes to no byte of a block that stays in use.\<close>

theorem free_list_free_refines:
  assumes "fl_rep m fl bs" "b \<in> useds bs" "unat p = b_ptr b"
  shows "\<exists>m' fl'. free_list_free m fl p = Some (m', fl') \<and> fl_rep m' fl' (lay_free (unat p) bs)
    \<and> (\<forall>c \<in> useds bs - {b}. \<forall>x. unat x \<in> {b_addr c..<b_end c} \<longrightarrow> m' x = m x)"
proof -
  obtain m' fl' where r: "free_list_free m fl p = Some (m', fl')" "fl_rep m' fl' (lay_free (unat p) bs)"
    "changed_only m m' (free_bytes (lay_free (unat p) bs))"
    using free_list_free_lay[OF assms] by blast
  have lay: "layout_ok (fst (fl_region fl)) (snd (fl_region fl)) bs" using flh.rep_layout[OF assms(1)] by blast
  have "m' x = m x" if c: "c \<in> useds bs - {b}" and x: "unat x \<in> {b_addr c..<b_end c}" for c x
  proof -
    have "b_ptr c \<noteq> unat p" using b_ptr_inj[OF lay, of c b] c assms(2,3) by auto
    then have "c \<in> useds (lay_free (unat p) bs)" using c by (simp add: useds_lay_free)
    then have "unat x \<notin> free_bytes (lay_free (unat p) bs)"
      using used_free_disjoint[of _ _ "lay_free (unat p) bs" c] flh.rep_layout[OF r(2)] x by blast
    then show ?thesis using r(3) by (simp add: changed_only_def)
  qed
  with r show ?thesis by blast
qed

theorem free_list_free_refines_witness:
  "\<exists>m fl p m' fl'. fl_rep m fl [Used 4096 192 52 100, Free 4288 3904] \<and> unat p = 4160
    \<and> free_list_free m fl p = Some (m', fl') \<and> fl_rep m' fl' [Free 4096 4096]"
proof -
  obtain m fl and p :: addr where r: "unat p = 4160" "fl_rep m fl [Used 4096 192 52 100, Free 4288 3904]"
    by (rule small_alloc[of Placement_Policy_Find_First]) blast
  have "unat p = b_ptr (Used 4096 192 52 100)" using r(1) by (simp add: b_ptr_def)
  then obtain m' fl' where "free_list_free m fl p = Some (m', fl')" "fl_rep m' fl' (lay_free (unat p) [Used 4096 192 52 100, Free 4288 3904])"
    using free_list_free_refines[OF r(2), of "Used 4096 192 52 100" p] by auto
  then have "fl_rep m' fl' [Free 4096 4096]" "free_list_free m fl p = Some (m', fl')"
    using r(1) by (simp_all add: lay_free_def b_ptr_def)
  with r show ?thesis by blast
qed

text \<open>C29. Freeing what was just allocated gives back the layout from before the allocation, block for
  block, and the same byte count: neither call loses or fragments memory.\<close>

theorem free_list_alloc_free_roundtrip:
  assumes "fl_rep m fl bs" "alloc_request sz al"
    and "free_list_alloc m fl sz al = Some (m', fl', p)" "p \<noteq> 0"
  shows "\<exists>m'' fl''. free_list_free m' fl' p = Some (m'', fl'') \<and> fl_rep m'' fl'' bs \<and> fl_used fl'' = fl_used fl"
proof -
  let ?S = "eff_size sz al" and ?A = "eff_align al"
  obtain xs a s ys where bs: "bs = xs @ Free a s # ys" and fit: "fits ?S ?A (Free a s)"
    and r': "fl_rep m' fl' (xs @ carve a s ?S (pad_of a ?A 12) (unat sz) @ ys)" and p: "unat p = a + pad_of a ?A 12"
    using free_list_alloc_rep[OF assms(1,2)] assms(3,4) by auto
  have A: "0 < ?A" by (simp add: eff_align_def)
  have pd: "12 \<le> pad_of a ?A 12" using pad_of_props(1)[OF A] .
  define u t where "u = (if 16 \<le> s - (?S + pad_of a ?A 12) then ?S + pad_of a ?A 12 else s)"
    and "t = (if 16 \<le> s - (?S + pad_of a ?A 12) then [Free (a + (?S + pad_of a ?A 12)) (s - (?S + pad_of a ?A 12))] else [])"
  have cv: "carve a s ?S (pad_of a ?A 12) (unat sz) = Used a u (pad_of a ?A 12 - 12) (unat sz) # t"
    by (simp add: carve_def u_def t_def)
  have "layout_ok (fst (fl_region fl')) (snd (fl_region fl')) (xs @ Used a u (pad_of a ?A 12 - 12) (unat sz) # t @ ys)"
    using flh.rep_layout[OF r'] by (simp add: cv)
  from lay_free_split[OF this] have lf: "lay_free (unat p) (xs @ carve a s ?S (pad_of a ?A 12) (unat sz) @ ys)
      = merge_free (xs @ Free a u # t @ ys)" using p pd by (simp add: cv)
  have co: "coalesced bs" using assms(1) by (simp add: fl_rep_def layout_ok_def)
  have "merge_free (xs @ Free a u # t @ ys) = xs @ merge_free (Free a u # t @ ys)"
    using co by (intro merge_free_append) (auto simp: bs coalesced_append)
  also have "merge_free (Free a u # t @ ys) = merge_free (Free a s # ys)"
    using fit by (auto simp: u_def t_def fits_def)
  also have "\<dots> = Free a s # ys" using co by (intro merge_free_coalesced) (auto simp: bs coalesced_append)
  finally have lf': "lay_free (unat p) (xs @ carve a s ?S (pad_of a ?A 12) (unat sz) @ ys) = bs" using lf bs by simp
  let ?b = "Used a u (pad_of a ?A 12 - 12) (unat sz)"
  have "?b \<in> useds (xs @ carve a s ?S (pad_of a ?A 12) (unat sz) @ ys)" "unat p = b_ptr ?b"
    using p pd by (simp_all add: cv b_ptr_def)
  from free_list_free_lay[OF r' this] obtain m'' fl'' where
    f: "free_list_free m' fl' p = Some (m'', fl'')" "fl_rep m'' fl'' bs" unfolding lf' by blast
  moreover have "fl_used fl'' = fl_used fl" using f(2) assms(1) by (simp add: fl_rep_def u32_eq_iff)
  ultimately show ?thesis by blast
qed

theorem free_list_alloc_free_roundtrip_witness:
  "\<exists>m' fl' p m'' fl''. free_list_alloc (fst (small_heap Placement_Policy_Find_Best))
      (snd (small_heap Placement_Policy_Find_Best)) 100 64 = Some (m', fl', p)
    \<and> p \<noteq> 0 \<and> free_list_free m' fl' p = Some (m'', fl'') \<and> fl_rep m'' fl'' [Free 4096 4096]"
proof -
  obtain m' fl' p where r: "free_list_alloc (fst (small_heap Placement_Policy_Find_Best))
      (snd (small_heap Placement_Policy_Find_Best)) 100 64 = Some (m', fl', p)" "p \<noteq> 0"
    by (rule small_alloc)
  then show ?thesis
    using free_list_alloc_free_roundtrip[OF small_heap_rep(1) eff_100_64(3) r] by blast
qed

section \<open>Initialisation and perfect coalescence\<close>

text \<open>\<^verbatim>\<open>free_list_init\<close> on a block that holds at least one node after its start is aligned never
  fails its assertion, and leaves a heap that is one free block from the aligned start to the end.\<close>

theorem free_list_init_spec:
  assumes "8 \<le> unat d" "unat d + unat sz < 4294967296" "round_up (unat d) 16 + 8 \<le> unat d + unat sz"
  shows "\<exists>m' fl'. free_list_init m fl d sz = Some (m', fl')
    \<and> fl_region fl' = (round_up (unat d) 16, unat d + unat sz) \<and> fl_policy fl' = fl_policy fl
    \<and> fl_rep m' fl' [Free (round_up (unat d) 16) (unat d + unat sz - round_up (unat d) 16)]"
  using assms by (rule free_list_init_rep)

theorem free_list_init_spec_witness:
  "\<exists>m' fl'. free_list_init (\<lambda>_. 0) (small_fl Placement_Policy_Find_First) 0x1004 0x100 = Some (m', fl')
    \<and> fl_region fl' = (4112, 4356) \<and> fl_rep m' fl' [Free 4112 244]"
  using free_list_init_spec[where d = "0x1004" and sz = "0x100" and m = "\<lambda>_. 0"
      and fl = "small_fl Placement_Policy_Find_First"]
  by (auto simp: round_up_def)

text \<open>When no block is in use, whatever happened before, the free list is again a single node: it
  starts at the first byte of the region, spans all of it, has no successor, and the byte count
  is zero.\<close>

theorem free_list_perfect_coalescence:
  assumes "fl_rep m fl bs" "useds bs = {}" "0 < unat (fl_size fl)"
  shows "fl_head fl = fl_data fl \<and> node_next m (fl_head fl) = 0
    \<and> node_block_size m (fl_head fl) = fl_size fl \<and> fl_used fl = 0"
  using assms by (rule heap_empty_single)

theorem free_list_perfect_coalescence_witness:
  "fl_rep (fst (small_heap Placement_Policy_Find_First)) (snd (small_heap Placement_Policy_Find_First)) [Free 4096 4096]
   \<and> fl_used (snd (small_heap Placement_Policy_Find_First)) = 0"
proof -
  have "0 < unat (fl_size (snd (small_heap Placement_Policy_Find_First)))"
    by (simp add: small_heap_def small_fl_def free_list_free_all_def Let_def)
  then show ?thesis
    using free_list_perfect_coalescence[OF small_heap_rep(1)] small_heap_rep(1) by simp
qed

section \<open>Where the arithmetic wraps\<close>

text \<open>The rounding of the requested size wraps for requests near the end of the address space: in a
  heap of 4096 bytes a request for 4294967292 bytes, which is what \<^verbatim>\<open>strela_buffer_alloc\<close> computes for
  1073741823 words, succeeds and takes 64 bytes, header included; the pointer returned
  is the address of the next free node.\<close>

theorem free_list_alloc_wraps:
  "map_option (\<lambda>(m', fl', p). (p, fl_used fl', fl_head fl'))
     (free_list_alloc (fst (small_heap Placement_Policy_Find_First)) (snd (small_heap Placement_Policy_Find_First))
        0xFFFFFFFC 64) = Some (0x1040, 64, 0x1040)"
proof -
  let ?m = "fst (small_heap Placement_Policy_Find_First)" and ?f = "snd (small_heap Placement_Policy_Find_First)"
  have c: "calc_padding_with_header 0x1000 64 sizeof_Free_List_Allocation_Header = Some 64" by code_simp
  have b: "node_block_size ?m 0x1000 = 4096" by code_simp
  have h: "fl_head ?f = 0x1000" by code_simp
  have s: "free_list_find_first ?m ?f 0 64 = Some (0x1000, 0, 64)"
    unfolding free_list_find_first_def h by (subst find_first_loop.simps) (simp add: c b)
  have a: "align_forward_size 0xFFFFFFFC 64 = Some 0" by code_simp
  have r: "free_list_alloc ?m ?f 0xFFFFFFFC 64 = Some (free_list_take ?m ?f 0x1000 0 0 64 0xFFFFFFFC)"
    using s a by (simp add: free_list_alloc_def Let_def fl_sizes small_heap_rep(2))
  show ?thesis unfolding r option.map by code_simp
qed

end
