(* ===== verification/Torture.thy ===== *)
theory Torture
  imports Heap
begin

text \<open>
  The allocator's stress test, \<^verbatim>\<open>src/tools/test_allocator.c\<close>, as a client of the allocator: a loop of
  random allocations and frees that paints every allocation with a byte pattern, checks the
  pattern before it frees, and asserts at the end that the heap has coalesced.  What
  \<^verbatim>\<open>rand()\<close> returns is an input of the model; the theorem is that the test passes for every input.
\<close>

section \<open>The test\<close>

record Allocation_Record =
  rec_ptr :: addr
  rec_size :: u32
  rec_pattern :: u8

definition ARENA_SIZE :: u32 where "ARENA_SIZE = 1024 * 1024 * 128"
definition MAX_ACTIVE_ALLOCS :: nat where "MAX_ACTIVE_ALLOCS = 20000"
definition TEST_ITERATIONS :: nat where "TEST_ITERATIONS = 2000000"

text \<open>The values of \<^verbatim>\<open>rand()\<close> one iteration uses: the coin, the two of the size, then those of the
  alignment, the pattern and the index.\<close>

record torture_rand =
  r_coin :: nat
  r_kind :: nat
  r_size :: nat
  r_align :: nat
  r_pattern :: nat
  r_idx :: nat

definition get_torture_size :: "nat \<Rightarrow> nat \<Rightarrow> u32" where
  "get_torture_size r1 r2 =
     (let r = r1 mod 100 in
      if r < 15 then word_of_nat (r2 mod 16 + 1)
      else if r < 80 then word_of_nat (r2 mod 2048 + 17)
      else word_of_nat (r2 mod (1024 * 1024 * 2) + 2049))"

record torture =
  t_mem :: mem
  t_fl :: Free_List
  t_recs :: "Allocation_Record list"
  t_peak :: u32

text \<open>Removal by swapping with the last element.\<close>

definition swap_remove :: "nat \<Rightarrow> 'a list \<Rightarrow> 'a list" where
  "swap_remove i xs = butlast (xs[i := last xs])"

definition torture_alloc :: "torture_rand \<Rightarrow> torture \<Rightarrow> torture option" where
  "torture_alloc r t = do {
     let sz = get_torture_size (r_kind r) (r_size r);
     let alignment = (if r_align r mod 2 = 0 then 8 else 16);
     (m, fl, ptr) \<leftarrow> free_list_alloc (t_mem t) (t_fl t) sz alignment;
     Some (if ptr \<noteq> 0
           then (let pattern = word_of_nat (r_pattern r) in
                 t\<lparr>t_mem := memset_n m ptr pattern (unat sz), t_fl := fl,
                   t_recs := t_recs t @ [\<lparr>rec_ptr = ptr, rec_size = sz, rec_pattern = pattern\<rparr>],
                   t_peak := (if t_peak t < fl_used fl then fl_used fl else t_peak t)\<rparr>)
           else t\<lparr>t_mem := m, t_fl := fl\<rparr>)
   }"

text \<open>A byte that does not hold its pattern ends the program.\<close>

definition torture_free :: "torture_rand \<Rightarrow> torture \<Rightarrow> torture option" where
  "torture_free r t = do {
     let idx = r_idx r mod length (t_recs t);
     let rec = t_recs t ! idx;
     assert_c (list_all (\<lambda>c. c = rec_pattern rec) (bytes_at (t_mem t) (rec_ptr rec) (unat (rec_size rec))));
     (m, fl) \<leftarrow> free_list_free (t_mem t) (t_fl t) (rec_ptr rec);
     Some (t\<lparr>t_mem := m, t_fl := fl, t_recs := swap_remove idx (t_recs t)\<rparr>)
   }"

definition torture_iter :: "torture_rand \<Rightarrow> torture \<Rightarrow> torture option" where
  "torture_iter r t =
     (let active_count = length (t_recs t);
          do_alloc = (r_coin r mod 2 = 1);
          do_alloc = (if active_count = 0 then True else do_alloc);
          do_alloc = (if active_count = MAX_ACTIVE_ALLOCS then False else do_alloc)
      in if do_alloc then torture_alloc r t else torture_free r t)"

primrec torture_loop :: "torture_rand list \<Rightarrow> torture \<Rightarrow> torture option" where
  "torture_loop [] t = Some t"
| "torture_loop (r # rs) t = Option.bind (torture_iter r t) (torture_loop rs)"

primrec torture_teardown :: "Allocation_Record list \<Rightarrow> mem \<Rightarrow> Free_List \<Rightarrow> (mem \<times> Free_List) option" where
  "torture_teardown [] m fl = Some (m, fl)"
| "torture_teardown (r # rs) m fl = do {
     (m, fl) \<leftarrow> free_list_free m fl (rec_ptr r);
     torture_teardown rs m fl
   }"

text \<open>The whole test on the backing memory \<^verbatim>\<open>malloc\<close> returned; the result is the peak usage it prints.\<close>

definition run_allocator_torture_test ::
  "mem \<Rightarrow> Free_List \<Rightarrow> addr \<Rightarrow> (nat \<Rightarrow> torture_rand) \<Rightarrow> u32 option" where
  "run_allocator_torture_test m fl backing_memory rnd = do {
     assert_c (backing_memory \<noteq> 0);
     (m, fl) \<leftarrow> free_list_init m fl backing_memory ARENA_SIZE;
     let fl = fl\<lparr>fl_policy := Placement_Policy_Find_Best\<rparr>;
     t \<leftarrow> torture_loop (map rnd [0..<TEST_ITERATIONS]) \<lparr>t_mem = m, t_fl = fl, t_recs = [], t_peak = 0\<rparr>;
     (m, fl) \<leftarrow> torture_teardown (t_recs t) (t_mem t) (t_fl t);
     assert_c (fl_used fl = 0);
     let final_node = fl_head fl;
     assert_c (final_node \<noteq> 0);
     assert_c (node_next m final_node = 0);
     assert_c (node_block_size m final_node = fl_size fl);
     Some (t_peak t)
   }"

section \<open>What the test keeps\<close>

definition tracks :: "mem \<Rightarrow> Allocation_Record \<Rightarrow> block \<Rightarrow> bool" where
  "tracks m r b \<longleftrightarrow> unat (rec_ptr r) = b_ptr b \<and> unat (rec_size r) = b_orig b
     \<and> (\<forall>x. unat x \<in> payload b \<longrightarrow> m x = rec_pattern r)"

definition torture_inv :: "nat \<times> nat \<Rightarrow> torture \<Rightarrow> bool" where
  "torture_inv R t \<longleftrightarrow> fl_region (t_fl t) = R \<and> (\<exists>bs bl. fl_rep (t_mem t) (t_fl t) bs
     \<and> list_all2 (tracks (t_mem t)) (t_recs t) bl \<and> distinct bl \<and> set bl = useds bs)
     \<and> unat (t_peak t) \<le> snd R - fst R"

lemma get_torture_size_request: "alloc_request (get_torture_size r1 r2) (if b then 8 else 16)"
proof -
  have le: "unat (word_of_nat (k mod n + j) :: u32) < n + j" if "0 < n" "n + j \<le> 4194304" for k n j
  proof -
    have lt: "k mod n + j < n + j" using that by simp
    then have "k mod n + j < 4294967296" using that by linarith
    then show ?thesis using lt unat_of_nat_32[of "k mod n + j"] by simp
  qed
  have "unat (get_torture_size r1 r2) < 4194304"
    using le[of 16 1 r2] le[of 2048 17 r2] le[of 2097152 2049 r2]
    by (simp add: get_torture_size_def Let_def)
  then show ?thesis by (auto simp: alloc_request_def eff_align_def is_power_of_two_def)
qed

lemma swap_remove_props:
  assumes "distinct xs" "i < length xs"
  shows "distinct (swap_remove i xs)" "set (swap_remove i xs) = set xs - {xs ! i}"
proof -
  obtain ys z where xs: "xs = ys @ [z]" using assms(2) by (metis append_butlast_last_id list.size(3) not_less0)
  have "swap_remove i xs = (if i = length ys then ys else ys[i := z])"
    using assms(2) by (auto simp: swap_remove_def xs list_update_append)
  then show "distinct (swap_remove i xs)" "set (swap_remove i xs) = set xs - {xs ! i}"
    using assms by (auto simp: xs nth_append distinct_list_update set_update_distinct)
qed

lemma swap_remove_list_all2:
  assumes "list_all2 P xs ys" "i < length xs"
  shows "list_all2 P (swap_remove i xs) (swap_remove i ys)"
proof -
  have len: "length xs = length ys" using assms(1) by (rule list_all2_lengthD)
  have "list_all2 P (xs[i := last xs]) (ys[i := last ys])"
  proof (rule list_all2_update_cong[OF assms(1)])
    have "xs \<noteq> []" "ys \<noteq> []" using assms(2) len by auto
    then show "P (last xs) (last ys)" using assms len by (simp add: last_conv_nth list_all2_conv_all_nth)
  qed
  then show ?thesis unfolding swap_remove_def by (simp add: list_all2_conv_all_nth nth_butlast)
qed

text \<open>A record stays true while the bytes of its block do.\<close>

lemma tracks_mono: "tracks m r b \<Longrightarrow> (\<And>x. unat x \<in> payload b \<Longrightarrow> m' x = m x) \<Longrightarrow> tracks m' r b"
  by (simp add: tracks_def)

lemma list_tracks_mono:
  assumes "list_all2 (tracks m) rs bl" "\<And>b x. b \<in> set bl \<Longrightarrow> unat x \<in> payload b \<Longrightarrow> m' x = m x"
  shows "list_all2 (tracks m') rs bl"
  using assms by (induction rs bl rule: list_all2_induct) (auto intro: tracks_mono)

lemma used_le_region: "fl_rep m fl bs \<Longrightarrow> unat (fl_used fl) \<le> snd (fl_region fl) - fst (fl_region fl)"
  using used_bytes_le[of "fst (fl_region fl)" "snd (fl_region fl)" bs]
  by (simp add: fl_rep_def layout_ok_def fl_region_def)

text \<open>Filling a fresh block with its pattern and recording it.\<close>

lemma torture_recorded:
  assumes inv: "torture_inv R t" and rep: "fl_rep (t_mem t) (t_fl t) bs" and bl: "list_all2 (tracks (t_mem t)) (t_recs t) bl" "distinct bl" "set bl = useds bs"
    and R: "fl_region (t_fl t) = R" "fl_region fl = R" and rep': "fl_rep m fl bs'" and ch: "changed_only (t_mem t) m (free_bytes bs)"
    and us: "useds bs' = insert b (useds bs)" and b: "b_ptr b = unat p" "b_orig b = unat sz" and fb: "{b_addr b..<b_end b} \<subseteq> free_bytes bs"
  shows "torture_inv R (t\<lparr>t_mem := memset_n m p pat (unat sz), t_fl := fl, t_recs := t_recs t @ [\<lparr>rec_ptr = p, rec_size = sz, rec_pattern = pat\<rparr>],
                 t_peak := (if t_peak t < fl_used fl then fl_used fl else t_peak t)\<rparr>)"
    (is "torture_inv R ?t'")
proof -
  let ?m' = "memset_n m p pat (unat sz)"
  have peak: "unat (t_peak t) \<le> snd R - fst R" using inv by (auto simp: torture_inv_def)
  have bb: "b \<in> useds bs'" using us by simp
  have nw: "unat p + unat sz \<le> 4294967296" using flh.payload_bounds[OF rep' bb] b by simp
  have ms: "?m' x = (if unat x \<in> payload b then pat else m x)" for x
    using memset_n_apply[OF nw, of m pat x] b by (simp add: payload_def)
  have ch': "changed_only m ?m' (payload b)" by (simp add: changed_only_def ms)
  have lay: "layout_ok (fst R) (snd R) bs'" "layout_ok (fst R) (snd R) bs"
    using flh.rep_layout[OF rep'] flh.rep_layout[OF rep] R by auto
  have nb: "b \<notin> useds bs" by (rule carved_fresh[OF lay(2,1) bb fb])
  have "?m' x = t_mem t x" if "c \<in> set bl" "unat x \<in> payload c" for c x
  proof -
    have c: "c \<in> useds bs" "c \<noteq> b" using that(1) bl(3) nb by auto
    then have "unat x \<notin> payload b" using payload_disjoint[OF lay(1), of b c] us that(2) by auto
    then show ?thesis using ms flh.bytes_kept[OF rep c(1) ch that(2)] by simp
  qed
  then have "list_all2 (tracks ?m') (t_recs t) bl" using bl(1) list_tracks_mono by blast
  moreover have "tracks ?m' \<lparr>rec_ptr = p, rec_size = sz, rec_pattern = pat\<rparr> b"
    using b ms by (simp add: tracks_def)
  ultimately have "list_all2 (tracks ?m') (t_recs ?t') (bl @ [b])" by (simp add: list_all2_appendI)
  moreover have "fl_rep ?m' fl bs'" by (rule flh.client_write[OF rep' bb ch'])
  ultimately show ?thesis
    using bl(2,3) nb us R(2) peak used_le_region[OF rep'] unfolding torture_inv_def
    by (intro conjI exI[of _ bs'] exI[of _ "bl @ [b]"]) auto
qed

lemma torture_alloc_inv:
  assumes inv: "torture_inv R t"
  obtains t' where "torture_alloc r t = Some t'" "torture_inv R t'"
proof -
  obtain bs bl where rep: "fl_rep (t_mem t) (t_fl t) bs" and tr: "list_all2 (tracks (t_mem t)) (t_recs t) bl"
    and bl: "distinct bl" "set bl = useds bs" and R: "fl_region (t_fl t) = R" "unat (t_peak t) \<le> snd R - fst R"
    using inv by (auto simp: torture_inv_def)
  define sz where "sz = get_torture_size (r_kind r) (r_size r)"
  define al :: u32 where "al = (if r_align r mod 2 = 0 then 8 else 16)"
  have req: "alloc_request sz al" unfolding sz_def al_def by (rule get_torture_size_request)
  obtain m fl p where run: "free_list_alloc (t_mem t) (t_fl t) sz al = Some (m, fl, p)"
    and reg: "fl_region fl = R"
    and c: "p = 0 \<and> m = t_mem t \<and> fl = t_fl t \<or> p \<noteq> 0 \<and> changed_only (t_mem t) m (free_bytes bs)
      \<and> (\<exists>bs' b. fl_rep m fl bs' \<and> useds bs' = insert b (useds bs) \<and> b_ptr b = unat p
           \<and> b_orig b = unat sz \<and> \<not> is_free b \<and> {b_addr b..<b_end b} \<subseteq> free_bytes bs)"
    using flh.alloc_law[OF rep req] R(1) by blast
  show thesis
  proof (cases "p = 0")
    case True
    then have "torture_alloc r t = Some t" using run c by (simp add: torture_alloc_def sz_def al_def Let_def)
    then show ?thesis using inv that by blast
  next
    case False
    with c obtain bs' b where rep': "fl_rep m fl bs'" and ch: "changed_only (t_mem t) m (free_bytes bs)"
      and us: "useds bs' = insert b (useds bs)" and b: "b_ptr b = unat p" "b_orig b = unat sz" "\<not> is_free b"
      and fb: "{b_addr b..<b_end b} \<subseteq> free_bytes bs" by blast
    define pat :: u8 where "pat = word_of_nat (r_pattern r)"
    let ?m' = "memset_n m p pat (unat sz)"
    let ?t' = "t\<lparr>t_mem := ?m', t_fl := fl, t_recs := t_recs t @ [\<lparr>rec_ptr = p, rec_size = sz, rec_pattern = pat\<rparr>],
                 t_peak := (if t_peak t < fl_used fl then fl_used fl else t_peak t)\<rparr>"
    have t': "torture_alloc r t = Some ?t'"
      using run False by (simp add: torture_alloc_def sz_def al_def pat_def Let_def)
    have "torture_inv R ?t'" by (rule torture_recorded[OF inv rep tr bl R(1) reg rep' ch us b(1,2) fb])
    then show ?thesis using t' that by blast
  qed
qed

lemma torture_free_inv:
  assumes inv: "torture_inv R t" and ne: "t_recs t \<noteq> []"
  obtains t' where "torture_free r t = Some t'" "torture_inv R t'"
proof -
  obtain bs bl where rep: "fl_rep (t_mem t) (t_fl t) bs" and tr: "list_all2 (tracks (t_mem t)) (t_recs t) bl"
    and bl: "distinct bl" "set bl = useds bs" and R: "fl_region (t_fl t) = R" "unat (t_peak t) \<le> snd R - fst R"
    using inv by (auto simp: torture_inv_def)
  define i where "i = r_idx r mod length (t_recs t)"
  have i: "i < length (t_recs t)" using ne by (simp add: i_def)
  then have i: "i < length (t_recs t)" "i < length bl" using list_all2_lengthD[OF tr] by simp_all
  let ?r = "t_recs t ! i" and ?b = "bl ! i"
  have tb: "tracks (t_mem t) ?r ?b" using tr i by (simp add: list_all2_conv_all_nth)
  have ub: "?b \<in> useds bs" using bl(2) i(2) nth_mem by blast
  have "t_mem t (rec_ptr ?r + word_of_nat k) = rec_pattern ?r" if k: "k < unat (rec_size ?r)" for k
  proof -
    have "unat (rec_ptr ?r + word_of_nat k) = unat (rec_ptr ?r) + k"
      using tb k flh.payload_bounds[OF rep ub] by (simp add: tracks_def unat_add_nowrap unat_of_nat_32)
    then show ?thesis using tb k by (simp add: tracks_def payload_def)
  qed
  then have chk: "list_all (\<lambda>c. c = rec_pattern ?r) (bytes_at (t_mem t) (rec_ptr ?r) (unat (rec_size ?r)))"
    by (simp add: bytes_at_def list_all_iff)
  obtain m fl bs' where f: "free_list_free (t_mem t) (t_fl t) (rec_ptr ?r) = Some (m, fl)" "fl_region fl = R"
    "fl_rep m fl bs'" "useds bs' = useds bs - {?b}" "changed_only (t_mem t) m (free_bytes bs')"
    using flh.free_law[OF rep ub, of "rec_ptr ?r"] tb R(1) by (auto simp: tracks_def)
  let ?t' = "t\<lparr>t_mem := m, t_fl := fl, t_recs := swap_remove i (t_recs t)\<rparr>"
  have t': "torture_free r t = Some ?t'"
    using chk f(1) by (simp add: torture_free_def i_def[symmetric] Let_def)
  have sr: "distinct (swap_remove i bl)" "set (swap_remove i bl) = useds bs'"
    using swap_remove_props[OF bl(1) i(2)] bl(2) f(4) by auto
  have "list_all2 (tracks (t_mem t)) (swap_remove i (t_recs t)) (swap_remove i bl)"
    by (rule swap_remove_list_all2[OF tr i(1)])
  then have "list_all2 (tracks m) (swap_remove i (t_recs t)) (swap_remove i bl)"
  proof (rule list_tracks_mono)
    fix b and x :: addr assume "b \<in> set (swap_remove i bl)" "unat x \<in> payload b"
    then show "m x = t_mem t x" using flh.bytes_kept[OF f(3) _ f(5)] sr(2) by simp
  qed
  then have "torture_inv R ?t'" using f sr R unfolding torture_inv_def by auto
  then show thesis using t' that by blast
qed

lemma fl_rep_policy: "fl_rep m (fl\<lparr>fl_policy := pol\<rparr>) bs \<longleftrightarrow> fl_rep m fl bs"
  by (simp add: fl_rep_def)

lemma torture_loop_inv:
  assumes "torture_inv R t"
  shows "\<exists>t'. torture_loop rs t = Some t' \<and> torture_inv R t'"
  using assms
proof (induction rs arbitrary: t)
  case (Cons r rs)
  have "\<exists>t'. torture_iter r t = Some t' \<and> torture_inv R t'"
  proof -
    obtain ta where a: "torture_alloc r t = Some ta" "torture_inv R ta" by (rule torture_alloc_inv[OF Cons.prems])
    show ?thesis
    proof (cases "t_recs t = []")
      case True
      then show ?thesis using a by (simp add: torture_iter_def Let_def MAX_ACTIVE_ALLOCS_def)
    next
      case False
      then obtain tf where "torture_free r t = Some tf" "torture_inv R tf" by (rule torture_free_inv[OF Cons.prems])
      then show ?thesis using a by (simp add: torture_iter_def Let_def)
    qed
  qed
  then obtain t1 where "torture_iter r t = Some t1" "torture_inv R t1" by blast
  then show ?case using Cons.IH[of t1] by simp
qed simp

lemma torture_teardown_inv:
  assumes "fl_rep m fl bs" "list_all2 (\<lambda>r b. unat (rec_ptr r) = b_ptr b) rs bl" "distinct bl" "set bl = useds bs"
  shows "\<exists>m' fl' bs'. torture_teardown rs m fl = Some (m', fl') \<and> fl_rep m' fl' bs' \<and> useds bs' = {}
    \<and> fl_region fl' = fl_region fl"
  using assms
proof (induction rs arbitrary: m fl bs bl)
  case (Cons r rs)
  then obtain b bl' where bl: "bl = b # bl'" "unat (rec_ptr r) = b_ptr b"
    "list_all2 (\<lambda>r b. unat (rec_ptr r) = b_ptr b) rs bl'" by (auto simp: list_all2_Cons1)
  have "b \<in> useds bs" using bl Cons.prems by auto
  then obtain m1 fl1 bs1 where f: "free_list_free m fl (rec_ptr r) = Some (m1, fl1)" "fl_region fl1 = fl_region fl"
    "fl_rep m1 fl1 bs1" "useds bs1 = useds bs - {b}"
    using flh.free_law[OF Cons.prems(1) _ bl(2)] by blast
  have "distinct bl'" "set bl' = useds bs1" using bl(1) Cons.prems(3,4) f(4) by auto
  then show ?case using Cons.IH[OF f(3) bl(3)] f(1,2) by auto
qed auto

text \<open>C37. The allocator's stress test passes for every sequence of random numbers, on every backing buffer
  that lies inside the address space: no allocation's bytes are ever overwritten, every call
  returns, and after the last free the heap is a single block of the original size.\<close>

theorem torture_test_passes:
  assumes "8 \<le> unat base" "unat base + unat ARENA_SIZE < 4294967296"
  shows "\<exists>peak. run_allocator_torture_test m fl base rnd = Some peak \<and> peak \<le> ARENA_SIZE"
proof -
  let ?lo = "round_up (unat base) 16" and ?hi = "unat base + unat ARENA_SIZE"
  have A: "unat ARENA_SIZE = 134217728" by (simp add: ARENA_SIZE_def)
  have ru: "unat base \<le> ?lo" "?lo < unat base + 16" using round_up_bounds[of 16 "unat base"] by auto
  have "?lo + 8 \<le> ?hi" using ru A by linarith
  then obtain m1 fl1 where i: "free_list_init m fl base ARENA_SIZE = Some (m1, fl1)"
    "fl_region fl1 = (?lo, ?hi)" "fl_rep m1 fl1 [Free ?lo (?hi - ?lo)]"
    using free_list_init_rep[OF assms, where m = m and fl = fl] by blast
  let ?fl = "fl1\<lparr>fl_policy := Placement_Policy_Find_Best\<rparr>"
  let ?t0 = "\<lparr>t_mem = m1, t_fl = ?fl, t_recs = [], t_peak = 0\<rparr>"
  have r0: "fl_rep m1 ?fl [Free ?lo (?hi - ?lo)]" using i(3) by (simp only: fl_rep_policy)
  have rg: "fl_region ?fl = (?lo, ?hi)" using i(2) by (simp add: fl_region_def)
  have "torture_inv (?lo, ?hi) ?t0" unfolding torture_inv_def
    using r0 rg by (intro conjI exI[of _ "[Free ?lo (?hi - ?lo)]"] exI[of _ "[]"]) simp_all
  then obtain t where t: "torture_loop (map rnd [0..<TEST_ITERATIONS]) ?t0 = Some t" "torture_inv (?lo, ?hi) t"
    using torture_loop_inv by blast
  then obtain bs bl where b: "fl_rep (t_mem t) (t_fl t) bs" "list_all2 (tracks (t_mem t)) (t_recs t) bl"
    "distinct bl" "set bl = useds bs" "fl_region (t_fl t) = (?lo, ?hi)" "unat (t_peak t) \<le> ?hi - ?lo"
    by (auto simp: torture_inv_def)
  have tr: "list_all2 (\<lambda>r b. unat (rec_ptr r) = b_ptr b) (t_recs t) bl"
    using b(2) by (rule list_all2_mono) (simp add: tracks_def)
  obtain m2 fl2 bs2 where e: "torture_teardown (t_recs t) (t_mem t) (t_fl t) = Some (m2, fl2)"
    "fl_rep m2 fl2 bs2" "useds bs2 = {}" "fl_region fl2 = (?lo, ?hi)"
    using torture_teardown_inv[OF b(1) tr b(3,4)] unfolding b(5) by blast
  have "0 < unat (fl_size fl2)" using e(4) ru A by (auto simp: fl_region_def)
  then have fin: "fl_used fl2 = 0" "node_next m2 (fl_head fl2) = 0" "node_block_size m2 (fl_head fl2) = fl_size fl2"
    "fl_head fl2 = fl_data fl2"
    using heap_empty_single[OF e(2,3)] by auto
  have "fl_head fl2 \<noteq> 0" "base \<noteq> 0" using fin(4) flh.rep_layout[OF e(2)] assms(1) by (auto simp: fl_region_def)
  moreover have "t_peak t \<le> ARENA_SIZE" using b(6) ru by (simp add: word_le_nat_alt)
  ultimately show ?thesis using i(1) t(1) e(1) fin(1-3) by (simp add: run_allocator_torture_test_def Let_def)
qed

theorem torture_test_passes_witness:
  "\<exists>peak. run_allocator_torture_test (\<lambda>_. 0)
     \<lparr>fl_data = 0, fl_size = 0, fl_used = 0, fl_head = 0, fl_policy = Placement_Policy_Find_First\<rparr> 0x10000004
     (\<lambda>i. \<lparr>r_coin = i, r_kind = 50, r_size = i, r_align = 0, r_pattern = i, r_idx = i\<rparr>) = Some peak"
  using torture_test_passes[of "0x10000004"] by (simp add: ARENA_SIZE_def) blast

end
