(* ===== verification/Arena.thy ===== *)
theory Arena
  imports Align
begin

text \<open>
  The bump allocator of \<^verbatim>\<open>src/lib/allocators.c\<close>: allocation moves an offset forward in a buffer,
  the last allocation can be resized in place, everything is released at once or back to a mark.
\<close>

section \<open>Operations\<close>

record Arena =
  ar_buf :: addr
  ar_buf_len :: u32
  ar_prev_offset :: u32
  ar_curr_offset :: u32

definition DEFAULT_ALIGNMENT :: u32 where "DEFAULT_ALIGNMENT = 8"

definition arena_init :: "addr \<Rightarrow> u32 \<Rightarrow> Arena" where
  "arena_init backing_buffer backing_buffer_length =
     \<lparr>ar_buf = backing_buffer, ar_buf_len = backing_buffer_length, ar_prev_offset = 0, ar_curr_offset = 0\<rparr>"

definition arena_alloc_align :: "mem \<Rightarrow> Arena \<Rightarrow> u32 \<Rightarrow> u32 \<Rightarrow> (mem \<times> Arena \<times> addr) option" where
  "arena_alloc_align m a sz align = do {
     let curr_ptr = ar_buf a + ar_curr_offset a;
     offset \<leftarrow> align_forward_uintptr curr_ptr align;
     let offset = offset - ar_buf a;
     Some (if offset + sz \<le> ar_buf_len a
           then (let ptr = ar_buf a + offset in
                 (memset_n m ptr 0 (unat sz),
                  a\<lparr>ar_prev_offset := offset, ar_curr_offset := offset + sz\<rparr>, ptr))
           else (m, a, 0))
   }"

definition arena_alloc :: "mem \<Rightarrow> Arena \<Rightarrow> u32 \<Rightarrow> (mem \<times> Arena \<times> addr) option" where
  "arena_alloc m a sz = arena_alloc_align m a sz DEFAULT_ALIGNMENT"

definition arena_free :: "Arena \<Rightarrow> addr \<Rightarrow> Arena" where
  "arena_free a ptr = a"

text \<open>
  Resizing.  Copying to a null pointer does not return (the target has no page at address 0), and
  neither does a pointer from outside the buffer.
\<close>

definition arena_resize_align ::
  "mem \<Rightarrow> Arena \<Rightarrow> addr \<Rightarrow> u32 \<Rightarrow> u32 \<Rightarrow> u32 \<Rightarrow> (mem \<times> Arena \<times> addr) option" where
  "arena_resize_align m a old_mem old_size new_size align = do {
     assert_c (is_power_of_two align);
     if old_mem = 0 \<or> old_size = 0 then arena_alloc_align m a new_size align
     else if ar_buf a \<le> old_mem \<and> old_mem < ar_buf a + ar_buf_len a then
       (if ar_buf a + ar_prev_offset a = old_mem then
          (if ar_buf_len a < ar_prev_offset a + new_size then Some (m, a, 0)
           else Some
             (if old_size < new_size
              then memset_n m (ar_buf a + (ar_prev_offset a + old_size)) 0 (unat (new_size - old_size))
              else m,
              a\<lparr>ar_curr_offset := ar_prev_offset a + new_size\<rparr>, old_mem))
        else do {
          (m, a, new_memory) \<leftarrow> arena_alloc_align m a new_size align;
          let copy_size = (if old_size < new_size then old_size else new_size);
          assert_c (new_memory \<noteq> 0 \<or> copy_size = 0);
          Some (memmove_n m new_memory old_mem (unat copy_size), a, new_memory)
        })
     else None
   }"

definition arena_resize :: "mem \<Rightarrow> Arena \<Rightarrow> addr \<Rightarrow> u32 \<Rightarrow> u32 \<Rightarrow> (mem \<times> Arena \<times> addr) option" where
  "arena_resize m a old_memory old_size new_size =
     arena_resize_align m a old_memory old_size new_size DEFAULT_ALIGNMENT"

definition arena_free_all :: "Arena \<Rightarrow> Arena" where
  "arena_free_all a = a\<lparr>ar_curr_offset := 0, ar_prev_offset := 0\<rparr>"

text \<open>A mark: the two offsets (the pointer to the arena is the arena it is used with).\<close>

record Temp_Arena_Memory =
  temp_prev_offset :: u32
  temp_curr_offset :: u32

definition temp_arena_memory_begin :: "Arena \<Rightarrow> Temp_Arena_Memory" where
  "temp_arena_memory_begin a = \<lparr>temp_prev_offset = ar_prev_offset a, temp_curr_offset = ar_curr_offset a\<rparr>"

definition temp_arena_memory_end :: "Temp_Arena_Memory \<Rightarrow> Arena \<Rightarrow> Arena" where
  "temp_arena_memory_end temp a =
     a\<lparr>ar_prev_offset := temp_prev_offset temp, ar_curr_offset := temp_curr_offset temp\<rparr>"

text \<open>A sequence of allocations, each with a size and an alignment.\<close>

primrec arena_allocs :: "(u32 \<times> u32) list \<Rightarrow> mem \<Rightarrow> Arena \<Rightarrow> (mem \<times> Arena \<times> addr list) option" where
  "arena_allocs [] m a = Some (m, a, [])"
| "arena_allocs (r # rs) m a = do {
     (m, a, p) \<leftarrow> arena_alloc_align m a (fst r) (snd r);
     (m, a, ps) \<leftarrow> arena_allocs rs m a;
     Some (m, a, p # ps)
   }"

section \<open>Invariant\<close>

definition arena_ok :: "Arena \<Rightarrow> bool" where
  "arena_ok a \<longleftrightarrow> 0 < unat (ar_buf a) \<and> unat (ar_buf a) + unat (ar_buf_len a) < 4294967296
     \<and> ar_prev_offset a \<le> ar_curr_offset a \<and> ar_curr_offset a \<le> ar_buf_len a"

text \<open>The first address a further allocation can get, and requests that do not wrap.\<close>

definition arena_top :: "Arena \<Rightarrow> nat" where
  "arena_top a = unat (ar_buf a) + unat (ar_curr_offset a)"

definition arena_end :: "Arena \<Rightarrow> nat" where
  "arena_end a = unat (ar_buf a) + unat (ar_buf_len a)"

definition arena_request :: "Arena \<Rightarrow> u32 \<Rightarrow> u32 \<Rightarrow> bool" where
  "arena_request a sz align \<longleftrightarrow> is_power_of_two align \<and> arena_end a + unat align + unat sz < 4294967296"

lemma arena_alloc_align_result:
  assumes ok: "arena_ok a" and req: "arena_request a sz align"
  defines "p \<equiv> round_up (arena_top a) (unat align)"
  shows "\<exists>m' a' ptr. arena_alloc_align m a sz align = Some (m', a', ptr) \<and>
    (if p + unat sz \<le> arena_end a
     then unat ptr = p \<and> m' = memset_n m ptr 0 (unat sz) \<and> arena_ok a' \<and> arena_top a' = p + unat sz
          \<and> unat (ar_buf a') + unat (ar_prev_offset a') = p
     else ptr = 0 \<and> m' = m \<and> a' = a)
    \<and> ar_buf a' = ar_buf a \<and> ar_buf_len a' = ar_buf_len a"
proof -
  have al: "is_power_of_two align" and lt: "arena_end a + unat align + unat sz < 4294967296"
    using req by (auto simp: arena_request_def)
  note al0 = power_of_two_pos[OF al]
  have top: "arena_top a \<le> arena_end a" and buf0: "0 < unat (ar_buf a)"
    using ok by (auto simp: arena_ok_def arena_top_def arena_end_def word_le_nat_alt)
  have uc: "unat (ar_buf a + ar_curr_offset a) = arena_top a"
    using top lt by (simp add: arena_top_def arena_end_def unat_add_nowrap)
  have p: "arena_top a \<le> p" "p < arena_top a + unat align" unfolding p_def using round_up_bounds[OF al0] by auto
  obtain st where st: "align_forward_uintptr (ar_buf a + ar_curr_offset a) align = Some st"
    "unat st = round_up (arena_top a) (unat align) mod 4294967296"
    using align_forward_size_eq[OF al, of "ar_buf a + ar_curr_offset a"] uc
    by (auto simp: align_forward_uintptr_eq_size)
  have ust: "unat st = p" using st(2) p top lt by (simp add: p_def[symmetric])
  define off where "off = st - ar_buf a"
  have bp: "unat (ar_buf a) \<le> p" using p by (simp add: arena_top_def)
  have uo: "unat off = p - unat (ar_buf a)" using ust bp by (simp add: off_def unat_sub_nowrap)
  have uos: "unat (off + sz) = p - unat (ar_buf a) + unat sz"
    using uo p top lt by (simp add: unat_add_nowrap)
  have fit: "off + sz \<le> ar_buf_len a \<longleftrightarrow> p + unat sz \<le> arena_end a"
    using uos bp by (auto simp: word_le_nat_alt arena_end_def)
  have up: "unat (ar_buf a + off) = p" using uo bp p top lt by (simp add: unat_add_nowrap)
  let ?a' = "a\<lparr>ar_prev_offset := off, ar_curr_offset := off + sz\<rparr>"
  have run: "arena_alloc_align m a sz align = Some (if off + sz \<le> ar_buf_len a
      then (memset_n m (ar_buf a + off) 0 (unat sz), ?a', ar_buf a + off) else (m, a, 0))"
    by (simp add: arena_alloc_align_def st(1) off_def Let_def)
  show ?thesis
  proof (cases "off + sz \<le> ar_buf_len a")
    case True
    then have "arena_ok ?a'" using ok uo uos by (simp add: arena_ok_def word_le_nat_alt)
    moreover have "arena_top ?a' = p + unat sz" using uos bp by (simp add: arena_top_def)
    ultimately show ?thesis using run True fit up uo bp by simp
  next
    case False
    then show ?thesis using run fit by simp
  qed
qed

text \<open>The ranges a sequence of allocations was granted, in order.\<close>

primrec granted :: "(u32 \<times> u32) list \<Rightarrow> addr list \<Rightarrow> (nat \<times> nat) list" where
  "granted [] ps = []"
| "granted (r # rs) ps =
     (case ps of [] \<Rightarrow> [] | p # ps \<Rightarrow> (if p = 0 then granted rs ps else (unat p, unat (fst r)) # granted rs ps))"

lemma arena_allocs_result:
  assumes "arena_ok a" "\<forall>r \<in> set rs. arena_request a (fst r) (snd r)"
  shows "\<exists>m' a' ps. arena_allocs rs m a = Some (m', a', ps) \<and> arena_ok a' \<and> length ps = length rs
    \<and> ar_buf a' = ar_buf a \<and> ar_buf_len a' = ar_buf_len a \<and> arena_top a \<le> arena_top a'
    \<and> (\<forall>g \<in> set (granted rs ps). arena_top a \<le> fst g \<and> fst g + snd g \<le> arena_top a')
    \<and> sorted_wrt (\<lambda>g h. fst g + snd g \<le> fst h) (granted rs ps)"
  using assms
proof (induction rs arbitrary: m a)
  case (Cons r rs)
  have rq: "arena_request a (fst r) (snd r)" using Cons.prems by simp
  obtain m1 a1 p where al: "arena_alloc_align m a (fst r) (snd r) = Some (m1, a1, p)"
    and res: "if round_up (arena_top a) (unat (snd r)) + unat (fst r) \<le> arena_end a
      then unat p = round_up (arena_top a) (unat (snd r)) \<and> arena_ok a1 \<and> arena_top a1 = unat p + unat (fst r)
      else p = 0 \<and> a1 = a"
    and same: "ar_buf a1 = ar_buf a" "ar_buf_len a1 = ar_buf_len a"
    using arena_alloc_align_result[OF Cons.prems(1) rq, of m] by (auto split: if_splits)
  have ok1: "arena_ok a1" using res Cons.prems(1) by (auto split: if_splits)
  have "0 < unat (snd r)" using rq power_of_two_pos by (auto simp: arena_request_def)
  then have le: "p \<noteq> 0 \<Longrightarrow> arena_top a \<le> unat p \<and> arena_top a1 = unat p + unat (fst r)" "arena_top a \<le> arena_top a1"
    using res round_up_bounds(1)[of "unat (snd r)" "arena_top a"] by (auto split: if_splits)
  have "\<forall>r \<in> set rs. arena_request a1 (fst r) (snd r)"
    using Cons.prems(2) same by (simp add: arena_request_def arena_end_def)
  from Cons.IH[OF ok1 this, of m1] obtain m2 a2 ps where
    IH: "arena_allocs rs m1 a1 = Some (m2, a2, ps)" "arena_ok a2" "length ps = length rs"
      "ar_buf a2 = ar_buf a1" "ar_buf_len a2 = ar_buf_len a1" "arena_top a1 \<le> arena_top a2"
      "\<forall>g \<in> set (granted rs ps). arena_top a1 \<le> fst g \<and> fst g + snd g \<le> arena_top a2"
      "sorted_wrt (\<lambda>g h. fst g + snd g \<le> fst h) (granted rs ps)" by blast
  have "arena_allocs (r # rs) m a = Some (m2, a2, p # ps)" using al IH(1) by simp
  moreover have "\<forall>g \<in> set (granted (r # rs) (p # ps)). arena_top a \<le> fst g \<and> fst g + snd g \<le> arena_top a2"
    using IH(6,7) le by auto
  moreover have "sorted_wrt (\<lambda>g h. fst g + snd g \<le> fst h) (granted (r # rs) (p # ps))"
    using IH(7,8) le(1) by auto
  moreover have "length (p # ps) = length (r # rs)" "ar_buf a2 = ar_buf a" "ar_buf_len a2 = ar_buf_len a"
    "arena_top a \<le> arena_top a2" using IH same le(2) by auto
  ultimately show ?case using IH(2) by blast
qed simp

section \<open>Properties\<close>

text \<open>\<^verbatim>\<open>arena_alloc_align\<close> returns the lowest aligned address at or above the current offset when the
  request fits behind it, with exactly those bytes zeroed and all other memory unchanged, and
  null with nothing changed when it does not fit; the offsets stay inside the buffer.\<close>

theorem arena_alloc_align_spec:
  assumes "arena_ok a" "arena_request a sz align"
  shows "\<exists>m' a' ptr. arena_alloc_align m a sz align = Some (m', a', ptr) \<and> arena_ok a' \<and>
    (if round_up (arena_top a) (unat align) + unat sz \<le> arena_end a
     then unat ptr = round_up (arena_top a) (unat align) \<and> arena_top a' = unat ptr + unat sz
       \<and> (\<forall>x. m' x = (if unat x \<in> {unat ptr..<unat ptr + unat sz} then 0 else m x))
     else ptr = 0 \<and> m' = m \<and> a' = a)"
proof -
  let ?p = "round_up (arena_top a) (unat align)"
  obtain m' a' ptr where r: "arena_alloc_align m a sz align = Some (m', a', ptr)"
    "if ?p + unat sz \<le> arena_end a
     then unat ptr = ?p \<and> m' = memset_n m ptr 0 (unat sz) \<and> arena_ok a' \<and> arena_top a' = ?p + unat sz
     else ptr = 0 \<and> m' = m \<and> a' = a"
    using arena_alloc_align_result[OF assms, of m] by (auto split: if_splits)
  have "arena_end a < 4294967296" using assms(1) by (simp add: arena_ok_def arena_end_def)
  then show ?thesis using r assms(1) memset_n_apply[of ptr "unat sz" m 0] by (auto split: if_splits)
qed

definition small_arena :: Arena where "small_arena = arena_init 0x1000 256"

theorem arena_alloc_align_spec_witness:
  "\<exists>m' a' ptr. arena_alloc_align (\<lambda>_. 7) (small_arena\<lparr>ar_curr_offset := 5\<rparr>) 10 8 = Some (m', a', ptr)
    \<and> unat ptr = 4104 \<and> m' 4104 = 0 \<and> m' 4114 = 7 \<and> arena_top a' = 4114"
proof -
  let ?a = "small_arena\<lparr>ar_curr_offset := 5\<rparr>"
  have "arena_ok ?a" "arena_request ?a 10 8" "round_up (arena_top ?a) (unat (8 :: u32)) = 4104" "arena_end ?a = 4352"
    by (simp_all add: small_arena_def arena_init_def arena_ok_def arena_request_def arena_end_def arena_top_def
        is_power_of_two_def round_up_def)
  then show ?thesis using arena_alloc_align_spec[of ?a 10 8 "\<lambda>_. 7"] by auto
qed

text \<open>Any sequence of arena allocations hands out ranges in increasing address order, each ending
  before the next one starts, all of them between the offset at the start and the end of the
  buffer; and returning to the mark taken before the sequence gives back the arena as it was.\<close>

theorem arena_allocs_disjoint:
  assumes "arena_ok a" "\<forall>r \<in> set rs. arena_request a (fst r) (snd r)"
  shows "\<exists>m' a' ps. arena_allocs rs m a = Some (m', a', ps) \<and> length ps = length rs \<and> arena_ok a'
    \<and> (\<forall>g \<in> set (granted rs ps). arena_top a \<le> fst g \<and> fst g + snd g \<le> arena_end a)
    \<and> sorted_wrt (\<lambda>g h. fst g + snd g \<le> fst h) (granted rs ps)
    \<and> temp_arena_memory_end (temp_arena_memory_begin a) a' = a"
proof -
  obtain m' a' ps where r: "arena_allocs rs m a = Some (m', a', ps)" "arena_ok a'" "length ps = length rs"
    "ar_buf a' = ar_buf a" "ar_buf_len a' = ar_buf_len a"
    "\<forall>g \<in> set (granted rs ps). arena_top a \<le> fst g \<and> fst g + snd g \<le> arena_top a'"
    "sorted_wrt (\<lambda>g h. fst g + snd g \<le> fst h) (granted rs ps)"
    using arena_allocs_result[OF assms, of m] by blast
  have "arena_top a' \<le> arena_end a"
    using r(2,4,5) by (auto simp: arena_ok_def arena_top_def arena_end_def word_le_nat_alt)
  moreover have "temp_arena_memory_end (temp_arena_memory_begin a) a' = a"
    using r(4,5) by (simp add: temp_arena_memory_end_def temp_arena_memory_begin_def)
  ultimately show ?thesis using r by fastforce
qed

theorem arena_allocs_disjoint_witness:
  "\<exists>m' a' ps. arena_allocs [(10, 8), (200, 16), (20, 4)] (\<lambda>_. 0) small_arena = Some (m', a', ps)
    \<and> sorted_wrt (\<lambda>g h. fst g + snd g \<le> fst h) (granted [(10, 8), (200, 16), (20, 4)] ps)
    \<and> temp_arena_memory_end (temp_arena_memory_begin small_arena) a' = small_arena"
proof -
  have "arena_ok small_arena" "\<forall>r \<in> set [(10, 8), (200, 16), (20, 4)]. arena_request small_arena (fst r) (snd r)"
    by (simp_all add: small_arena_def arena_init_def arena_ok_def arena_request_def arena_end_def is_power_of_two_def)
  from arena_allocs_disjoint[OF this] show ?thesis by blast
qed

text \<open>Resizing in place and by moving: what the memory holds afterwards.\<close>

definition resized :: "mem \<Rightarrow> addr \<Rightarrow> nat \<Rightarrow> nat \<Rightarrow> mem \<Rightarrow> addr \<Rightarrow> bool" where
  "resized m old old_n new_n m' q \<longleftrightarrow>
     bytes_at m' q (min old_n new_n) = bytes_at m old (min old_n new_n)
     \<and> (\<forall>k. old_n \<le> k \<and> k < new_n \<longrightarrow> m' (q + word_of_nat k) = 0)"

lemma resizedI:
  assumes "\<And>k. k < min old_n new_n \<Longrightarrow> m' (q + word_of_nat k) = m (old + word_of_nat k)"
    "\<And>k. old_n \<le> k \<Longrightarrow> k < new_n \<Longrightarrow> m' (q + word_of_nat k) = 0"
  shows "resized m old old_n new_n m' q"
  using assms by (simp add: resized_def bytes_at_def)

lemma resized_in_place:
  assumes "unat old + unat old_size < 4294967296" "unat old + unat new_size < 4294967296"
  shows "resized m old (unat old_size) (unat new_size)
    (if old_size < new_size then memset_n m (old + old_size) 0 (unat (new_size - old_size)) else m) old"
    (is "resized _ _ _ _ ?m' _")
proof -
  have m': "?m' x = (if unat old + unat old_size \<le> unat x \<and> unat x < unat old + unat new_size then 0 else m x)" for x
  proof (cases "old_size < new_size")
    case True
    then have us: "unat (new_size - old_size) = unat new_size - unat old_size" "unat old_size < unat new_size"
      by (simp_all add: unat_sub_nowrap word_less_nat_alt)
    have ud: "unat (old + old_size) = unat old + unat old_size" using assms(1) by (rule unat_add_nowrap)
    have "unat (old + old_size) + unat (new_size - old_size) \<le> 4294967296" using ud us assms by simp
    from memset_n_apply[OF this, of m 0 x] show ?thesis using True ud us by simp
  next
    case False
    then show ?thesis by (auto simp: word_less_nat_alt)
  qed
  show ?thesis by (rule resizedI; subst m') (use assms in \<open>simp_all add: unat_add_of_nat\<close>)
qed

lemma resized_moved:
  assumes "unat q + unat new_size < 4294967296" "unat old + unat old_size \<le> unat q"
  shows "resized m old (unat old_size) (unat new_size)
    (memmove_n (memset_n m q 0 (unat new_size)) q old (min (unat old_size) (unat new_size))) q"
proof -
  let ?c = "min (unat old_size) (unat new_size)" and ?m1 = "memset_n m q 0 (unat new_size)"
  have m1: "?m1 x = (if unat q \<le> unat x \<and> unat x < unat q + unat new_size then 0 else m x)" for x
    using memset_n_apply[of q "unat new_size" m 0 x] assms(1) by simp
  have mv: "memmove_n ?m1 q old ?c x =
      (if unat q \<le> unat x \<and> unat x < unat q + ?c then ?m1 (old + (x - q)) else ?m1 x)" for x
    using memmove_n_apply[of q ?c ?m1 old x] assms(1) by simp
  show ?thesis
    by (rule resizedI; subst mv) (use assms in \<open>simp_all add: m1 unat_add_of_nat\<close>)
qed

text \<open>When \<^verbatim>\<open>arena_resize_align\<close> of an allocation of the arena returns a pointer, in place or not, the
  first \<open>min old_size new_size\<close> bytes behind it are those of the old allocation, and the bytes of
  a growth are zero.\<close>

theorem arena_resize_preserves:
  assumes ok: "arena_ok a" and req: "arena_request a new_size align"
    and old: "old_mem \<noteq> 0" "old_size \<noteq> 0" "ar_buf a \<le> old_mem" "unat old_mem + unat old_size \<le> arena_top a"
    and run: "arena_resize_align m a old_mem old_size new_size align = Some (m', a', q)" "q \<noteq> 0"
  shows "bytes_at m' q (min (unat old_size) (unat new_size)) = bytes_at m old_mem (min (unat old_size) (unat new_size))
    \<and> (\<forall>k. unat old_size \<le> k \<and> k < unat new_size \<longrightarrow> m' (q + word_of_nat k) = 0)"
proof -
  have al: "is_power_of_two align" and lt: "arena_end a + unat align + unat new_size < 4294967296"
    using req by (auto simp: arena_request_def)
  have top: "arena_top a \<le> arena_end a" using ok by (auto simp: arena_ok_def arena_top_def arena_end_def word_le_nat_alt)
  have "unat (ar_buf a + ar_buf_len a) = arena_end a" using lt by (simp add: arena_end_def unat_add_nowrap)
  moreover have "0 < unat old_size" using old(2) by (simp add: unat_gt_0)
  ultimately have inb: "ar_buf a \<le> old_mem \<and> old_mem < ar_buf a + ar_buf_len a"
    using old top by (simp add: word_less_nat_alt)
  have "resized m old_mem (unat old_size) (unat new_size) m' q"
  proof (cases "ar_buf a + ar_prev_offset a = old_mem")
    case True
    then have d: "ar_buf a + (ar_prev_offset a + old_size) = old_mem + old_size" by (simp add: algebra_simps)
    have "q = old_mem" "m' = (if old_size < new_size then memset_n m (old_mem + old_size) 0 (unat (new_size - old_size)) else m)"
      using run True inb al old unfolding d[symmetric] by (auto simp: arena_resize_align_def split: if_splits)
    then show ?thesis using resized_in_place[of old_mem old_size new_size m] old(4) top lt by simp
  next
    case False
    obtain m1 where al1: "arena_alloc_align m a new_size align = Some (m1, a', q)"
      and m': "m' = memmove_n m1 q old_mem (min (unat old_size) (unat new_size))"
      using run False inb al old
      by (auto simp: arena_resize_align_def Let_def min_def word_less_nat_alt split: Option.bind_splits if_splits)
    have p: "unat q = round_up (arena_top a) (unat align)" "m1 = memset_n m q 0 (unat new_size)"
      "unat q + unat new_size \<le> arena_end a"
      using arena_alloc_align_result[OF ok req, of m] al1 run(2) by (auto split: if_splits)
    have "arena_top a \<le> unat q" unfolding p(1) by (rule round_up_bounds(1)[OF power_of_two_pos[OF al]])
    then show ?thesis using resized_moved[of q new_size old_mem old_size m] p m' old(4) lt by simp
  qed
  then show ?thesis by (simp add: resized_def)
qed

theorem arena_resize_preserves_witness:
  "\<exists>m' a' q. arena_resize_align (\<lambda>_. 7) (small_arena\<lparr>ar_curr_offset := 32\<rparr>) 0x1008 8 16 8 = Some (m', a', q)
    \<and> bytes_at m' q 8 = bytes_at (\<lambda>_. 7) 0x1008 8"
proof -
  let ?a = "small_arena\<lparr>ar_curr_offset := 32\<rparr>"
  have ok: "arena_ok ?a" "arena_request ?a 16 8"
    by (simp_all add: small_arena_def arena_init_def arena_ok_def arena_request_def arena_end_def is_power_of_two_def)
  have run: "arena_resize_align (\<lambda>_. 7) ?a 0x1008 8 16 8 =
      Some (memmove_n (memset_n (\<lambda>_. 7) 0x1020 0 16) 0x1020 0x1008 8,
            ?a\<lparr>ar_prev_offset := 32, ar_curr_offset := 48\<rparr>, 0x1020)"
    by (simp add: arena_resize_align_def arena_alloc_align_def align_forward_uintptr_def is_power_of_two_def
        small_arena_def arena_init_def Let_def)
  have "arena_top ?a = 4128" by (simp add: arena_top_def small_arena_def arena_init_def)
  then show ?thesis
    using arena_resize_preserves[OF ok _ _ _ _ run] run by (simp add: small_arena_def arena_init_def)
qed

text \<open>\<^verbatim>\<open>arena_resize_align\<close> does not check the allocation it moves to: when the arena has no room for the
  move, it copies to the null pointer.\<close>

theorem arena_resize_unchecked:
  "(case arena_allocs [(100, 8), (100, 8)] (\<lambda>_. 0) small_arena of
      Some (m, a, ps) \<Rightarrow> map_option (\<lambda>(_, _, q). q) (arena_alloc_align m a 200 8) = Some 0
        \<and> arena_resize_align m a (ps ! 0) 100 200 8 = None
    | None \<Rightarrow> False)"
proof -
  have "arena_allocs [(100, 8), (100, 8)] (\<lambda>_. 0) small_arena = Some
      (memset_n (memset_n (\<lambda>_. 0) 0x1000 0 100) 0x1068 0 100,
       \<lparr>ar_buf = 0x1000, ar_buf_len = 256, ar_prev_offset = 104, ar_curr_offset = 204\<rparr>, [0x1000, 0x1068])"
    by (simp add: arena_alloc_align_def small_arena_def arena_init_def align_forward_uintptr_def is_power_of_two_def Let_def)
  then show ?thesis
    by (simp add: arena_resize_align_def arena_alloc_align_def align_forward_uintptr_def is_power_of_two_def Let_def)
qed

end
