(* ===== verification/Binding.thy ===== *)
theory Binding
  imports Prelude
begin

unbundle bit_operations_syntax

text \<open>
  The kernel interface (\<^verbatim>\<open>src/include/uapi/strela_drm.h\<close>) and the validation of a binding in
  \<^verbatim>\<open>src/driver/strela_job.c\<close>: a binding names a buffer object and a range of words in it, and is
  accepted only if the range lies inside the object and its byte count and stride fit the
  register that \<^verbatim>\<open>strela_core.c\<close> packs them into.
\<close>

section \<open>The interface\<close>

definition STRELA_NUM_IO_COLS :: nat where "STRELA_NUM_IO_COLS = 4"
abbreviation STRELA_WORD_SIZE32 :: u32 where "STRELA_WORD_SIZE32 \<equiv> 4"
abbreviation STRELA_WORD_SIZE64 :: u64 where "STRELA_WORD_SIZE64 \<equiv> 4"

record drm_strela_binding =
  bd_handle :: u32
  bd_offset :: u32
  bd_count :: u32

record drm_strela_strided_binding = drm_strela_binding +
  bd_stride :: u32

record drm_strela_submit =
  sub_config :: drm_strela_binding
  sub_inputs :: "drm_strela_strided_binding list"
  sub_outputs :: "drm_strela_binding list"
  sub_out_syncobj :: u32
  sub_flags :: u32
  sub_in_syncobj :: u32
  sub_pad :: u32

definition DRM_STRELA_SUBMIT_WAIT_SYNCOBJ :: u32 where "DRM_STRELA_SUBMIT_WAIT_SYNCOBJ = 1"

definition EINVAL :: int where "EINVAL = 22"
definition ENOENT :: int where "ENOENT = 2"
definition ENOMEM :: int where "ENOMEM = 12"
definition ENODEV :: int where "ENODEV = 19"
definition EIO :: int where "EIO = 5"

lemmas errnos = EINVAL_def ENOENT_def ENOMEM_def ENODEV_def EIO_def

section \<open>The check\<close>

definition STRELA_MAX_COLUMN_BYTES :: u64 where "STRELA_MAX_COLUMN_BYTES = 0xFFFF"

definition strela_binding_check :: "u64 \<Rightarrow> drm_strela_strided_binding \<Rightarrow> int" where
  "strela_binding_check obj_size b =
     (let stride = ucast (max (bd_stride b) 1) :: u64;
          span_bytes = ucast (bd_count b) * stride * STRELA_WORD_SIZE64;
          end = ucast (bd_offset b) * STRELA_WORD_SIZE64 + span_bytes
      in if STRELA_MAX_COLUMN_BYTES < span_bytes then - EINVAL
         else if bd_count b \<noteq> 0 \<and> STRELA_MAX_COLUMN_BYTES < stride * STRELA_WORD_SIZE64 then - EINVAL
         else if obj_size < end then - EINVAL
         else 0)"

text \<open>The value of an input column's size register.\<close>

definition strela_input_size :: "u32 \<Rightarrow> u32 \<Rightarrow> u32" where
  "strela_input_size count stride =
     push_bit 16 (stride * STRELA_WORD_SIZE32) OR max stride 1 * count * STRELA_WORD_SIZE32"

text \<open>The table of the driver's unit test.\<close>

definition strela_binding_cases :: "(string \<times> u64 \<times> drm_strela_strided_binding \<times> int) list" where
  "strela_binding_cases =
    [(''exact fit'', 64, \<lparr>bd_handle = 1, bd_offset = 0, bd_count = 16, bd_stride = 1\<rparr>, 0),
     (''offset to the end'', 64, \<lparr>bd_handle = 1, bd_offset = 8, bd_count = 8, bd_stride = 1\<rparr>, 0),
     (''empty count'', 64, \<lparr>bd_handle = 1, bd_offset = 0, bd_count = 0, bd_stride = 1\<rparr>, 0),
     (''stride zero is supported'', 64, \<lparr>bd_handle = 1, bd_offset = 0, bd_count = 16, bd_stride = 0\<rparr>, 0),
     (''one word past the end'', 64, \<lparr>bd_handle = 1, bd_offset = 0, bd_count = 17, bd_stride = 1\<rparr>, - EINVAL),
     (''empty count ignores stride'', 64, \<lparr>bd_handle = 1, bd_offset = 16, bd_count = 0, bd_stride = 0x40000000\<rparr>, 0),
     (''offset past the end'', 64, \<lparr>bd_handle = 1, bd_offset = 17, bd_count = 0, bd_stride = 1\<rparr>, - EINVAL),
     (''strided past the end'', 64, \<lparr>bd_handle = 1, bd_offset = 0, bd_count = 16, bd_stride = 2\<rparr>, - EINVAL),
     (''count overflows u32'', 0xFFFFFFFFFFFFFFFF,
        \<lparr>bd_handle = 1, bd_offset = 0, bd_count = 0x40000000, bd_stride = 4\<rparr>, - EINVAL),
     (''stride overflows u32'', 0xFFFFFFFFFFFFFFFF,
        \<lparr>bd_handle = 1, bd_offset = 0, bd_count = 4, bd_stride = 0x40000000\<rparr>, - EINVAL),
     (''largest encodable span'', 0x100000, \<lparr>bd_handle = 1, bd_offset = 0, bd_count = 0x3FFF, bd_stride = 1\<rparr>, 0),
     (''one word too large to encode'', 0x100000,
        \<lparr>bd_handle = 1, bd_offset = 0, bd_count = 0x4000, bd_stride = 1\<rparr>, - EINVAL)]"

definition strela_binding_check_test :: bool where
  "strela_binding_check_test \<longleftrightarrow>
     list_all (\<lambda>(_, obj_size, b, expected). strela_binding_check obj_size b = expected) strela_binding_cases"

section \<open>What the check means\<close>

text \<open>The same condition without words: no product or sum can wrap.\<close>

definition binding_fits :: "nat \<Rightarrow> drm_strela_strided_binding \<Rightarrow> bool" where
  "binding_fits obj_size b \<longleftrightarrow>
     (let stride = max (unat (bd_stride b)) 1; span = unat (bd_count b) * stride * 4 in
      span \<le> 65535 \<and> (unat (bd_count b) = 0 \<or> stride * 4 \<le> 65535) \<and> unat (bd_offset b) * 4 + span \<le> obj_size)"

lemma unat_ucast_64 [simp]: "unat (ucast (x :: u32) :: u64) = unat x"
proof -
  have "unat x < 2 ^ 64" using unat_less_32[of x] by (simp del: unat_less_32)
  then show ?thesis by (simp add: unsigned_ucast_eq take_bit_nat_eq_self)
qed

lemma unat_mult_64: "unat a * unat b < 18446744073709551616 \<Longrightarrow> unat (a * b) = unat a * unat (b :: u64)"
  by (simp add: unat_mult_lem[THEN iffD1])

lemma unat_add_64: "unat a + unat b < 18446744073709551616 \<Longrightarrow> unat (a + b) = unat a + unat (b :: u64)"
  by (simp add: unat_add_lem[THEN iffD1])

lemma unat_max: "unat (max a b) = max (unat a) (unat (b :: u32))"
  by (simp add: max_def word_le_nat_alt)

lemma binding_check_cases: "strela_binding_check sz b = 0 \<or> strela_binding_check sz b = - EINVAL"
  by (simp add: strela_binding_check_def Let_def)

lemma binding_check_iff: "strela_binding_check sz b = 0 \<longleftrightarrow> binding_fits (unat sz) b"
proof -
  define c ofs s where "c = unat (bd_count b)" and "ofs = unat (bd_offset b)" and "s = max (unat (bd_stride b)) 1"
  let ?s = "ucast (max (bd_stride b) 1) :: u64" and ?c = "ucast (bd_count b) :: u64" and ?o = "ucast (bd_offset b) :: u64"
  have lt: "c < 4294967296" "ofs < 4294967296" "s < 4294967296" by (simp_all add: c_def ofs_def s_def)
  have u: "unat ?s = s" "unat ?c = c" "unat ?o = ofs" by (simp_all add: c_def ofs_def s_def unat_max)
  have u4: "unat (?s * 4) = s * 4" "unat (?o * 4) = ofs * 4" using lt u by (simp_all add: unat_mult_64)
  have c0: "bd_count b = 0 \<longleftrightarrow> c = 0" by (simp add: c_def unat_eq_0)
  have mx: "unat STRELA_MAX_COLUMN_BYTES = 65535" by (simp add: STRELA_MAX_COLUMN_BYTES_def)
  have e: "EINVAL \<noteq> 0" by (simp add: errnos)
  show ?thesis
  proof (cases "c \<noteq> 0 \<and> 65535 < s * 4")
    case True
    then have "STRELA_MAX_COLUMN_BYTES < ?s * 4" "\<not> binding_fits (unat sz) b"
      using u4 mx by (simp_all add: word_less_nat_alt binding_fits_def Let_def c_def s_def)
    then show ?thesis using True c0 e by (simp add: strela_binding_check_def Let_def)
  next
    case False
    have small: "c * s < 281474976710656"
    proof (cases "c = 0")
      case False
      then have "s \<le> 65536" using \<open>\<not> (c \<noteq> 0 \<and> 65535 < s * 4)\<close> by simp
      then show ?thesis using lt(1) mult_less_le_imp_less[of c 4294967296 s 65536] s_def by simp
    qed simp
    then have "unat (?c * ?s) = c * s" using u by (simp add: unat_mult_64)
    then have us: "unat (?c * ?s * 4) = c * s * 4" using small by (simp add: unat_mult_64)
    then have ue: "unat (?o * 4 + ?c * ?s * 4) = ofs * 4 + c * s * 4" using u4 lt small by (simp add: unat_add_64)
    have g: "STRELA_MAX_COLUMN_BYTES < ?c * ?s * 4 \<longleftrightarrow> 65535 < c * s * 4"
      "sz < ?o * 4 + ?c * ?s * 4 \<longleftrightarrow> unat sz < ofs * 4 + c * s * 4"
      "STRELA_MAX_COLUMN_BYTES < ?s * 4 \<longleftrightarrow> 65535 < s * 4"
      using us ue u4 mx by (simp_all add: word_less_nat_alt)
    show ?thesis using False e unfolding strela_binding_check_def binding_fits_def Let_def g c0
      c_def[symmetric] ofs_def[symmetric] s_def[symmetric] by auto
  qed
qed

section \<open>Properties\<close>

text \<open>C25. \<^verbatim>\<open>strela_binding_check\<close> accepts a binding exactly when, over unbounded integers, its bytes lie
  inside the object and both its span and (unless it is empty) its stride fit 16 bits: no choice
  of offset, count and stride makes the 64-bit arithmetic of the check wrap into acceptance.\<close>

theorem strela_binding_check_exact:
  "(strela_binding_check sz b = 0 \<longleftrightarrow> binding_fits (unat sz) b)
   \<and> (strela_binding_check sz b \<noteq> 0 \<longleftrightarrow> strela_binding_check sz b = - EINVAL)"
proof -
  have "- EINVAL \<noteq> 0" by (simp add: errnos)
  then show ?thesis using binding_check_iff[of sz b] binding_check_cases[of sz b] by auto
qed

text \<open>The driver's own unit test passes: every row of its table has the expected result.\<close>

theorem strela_binding_kunit: strela_binding_check_test
  by code_simp

text \<open>Every word an accepted binding can address is inside the object.\<close>

lemma binding_fits_words:
  assumes "binding_fits sz b" "i < unat (bd_count b)"
  shows "(unat (bd_offset b) + i * unat (bd_stride b)) * 4 + 4 \<le> sz"
proof -
  let ?s = "max (unat (bd_stride b)) 1" and ?c = "unat (bd_count b)"
  have "unat (bd_offset b) * 4 + ?c * ?s * 4 \<le> sz" using assms(1) by (simp add: binding_fits_def Let_def)
  moreover have "i * unat (bd_stride b) + 1 \<le> ?c * ?s"
  proof -
    have "i * unat (bd_stride b) + 1 \<le> i * ?s + ?s" by (intro add_mono mult_le_mono) auto
    also have "\<dots> = (i + 1) * ?s" by simp
    also have "\<dots> \<le> ?c * ?s" using assms(2) by (intro mult_le_mono) auto
    finally show ?thesis .
  qed
  ultimately show ?thesis by (simp add: algebra_simps)
qed

lemma small_take_bit: "unat (x :: u32) \<le> 65535 \<Longrightarrow> take_bit 16 x = x"
  by (simp add: word_unat_eq_iff unsigned_take_bit_eq take_bit_nat_eq_self)

lemma pack_halves:
  assumes "take_bit 16 a = a" "take_bit 16 b = (b :: u32)"
  shows "drop_bit 16 (push_bit 16 a OR b) = a" "take_bit 16 (push_bit 16 a OR b) = b"
proof -
  have ba: "bit a n \<Longrightarrow> n < 16" for n using assms(1) by (metis bit_take_bit_iff)
  have bb: "bit b n \<Longrightarrow> n < 16" for n using assms(2) by (metis bit_take_bit_iff)
  show "drop_bit 16 (push_bit 16 a OR b) = a"
    by (rule bit_word_eqI) (use bb ba in \<open>auto simp: bit_simps\<close>)
  show "take_bit 16 (push_bit 16 a OR b) = b"
    by (rule bit_word_eqI) (use bb in \<open>auto simp: bit_simps\<close>)
qed

lemma input_size_fields:
  assumes "strela_binding_check sz b = 0" "bd_count b \<noteq> 0"
  shows "unat (drop_bit 16 (strela_input_size (bd_count b) (bd_stride b))) = unat (bd_stride b) * 4"
    "unat (take_bit 16 (strela_input_size (bd_count b) (bd_stride b)))
        = unat (bd_count b) * max (unat (bd_stride b)) 1 * 4"
proof -
  let ?s = "max (unat (bd_stride b)) 1" and ?c = "unat (bd_count b)"
  have f: "?c * ?s * 4 \<le> 65535" "?s * 4 \<le> 65535"
    using assms by (auto simp: binding_check_iff binding_fits_def Let_def unat_eq_0)
  have hi: "unat (bd_stride b * 4) = unat (bd_stride b) * 4"
    using f(2) by (subst unat_mult_nowrap) auto
  have "unat (max (bd_stride b) 1 * bd_count b) = ?s * ?c"
    using f(1) by (subst unat_mult_nowrap) (auto simp: unat_max algebra_simps)
  then have lo: "unat (max (bd_stride b) 1 * bd_count b * 4) = ?c * ?s * 4"
    using f(1) unat_mult_nowrap[of "max (bd_stride b) 1 * bd_count b" 4] by (simp add: mult.commute)
  have "unat (bd_stride b) * 4 \<le> 65535" using f(2) by auto
  then show "unat (drop_bit 16 (strela_input_size (bd_count b) (bd_stride b))) = unat (bd_stride b) * 4"
    "unat (take_bit 16 (strela_input_size (bd_count b) (bd_stride b)))
        = unat (bd_count b) * max (unat (bd_stride b)) 1 * 4"
    using pack_halves[OF small_take_bit small_take_bit, of "bd_stride b * 4" "max (bd_stride b) 1 * bd_count b * 4"]
      hi lo f(1) by (simp_all add: strela_input_size_def)
qed

text \<open>C26. For an accepted input binding that moves data, the packed size register decodes to exactly the
  stride in bytes (high half) and the number of bytes spanned (low half): neither field spills
  into the other.  This is what the check's 16-bit limits are for.\<close>

theorem strela_input_size_decodes:
  assumes "strela_binding_check sz b = 0" "bd_count b \<noteq> 0"
  shows "unat (drop_bit 16 (strela_input_size (bd_count b) (bd_stride b))) = unat (bd_stride b) * 4
    \<and> unat (take_bit 16 (strela_input_size (bd_count b) (bd_stride b)))
        = unat (bd_count b) * max (unat (bd_stride b)) 1 * 4"
  using input_size_fields[OF assms] by simp

theorem strela_input_size_decodes_witness:
  "strela_binding_check 0x10000 \<lparr>bd_handle = 1, bd_offset = 0, bd_count = 100, bd_stride = 3\<rparr> = 0
   \<and> unat (drop_bit 16 (strela_input_size 100 3)) = 12 \<and> unat (take_bit 16 (strela_input_size 100 3)) = 1200"
proof -
  let ?b = "\<lparr>bd_handle = 1, bd_offset = 0, bd_count = 100, bd_stride = 3\<rparr>"
  have "strela_binding_check 0x10000 ?b = 0" by code_simp
  then show ?thesis using strela_input_size_decodes[of "0x10000" ?b] by simp
qed

end
