(* ===== verification/Device.thy ===== *)
theory Device
  imports Binding
begin

text \<open>
  The driver's device (\<^verbatim>\<open>src/driver/strela_device.h\<close>, \<^verbatim>\<open>strela_job.h\<close>, \<^verbatim>\<open>strela_registers.h\<close>) and the register
  programming of \<^verbatim>\<open>strela_core.c\<close>.

  What the driver does to the rest of the kernel and to the hardware is the sequence of calls it
  makes: register writes, fence, buffer-object and scheduler calls.  The model records them in
  order.  What those calls return is an input of the operations that make them.  Pointers to jobs,
  fences and buffer objects are numbers; \<^verbatim>\<open>sd_jobs\<close> says which jobs are allocated.
\<close>

section \<open>Registers\<close>

definition STRELA_CMD_START_EXEC :: u32 where "STRELA_CMD_START_EXEC = 1"
definition STRELA_CMD_CLEAR_STATE :: u32 where "STRELA_CMD_CLEAR_STATE = 2"
definition STRELA_CMD_LOAD_CONFIG :: u32 where "STRELA_CMD_LOAD_CONFIG = 4"
definition STRELA_CMD_CLEAR_CONFIG :: u32 where "STRELA_CMD_CLEAR_CONFIG = 8"
definition STRELA_CMD_CLEAR_INT_CONFIG :: u32 where "STRELA_CMD_CLEAR_INT_CONFIG = 16"
definition STRELA_CMD_CLEAR_INT_EXEC :: u32 where "STRELA_CMD_CLEAR_INT_EXEC = 32"
definition STRELA_CMD_PENDING_INT_CONFIG :: u32 where "STRELA_CMD_PENDING_INT_CONFIG = 4"
definition STRELA_CMD_PENDING_INT_EXEC :: u32 where "STRELA_CMD_PENDING_INT_EXEC = 8"
definition STRELA_REG_CTRL :: u32 where "STRELA_REG_CTRL = 0x00"
definition STRELA_REG_OUT_ARB_HOLD :: u32 where "STRELA_REG_OUT_ARB_HOLD = 0xA0"
definition STRELA_OUT_ARB_HOLD_ENABLE :: u32 where "STRELA_OUT_ARB_HOLD_ENABLE = 1"
definition STRELA_REG_OPA :: u32 where "STRELA_REG_OPA = 0xF0"
definition STRELA_REG_OPB :: u32 where "STRELA_REG_OPB = 0xF4"
definition STRELA_REG_RESET_DMA :: u32 where "STRELA_REG_RESET_DMA = 0xF8"
definition STRELA_RESET_DMA_PULSE :: u32 where "STRELA_RESET_DMA_PULSE = 1"

lemmas strela_regs = STRELA_CMD_START_EXEC_def STRELA_CMD_CLEAR_STATE_def STRELA_CMD_LOAD_CONFIG_def
  STRELA_CMD_CLEAR_CONFIG_def STRELA_CMD_CLEAR_INT_CONFIG_def STRELA_CMD_CLEAR_INT_EXEC_def
  STRELA_CMD_PENDING_INT_CONFIG_def STRELA_CMD_PENDING_INT_EXEC_def STRELA_REG_CTRL_def
  STRELA_REG_OUT_ARB_HOLD_def STRELA_OUT_ARB_HOLD_ENABLE_def STRELA_REG_OPA_def STRELA_REG_OPB_def
  STRELA_REG_RESET_DMA_def STRELA_RESET_DMA_PULSE_def

text \<open>The address and size register of a column.\<close>

record strela_binding_regs =
  regs_addr :: u32
  regs_size :: u32

definition conf_regs :: strela_binding_regs where
  "conf_regs = \<lparr>regs_addr = 0x04, regs_size = 0x08\<rparr>"

definition inp_regs :: "strela_binding_regs list" where
  "inp_regs = [\<lparr>regs_addr = 0x10, regs_size = 0x14\<rparr>, \<lparr>regs_addr = 0x18, regs_size = 0x1C\<rparr>,
               \<lparr>regs_addr = 0x20, regs_size = 0x24\<rparr>, \<lparr>regs_addr = 0x28, regs_size = 0x2C\<rparr>]"

definition out_regs :: "strela_binding_regs list" where
  "out_regs = [\<lparr>regs_addr = 0x50, regs_size = 0x54\<rparr>, \<lparr>regs_addr = 0x58, regs_size = 0x5C\<rparr>,
               \<lparr>regs_addr = 0x60, regs_size = 0x64\<rparr>, \<lparr>regs_addr = 0x68, regs_size = 0x6C\<rparr>]"

section \<open>Jobs and the device\<close>

datatype strela_job_phase = STRELA_JOB_PHASE_CONFIG | STRELA_JOB_PHASE_EXEC

text \<open>A buffer object: its size, the address the CGRA uses, and its words as the CPU sees them
  (\<open>None\<close> for a null \<^verbatim>\<open>vaddr\<close>).  Addresses for the device have 32 bits.\<close>

record gem_obj =
  gem_size :: u32
  gem_dma_addr :: u32
  gem_vaddr :: "u32 list option"

record strela_binding =
  bnd_obj :: "nat option"
  bnd_offset :: u32
  bnd_count :: u32

record strela_job =
  job_hw_fence :: nat
  job_config :: strela_binding
  job_inputs :: "strela_binding list"
  job_input_strides :: "u32 list"
  job_outputs :: "strela_binding list"
  job_phase :: strela_job_phase

datatype dma_data_direction = DMA_BIDIRECTIONAL | DMA_TO_DEVICE | DMA_FROM_DEVICE

datatype kcall =
    Writel u32 u32
  | Queue_work | Wake_up | Cancel_work_sync
  | Warn
  | Fence_init nat u64 | Fence_get nat | Fence_put nat | Fence_signal nat | Fence_set_error nat int
  | Gem_lookup nat | Gem_put "nat option"
  | Sched_job_init nat | Sched_add_dependency nat u32 | Sched_job_cleanup nat | Sched_job_arm nat
  | Sched_push_job nat | Sched_stop nat | Sched_start | Sched_fini | Cancel_tdr
  | Syncobj_find nat | Syncobj_replace_fence nat nat | Syncobj_put nat
  | Kfree_job nat
  | Sync_for_cpu u32 u32 dma_data_direction | Sync_for_device u32 u32 dma_data_direction

record strela_device =
  sd_irq_status :: u32
  sd_is_sim :: bool
  sd_sim_abort :: bool
  sd_active :: "nat option"
  sd_fence_seqno :: u64
  sd_jobs :: "nat \<Rightarrow> strela_job option"
  sd_objs :: "nat \<Rightarrow> gem_obj"
  sd_calls :: "kcall list"

definition emit :: "kcall list \<Rightarrow> strela_device \<Rightarrow> strela_device" where
  "emit cs sdev = sdev\<lparr>sd_calls := sd_calls sdev @ cs\<rparr>"

lemma emit_simps [simp]:
  "sd_irq_status (emit cs d) = sd_irq_status d" "sd_is_sim (emit cs d) = sd_is_sim d"
  "sd_sim_abort (emit cs d) = sd_sim_abort d" "sd_active (emit cs d) = sd_active d"
  "sd_fence_seqno (emit cs d) = sd_fence_seqno d" "sd_jobs (emit cs d) = sd_jobs d"
  "sd_objs (emit cs d) = sd_objs d" "sd_calls (emit cs d) = sd_calls d @ cs"
  by (simp_all add: emit_def)

section \<open>Register programming\<close>

text \<open>Called with the device's lock held.\<close>

definition strela_hw_start :: "strela_job_phase \<Rightarrow> strela_device \<Rightarrow> strela_device" where
  "strela_hw_start phase sdev =
     (if sd_is_sim sdev then
        (if phase = STRELA_JOB_PHASE_CONFIG then emit [Queue_work] (sdev\<lparr>sd_sim_abort := False\<rparr>) else sdev)
      else case phase of
        STRELA_JOB_PHASE_CONFIG \<Rightarrow>
          emit [Writel STRELA_REG_CTRL STRELA_CMD_CLEAR_CONFIG,
                Writel STRELA_REG_RESET_DMA STRELA_RESET_DMA_PULSE,
                Writel STRELA_REG_CTRL STRELA_CMD_LOAD_CONFIG] sdev
      | STRELA_JOB_PHASE_EXEC \<Rightarrow>
          emit [Writel STRELA_REG_CTRL STRELA_CMD_CLEAR_STATE,
                Writel STRELA_REG_CTRL STRELA_CMD_START_EXEC] sdev)"

text \<open>
  The byte address of a binding.  A binding of a job always has an object; the pointer is
  dereferenced without a check, so a null one is an oops (\<open>None\<close>).
\<close>

definition strela_binding_addr :: "strela_device \<Rightarrow> strela_binding \<Rightarrow> u32 option" where
  "strela_binding_addr sdev b =
     (case bnd_obj b of None \<Rightarrow> None
      | Some obj \<Rightarrow> Some (gem_dma_addr (sd_objs sdev obj) + bnd_offset b * STRELA_WORD_SIZE32))"

text \<open>The warning about address bits above 32 cannot fire with 32-bit device addresses.\<close>

definition strela_hw_write_binding ::
  "strela_binding \<Rightarrow> strela_binding_regs \<Rightarrow> u32 \<Rightarrow> strela_device \<Rightarrow> strela_device option" where
  "strela_hw_write_binding b regs sz sdev =
     (case strela_binding_addr sdev b of None \<Rightarrow> None
      | Some addr \<Rightarrow> Some (emit [Writel (regs_addr regs) addr, Writel (regs_size regs) sz] sdev))"

primrec hw_program_cols :: "nat list \<Rightarrow> strela_job \<Rightarrow> strela_device \<Rightarrow> strela_device option" where
  "hw_program_cols [] job sdev = Some sdev"
| "hw_program_cols (i # is) job sdev = do {
     sdev \<leftarrow> strela_hw_write_binding (job_inputs job ! i) (inp_regs ! i)
               (strela_input_size (bnd_count (job_inputs job ! i)) (job_input_strides job ! i)) sdev;
     sdev \<leftarrow> strela_hw_write_binding (job_outputs job ! i) (out_regs ! i)
               (bnd_count (job_outputs job ! i) * STRELA_WORD_SIZE32) sdev;
     hw_program_cols is job sdev
   }"

definition strela_hw_program :: "strela_job \<Rightarrow> strela_device \<Rightarrow> strela_device option" where
  "strela_hw_program job sdev =
     (if sd_is_sim sdev then Some sdev
      else do {
        sdev \<leftarrow> strela_hw_write_binding (job_config job) conf_regs
                  (bnd_count (job_config job) * STRELA_WORD_SIZE32) sdev;
        sdev \<leftarrow> hw_program_cols [0..<STRELA_NUM_IO_COLS] job sdev;
        Some (emit [Writel STRELA_REG_OUT_ARB_HOLD STRELA_OUT_ARB_HOLD_ENABLE] sdev)
      })"

text \<open>\<^verbatim>\<open>cancel_work_sync\<close> waits for the simulated device's worker: see the step relation in \<^verbatim>\<open>Machine\<close>.\<close>

definition strela_hw_stop :: "strela_device \<Rightarrow> strela_device" where
  "strela_hw_stop sdev =
     (let sdev = (if sd_active sdev \<noteq> None then emit [Warn] sdev else sdev) in
      if sd_is_sim sdev then emit [Wake_up, Cancel_work_sync] (sdev\<lparr>sd_sim_abort := True\<rparr>)
      else emit [Writel STRELA_REG_CTRL STRELA_CMD_CLEAR_CONFIG,
                 Writel STRELA_REG_RESET_DMA STRELA_RESET_DMA_PULSE,
                 Writel STRELA_REG_CTRL STRELA_CMD_CLEAR_STATE] sdev)"

section \<open>Setup\<close>

text \<open>
  The adder challenge: two random operands are written and their sum is read back.  Mapping the
  registers, the result of the read and the interrupt are inputs; errors are negative.
\<close>

record hw_setup_env =
  env_ioremap :: int
  env_rand_a :: u32
  env_rand_b :: u32
  env_read_opr :: "u32 \<Rightarrow> u32 \<Rightarrow> u32"
  env_get_irq :: int
  env_request_irq :: int

definition strela_hw_setup :: "hw_setup_env \<Rightarrow> strela_device \<Rightarrow> strela_device \<times> int" where
  "strela_hw_setup env sdev =
     (if sd_is_sim sdev then (sdev, 0)
      else if env_ioremap env < 0 then (sdev, env_ioremap env)
      else (let a = env_rand_a env; b = env_rand_b env;
                sdev = emit [Writel STRELA_REG_OPA a, Writel STRELA_REG_OPB b] sdev
            in if env_read_opr env a b \<noteq> a + b then (sdev, - EIO)
               else if env_get_irq env < 0 then (sdev, env_get_irq env)
               else if env_request_irq env \<noteq> 0 then (sdev, env_request_irq env)
               else (sdev, 0)))"

end
