(* ===== verification/Job.thy ===== *)
theory Job
  imports Device
begin

text \<open>
  Jobs (\<^verbatim>\<open>src/driver/strela_job.c\<close>): validating a submit and handing it to the scheduler, the callbacks
  the scheduler makes, and the completion of a phase.  The scheduler itself is not part of the
  driver: \<^verbatim>\<open>Machine\<close> says what it may call and when.
\<close>

section \<open>Completion\<close>

text \<open>The whole body runs under the device's lock, so it is one step.  As in all operations of this
  theory, using a job that is not allocated is a use after free (\<open>None\<close>).\<close>

definition strela_job_phase_done :: "strela_job_phase \<Rightarrow> strela_device \<Rightarrow> strela_device option" where
  "strela_job_phase_done finished_phase sdev =
     (case sd_active sdev of None \<Rightarrow> Some sdev
      | Some j \<Rightarrow>
          (case sd_jobs sdev j of None \<Rightarrow> None
           | Some job \<Rightarrow>
               Some (if job_phase job \<noteq> finished_phase then sdev
                     else (case finished_phase of
                       STRELA_JOB_PHASE_CONFIG \<Rightarrow>
                         strela_hw_start STRELA_JOB_PHASE_EXEC
                           (sdev\<lparr>sd_jobs := (sd_jobs sdev)(j \<mapsto> job\<lparr>job_phase := STRELA_JOB_PHASE_EXEC\<rparr>)\<rparr>)
                     | STRELA_JOB_PHASE_EXEC \<Rightarrow>
                         (emit [Fence_signal (job_hw_fence job)] sdev)\<lparr>sd_active := None\<rparr>))))"

text \<open>The two halves of the interrupt: the handler reads the status, acknowledges and wakes the thread.\<close>

datatype irqreturn = IRQ_NONE | IRQ_WAKE_THREAD | IRQ_HANDLED

definition strela_irq_handler :: "u32 \<Rightarrow> strela_device \<Rightarrow> strela_device \<times> irqreturn" where
  "strela_irq_handler status sdev =
     (if status AND STRELA_CMD_PENDING_INT_CONFIG \<noteq> 0 then
        ((emit [Writel STRELA_REG_CTRL STRELA_CMD_CLEAR_INT_CONFIG] sdev)\<lparr>sd_irq_status := status\<rparr>, IRQ_WAKE_THREAD)
      else if status AND STRELA_CMD_PENDING_INT_EXEC \<noteq> 0 then
        ((emit [Writel STRELA_REG_CTRL STRELA_CMD_CLEAR_INT_EXEC] sdev)\<lparr>sd_irq_status := status\<rparr>, IRQ_WAKE_THREAD)
      else (sdev, IRQ_NONE))"

definition strela_irq_thread_fn :: "strela_device \<Rightarrow> (strela_device \<times> irqreturn) option" where
  "strela_irq_thread_fn sdev =
     (let status = sd_irq_status sdev; sdev = sdev\<lparr>sd_irq_status := 0\<rparr> in
      if status AND STRELA_CMD_PENDING_INT_CONFIG \<noteq> 0 then
        map_option (\<lambda>sdev. (sdev, IRQ_HANDLED)) (strela_job_phase_done STRELA_JOB_PHASE_CONFIG sdev)
      else if status AND STRELA_CMD_PENDING_INT_EXEC \<noteq> 0 then
        map_option (\<lambda>sdev. (sdev, IRQ_HANDLED)) (strela_job_phase_done STRELA_JOB_PHASE_EXEC sdev)
      else Some (sdev, IRQ_NONE))"

section \<open>The scheduler's callbacks\<close>

definition put_bindings_calls :: "strela_job \<Rightarrow> kcall list" where
  "put_bindings_calls job = Gem_put (bnd_obj (job_config job))
     # concat (map (\<lambda>i. [Gem_put (bnd_obj (job_inputs job ! i)), Gem_put (bnd_obj (job_outputs job ! i))])
                   [0..<STRELA_NUM_IO_COLS])"

definition strela_job_put_bindings :: "strela_job \<Rightarrow> strela_device \<Rightarrow> strela_device" where
  "strela_job_put_bindings job sdev = emit (put_bindings_calls job) sdev"

definition strela_run_job :: "nat \<Rightarrow> strela_device \<Rightarrow> (strela_device \<times> nat) option" where
  "strela_run_job j sdev =
     (case sd_jobs sdev j of None \<Rightarrow> None
      | Some job \<Rightarrow> do {
          let sdev = (if sd_active sdev \<noteq> None then emit [Warn] sdev else sdev);
          let job = job\<lparr>job_phase := STRELA_JOB_PHASE_CONFIG\<rparr>;
          let sdev = sdev\<lparr>sd_jobs := (sd_jobs sdev)(j \<mapsto> job), sd_active := Some j\<rparr>;
          sdev \<leftarrow> strela_hw_program job sdev;
          let sdev = strela_hw_start STRELA_JOB_PHASE_CONFIG sdev;
          Some (emit [Fence_get (job_hw_fence job)] sdev, job_hw_fence job)
        })"

text \<open>The locked part of \<^verbatim>\<open>strela_job_abort\<close>; \<^verbatim>\<open>strela_hw_stop\<close> follows without the lock.\<close>

definition abort_locked :: "strela_device \<Rightarrow> strela_device" where
  "abort_locked sdev = sdev\<lparr>sd_active := None\<rparr>"

definition strela_job_abort :: "strela_device \<Rightarrow> strela_device" where
  "strela_job_abort sdev = strela_hw_stop (abort_locked sdev)"

definition strela_timedout_job :: "nat \<Rightarrow> strela_device \<Rightarrow> strela_device" where
  "strela_timedout_job j sdev = emit [Sched_start] (strela_job_abort (emit [Sched_stop j] sdev))"

definition strela_free_job :: "nat \<Rightarrow> strela_device \<Rightarrow> strela_device option" where
  "strela_free_job j sdev =
     (case sd_jobs sdev j of None \<Rightarrow> None
      | Some job \<Rightarrow>
          let sdev = emit [Sched_job_cleanup j] sdev;
              sdev = strela_job_put_bindings job sdev;
              sdev = emit [Fence_put (job_hw_fence job), Kfree_job j] sdev
          in Some (sdev\<lparr>sd_jobs := (sd_jobs sdev)(j := None)\<rparr>))"

text \<open>Has a hardware fence been signalled?\<close>

definition signaled :: "strela_device \<Rightarrow> nat \<Rightarrow> bool" where
  "signaled sdev f \<longleftrightarrow> Fence_signal f \<in> set (sd_calls sdev)"

text \<open>Removal: what is left on the scheduler's pending list is failed, unless it finished, and freed.\<close>

primrec fini_pending :: "nat list \<Rightarrow> strela_device \<Rightarrow> strela_device option" where
  "fini_pending [] sdev = Some sdev"
| "fini_pending (j # js) sdev =
     (case sd_jobs sdev j of None \<Rightarrow> None
      | Some job \<Rightarrow>
          let sdev = (if signaled sdev (job_hw_fence job) then sdev
                      else emit [Fence_set_error (job_hw_fence job) (- ENODEV), Fence_signal (job_hw_fence job)] sdev)
          in Option.bind (strela_free_job j sdev) (fini_pending js))"

definition strela_job_fini :: "nat list \<Rightarrow> strela_device \<Rightarrow> strela_device option" where
  "strela_job_fini pending sdev = fini_pending pending (strela_job_abort (emit [Cancel_tdr, Sched_fini] sdev))"

section \<open>Submitting\<close>

text \<open>
  What the kernel answers during a submit: the two allocations, the scheduler's job and dependency
  setup, and the client's handle tables for buffer objects and sync objects.
\<close>

record submit_env =
  env_job :: "nat option"
  env_fence :: "nat option"
  env_sched_job_init :: int
  env_add_dependency :: int
  env_gem_lookup :: "u32 \<Rightarrow> nat option"
  env_syncobj_find :: "u32 \<Rightarrow> nat option"

text \<open>The binding that a zeroed job has.\<close>

definition null_binding :: strela_binding where
  "null_binding = \<lparr>bnd_obj = None, bnd_offset = 0, bnd_count = 0\<rparr>"

definition zeroed_job :: "nat \<Rightarrow> strela_job" where
  "zeroed_job f = \<lparr>job_hw_fence = f, job_config = null_binding,
     job_inputs = replicate STRELA_NUM_IO_COLS null_binding,
     job_input_strides = replicate STRELA_NUM_IO_COLS 0,
     job_outputs = replicate STRELA_NUM_IO_COLS null_binding,
     job_phase = STRELA_JOB_PHASE_CONFIG\<rparr>"

definition strela_strided_binding_get ::
  "submit_env \<Rightarrow> drm_strela_strided_binding \<Rightarrow> strela_binding \<Rightarrow> strela_device \<Rightarrow> strela_device \<times> strela_binding \<times> int" where
  "strela_strided_binding_get env src dst sdev =
     (case env_gem_lookup env (bd_handle src) of None \<Rightarrow> (sdev, dst, - ENOENT)
      | Some obj \<Rightarrow>
          let sdev = emit [Gem_lookup obj] sdev;
              ret = strela_binding_check (ucast (gem_size (sd_objs sdev obj))) src
          in if ret \<noteq> 0 then (emit [Gem_put (Some obj)] sdev, dst, ret)
             else (sdev, \<lparr>bnd_obj = Some obj, bnd_offset = bd_offset src, bnd_count = bd_count src\<rparr>, 0))"

definition strela_binding_get ::
  "submit_env \<Rightarrow> drm_strela_binding \<Rightarrow> strela_binding \<Rightarrow> strela_device \<Rightarrow> strela_device \<times> strela_binding \<times> int" where
  "strela_binding_get env src dst sdev =
     strela_strided_binding_get env
       \<lparr>bd_handle = bd_handle src, bd_offset = bd_offset src, bd_count = bd_count src, bd_stride = 1\<rparr> dst sdev"

text \<open>One column: its input, then its output.  An error leaves the job as filled so far.\<close>

definition submit_col ::
  "submit_env \<Rightarrow> drm_strela_submit \<Rightarrow> nat \<Rightarrow> strela_job \<Rightarrow> strela_device \<Rightarrow> strela_device \<times> strela_job \<times> int" where
  "submit_col env args i job sdev =
     (let (sdev, b, ret) = strela_strided_binding_get env (sub_inputs args ! i) (job_inputs job ! i) sdev;
          job = job\<lparr>job_inputs := (job_inputs job)[i := b]\<rparr>
      in if ret \<noteq> 0 then (sdev, job, ret)
         else
           let job = job\<lparr>job_input_strides := (job_input_strides job)[i := bd_stride (sub_inputs args ! i)]\<rparr>;
               (sdev, b, ret) = strela_binding_get env (sub_outputs args ! i) (job_outputs job ! i) sdev
           in (sdev, job\<lparr>job_outputs := (job_outputs job)[i := b]\<rparr>, ret))"

text \<open>The loop over the columns stops at the first error.\<close>

primrec submit_cols ::
  "submit_env \<Rightarrow> drm_strela_submit \<Rightarrow> nat list \<Rightarrow> strela_job \<Rightarrow> strela_device \<Rightarrow> strela_device \<times> strela_job \<times> int" where
  "submit_cols env args [] job sdev = (sdev, job, 0)"
| "submit_cols env args (i # is) job sdev =
     (let (sdev, job, ret) = submit_col env args i job sdev
      in if ret \<noteq> 0 then (sdev, job, ret) else submit_cols env args is job sdev)"

text \<open>From the dependency to the sync object: everything whose failure goes to \<^verbatim>\<open>err_cleanup\<close>.\<close>

definition submit_resolve ::
  "submit_env \<Rightarrow> drm_strela_submit \<Rightarrow> nat \<Rightarrow> strela_job \<Rightarrow> strela_device \<Rightarrow> strela_device \<times> strela_job \<times> nat option \<times> int" where
  "submit_resolve env args j job sdev =
     (let (sdev, ret) =
        (if sub_flags args AND DRM_STRELA_SUBMIT_WAIT_SYNCOBJ \<noteq> 0
         then (emit [Sched_add_dependency j (sub_in_syncobj args)] sdev, env_add_dependency env)
         else (sdev, 0))
      in if ret \<noteq> 0 then (sdev, job, None, ret)
         else
           let (sdev, b, ret) = strela_binding_get env (sub_config args) (job_config job) sdev;
               job = job\<lparr>job_config := b\<rparr>
           in if ret \<noteq> 0 then (sdev, job, None, ret)
              else
                let (sdev, job, ret) = submit_cols env args [0..<STRELA_NUM_IO_COLS] job sdev
                in if ret \<noteq> 0 then (sdev, job, None, ret)
                   else (case env_syncobj_find env (sub_out_syncobj args) of
                           None \<Rightarrow> (sdev, job, None, - ENOENT)
                         | Some so \<Rightarrow> (emit [Syncobj_find so] sdev, job, Some so, 0)))"

definition strela_submit_ioctl :: "submit_env \<Rightarrow> drm_strela_submit \<Rightarrow> strela_device \<Rightarrow> strela_device \<times> int" where
  "strela_submit_ioctl env args sdev =
     (if sub_flags args AND NOT DRM_STRELA_SUBMIT_WAIT_SYNCOBJ \<noteq> 0 \<or> sub_pad args \<noteq> 0 then (sdev, - EINVAL)
      else case env_job env of None \<Rightarrow> (sdev, - ENOMEM)
      | Some j \<Rightarrow> (case env_fence env of None \<Rightarrow> (emit [Kfree_job j] sdev, - ENOMEM)
        | Some f \<Rightarrow>
            let sdev = sdev\<lparr>sd_fence_seqno := sd_fence_seqno sdev + 1\<rparr>;
                sdev = emit [Fence_init f (sd_fence_seqno sdev)] sdev
            in if env_sched_job_init env \<noteq> 0 then (emit [Fence_put f, Kfree_job j] sdev, env_sched_job_init env)
               else
                 let sdev = emit [Sched_job_init j] sdev;
                     (sdev, job, so, ret) = submit_resolve env args j (zeroed_job f) sdev
                 in if ret \<noteq> 0 then
                      (emit [Fence_put f, Kfree_job j]
                         (strela_job_put_bindings job (emit [Sched_job_cleanup j] sdev)), ret)
                    else
                      (emit [Sched_job_arm j, Syncobj_replace_fence (the so) j, Syncobj_put (the so), Sched_push_job j]
                         (sdev\<lparr>sd_jobs := (sd_jobs sdev)(j \<mapsto> job)\<rparr>), 0)))"

end
