(* ===== verification/Submit.thy ===== *)
theory Submit
  imports Job
begin

text \<open>
  What a submit leaves behind.  References are counted over the recorded calls: a lookup takes one
  on the object it returns, a put drops one.  A failed submit has dropped everything it took; a
  successful one holds exactly one reference per binding of the job, and every binding is inside
  its object.
\<close>

section \<open>Counting references\<close>

definition gem_refs :: "kcall list \<Rightarrow> nat \<Rightarrow> int" where
  "gem_refs cs x = int (count_list cs (Gem_lookup x)) - int (count_list cs (Gem_put (Some x)))"

text \<open>References to a fence: one from its initialisation, one per get, minus the puts.\<close>

primrec fence_refs :: "kcall list \<Rightarrow> nat \<Rightarrow> int" where
  "fence_refs [] f = 0"
| "fence_refs (c # cs) f = fence_refs cs f +
     (case c of Fence_init g _ \<Rightarrow> of_bool (g = f) | Fence_get g \<Rightarrow> of_bool (g = f)
      | Fence_put g \<Rightarrow> - of_bool (g = f) | _ \<Rightarrow> 0)"

lemma gem_refs_append [simp]: "gem_refs (xs @ ys) x = gem_refs xs x + gem_refs ys x"
  by (simp add: gem_refs_def)

lemma gem_refs_simps [simp]:
  "gem_refs [] x = 0"
  "gem_refs (Gem_lookup y # cs) x = of_bool (y = x) + gem_refs cs x"
  "gem_refs (Gem_put z # cs) x = gem_refs cs x - of_bool (z = Some x)"
  by (auto simp: gem_refs_def)

lemma gem_refs_other:
  "(\<And>y. c \<noteq> Gem_lookup y) \<Longrightarrow> (\<And>z. c \<noteq> Gem_put z) \<Longrightarrow> gem_refs (c # cs) x = gem_refs cs x"
  by (simp add: gem_refs_def)

lemma fence_refs_append [simp]: "fence_refs (xs @ ys) f = fence_refs xs f + fence_refs ys f"
  by (induction xs) auto

text \<open>The objects of a job's nine bindings, null for those not yet resolved.\<close>

definition job_objs :: "strela_job \<Rightarrow> nat option list" where
  "job_objs job = bnd_obj (job_config job) # map bnd_obj (job_inputs job) @ map bnd_obj (job_outputs job)"

definition job_shape :: "strela_job \<Rightarrow> bool" where
  "job_shape job \<longleftrightarrow> length (job_inputs job) = STRELA_NUM_IO_COLS \<and> length (job_outputs job) = STRELA_NUM_IO_COLS
     \<and> length (job_input_strides job) = STRELA_NUM_IO_COLS"

lemma list4: "length xs = 4 \<Longrightarrow> xs = [xs ! 0, xs ! 1, xs ! 2, xs ! 3]"
  by (auto simp: numeral_eq_Suc length_Suc_conv)

lemma put_bindings_refs:
  assumes "job_shape job"
  shows "gem_refs (put_bindings_calls job) x = - int (count_list (job_objs job) (Some x))"
    "fence_refs (put_bindings_calls job) f = 0"
proof -
  have u: "[0..<4] = [0, 1, 2, 3 :: nat]" by (simp add: upt_rec)
  have i: "map bnd_obj (job_inputs job) = map bnd_obj [job_inputs job ! 0, job_inputs job ! 1, job_inputs job ! 2, job_inputs job ! 3]"
    and o': "map bnd_obj (job_outputs job) = map bnd_obj [job_outputs job ! 0, job_outputs job ! 1, job_outputs job ! 2, job_outputs job ! 3]"
    using assms list4 by (metis job_shape_def STRELA_NUM_IO_COLS_def)+
  show "gem_refs (put_bindings_calls job) x = - int (count_list (job_objs job) (Some x))"
    unfolding job_objs_def i o' by (simp add: put_bindings_calls_def STRELA_NUM_IO_COLS_def u)
  show "fence_refs (put_bindings_calls job) f = 0"
    by (simp add: put_bindings_calls_def STRELA_NUM_IO_COLS_def u)
qed

lemma count_list_update_None:
  assumes "i < length xs" "bnd_obj (xs ! i) = None"
  shows "count_list (map bnd_obj (xs[i := b])) (Some x) =
    count_list (map bnd_obj xs) (Some x) + of_bool (bnd_obj b = Some x)"
  using assms
proof (induction xs arbitrary: i)
  case (Cons y xs)
  then show ?case by (cases i) auto
qed simp

section \<open>Resolving bindings\<close>

fun gem_call :: "kcall \<Rightarrow> bool" where
  "gem_call (Gem_lookup _) = True"
| "gem_call (Gem_put _) = True"
| "gem_call _ = False"

lemma gem_calls_fence_refs: "list_all gem_call cs \<Longrightarrow> fence_refs cs f = 0"
proof (induction cs)
  case (Cons c cs)
  then show ?case by (cases c) auto
qed simp

text \<open>A resolved binding: it names the object its handle stood for, and lies inside it.\<close>

definition bound :: "submit_env \<Rightarrow> (nat \<Rightarrow> gem_obj) \<Rightarrow> drm_strela_strided_binding \<Rightarrow> strela_binding \<Rightarrow> bool" where
  "bound env objs src b \<longleftrightarrow> (\<exists>x. env_gem_lookup env (bd_handle src) = Some x
     \<and> b = \<lparr>bnd_obj = Some x, bnd_offset = bd_offset src, bnd_count = bd_count src\<rparr>
     \<and> binding_fits (unat (gem_size (objs x))) src)"

definition unstrided :: "drm_strela_binding \<Rightarrow> drm_strela_strided_binding" where
  "unstrided src = \<lparr>bd_handle = bd_handle src, bd_offset = bd_offset src, bd_count = bd_count src, bd_stride = 1\<rparr>"

lemma strela_binding_get_alt:
  "strela_binding_get env src dst d = strela_strided_binding_get env (unstrided src) dst d"
  by (simp add: strela_binding_get_def unstrided_def)

lemma strided_get:
  assumes "strela_strided_binding_get env src dst d = (d', b, ret)"
  obtains cs where "d' = emit cs d" "list_all gem_call cs"
    "ret = 0 \<Longrightarrow> bound env (sd_objs d) src b \<and> (\<forall>x. gem_refs cs x = of_bool (bnd_obj b = Some x))"
    "ret \<noteq> 0 \<Longrightarrow> b = dst \<and> (\<forall>x. gem_refs cs x = 0)"
proof (cases "env_gem_lookup env (bd_handle src)")
  case None
  then have "d' = emit [] d" "b = dst" "ret \<noteq> 0"
    using assms by (auto simp: strela_strided_binding_get_def emit_def errnos)
  then show ?thesis by (intro that[of "[]"]) simp_all
next
  case (Some y)
  let ?chk = "strela_binding_check (ucast (gem_size (sd_objs d y))) src"
  show ?thesis
  proof (cases "?chk = 0")
    case True
    then have r: "d' = emit [Gem_lookup y] d" "ret = 0"
      "b = \<lparr>bnd_obj = Some y, bnd_offset = bd_offset src, bnd_count = bd_count src\<rparr>"
      using assms Some by (auto simp: strela_strided_binding_get_def Let_def)
    moreover have "binding_fits (unat (gem_size (sd_objs d y))) src" using True by (simp add: binding_check_iff)
    ultimately show ?thesis using Some by (intro that[of "[Gem_lookup y]"]) (simp_all add: bound_def)
  next
    case False
    then have r: "d' = emit [Gem_lookup y, Gem_put (Some y)] d" "ret \<noteq> 0" "b = dst"
      using assms Some by (auto simp: strela_strided_binding_get_def Let_def emit_def)
    then show ?thesis by (intro that[of "[Gem_lookup y, Gem_put (Some y)]"]) simp_all
  qed
qed

lemma emit_emit [simp]: "emit ys (emit xs d) = emit (xs @ ys) d" "emit [] d = d"
  by (simp_all add: emit_def)

text \<open>What the columns of a job must satisfy once they are resolved.\<close>

definition col_bound :: "submit_env \<Rightarrow> (nat \<Rightarrow> gem_obj) \<Rightarrow> drm_strela_submit \<Rightarrow> strela_job \<Rightarrow> nat \<Rightarrow> bool" where
  "col_bound env objs args job i \<longleftrightarrow> bound env objs (sub_inputs args ! i) (job_inputs job ! i)
     \<and> job_input_strides job ! i = bd_stride (sub_inputs args ! i)
     \<and> bound env objs (unstrided (sub_outputs args ! i)) (job_outputs job ! i)"

definition col_null :: "strela_job \<Rightarrow> nat \<Rightarrow> bool" where
  "col_null job i \<longleftrightarrow> i < STRELA_NUM_IO_COLS \<and> bnd_obj (job_inputs job ! i) = None \<and> bnd_obj (job_outputs job ! i) = None"

text \<open>
  The relation between a job before and after some of its bindings were resolved: the calls made
  account for exactly the references that were added.
\<close>

definition resolved :: "strela_job \<Rightarrow> strela_device \<Rightarrow> strela_job \<Rightarrow> strela_device \<Rightarrow> bool" where
  "resolved job d job' d' \<longleftrightarrow> (\<exists>cs. d' = emit cs d \<and> list_all gem_call cs \<and> job_shape job'
     \<and> job_config job' = job_config job \<and> job_hw_fence job' = job_hw_fence job
     \<and> (\<forall>x. gem_refs cs x + int (count_list (job_objs job) (Some x)) = int (count_list (job_objs job') (Some x))))"

definition same_col :: "strela_job \<Rightarrow> strela_job \<Rightarrow> nat \<Rightarrow> bool" where
  "same_col job job' k \<longleftrightarrow> job_inputs job' ! k = job_inputs job ! k \<and> job_outputs job' ! k = job_outputs job ! k
     \<and> job_input_strides job' ! k = job_input_strides job ! k"

lemma resolved_trans: "resolved j1 d1 j2 d2 \<Longrightarrow> resolved j2 d2 j3 d3 \<Longrightarrow> resolved j1 d1 j3 d3"
proof -
  assume "resolved j1 d1 j2 d2" "resolved j2 d2 j3 d3"
  then obtain cs1 cs2 where c: "d2 = emit cs1 d1" "list_all gem_call cs1" "d3 = emit cs2 d2" "list_all gem_call cs2"
    "job_shape j3" "job_config j3 = job_config j1" "job_hw_fence j3 = job_hw_fence j1"
    "\<And>x. gem_refs cs1 x + int (count_list (job_objs j1) (Some x)) = int (count_list (job_objs j2) (Some x))"
    "\<And>x. gem_refs cs2 x + int (count_list (job_objs j2) (Some x)) = int (count_list (job_objs j3) (Some x))"
    unfolding resolved_def by metis
  have "gem_refs (cs1 @ cs2) x + int (count_list (job_objs j1) (Some x)) = int (count_list (job_objs j3) (Some x))" for x
    using c(8,9)[of x] by simp
  with c show ?thesis unfolding resolved_def by (intro exI[of _ "cs1 @ cs2"]) simp
qed

lemma submit_col_result:
  assumes run: "submit_col env args i job d = (d', job', ret)" and nul: "col_null job i" and sh: "job_shape job"
  shows "resolved job d job' d'" "k \<noteq> i \<Longrightarrow> same_col job job' k"
    "ret = 0 \<Longrightarrow> col_bound env (sd_objs d) args job' i"
proof -
  have i: "i < length (job_inputs job)" "i < length (job_outputs job)" "i < length (job_input_strides job)"
    "bnd_obj (job_inputs job ! i) = None" "bnd_obj (job_outputs job ! i) = None"
    using nul sh by (auto simp: col_null_def job_shape_def)
  obtain d1 b1 r1 where g1: "strela_strided_binding_get env (sub_inputs args ! i) (job_inputs job ! i) d = (d1, b1, r1)"
    by (metis prod_cases3)
  obtain d2 b2 r2 where g2: "strela_binding_get env (sub_outputs args ! i) (job_outputs job ! i) d1 = (d2, b2, r2)"
    by (metis prod_cases3)
  let ?s = "bd_stride (sub_inputs args ! i)"
  define job1 where "job1 = job\<lparr>job_inputs := (job_inputs job)[i := b1]\<rparr>"
  define job3 where "job3 = job\<lparr>job_inputs := (job_inputs job)[i := b1],
    job_input_strides := (job_input_strides job)[i := ?s], job_outputs := (job_outputs job)[i := b2]\<rparr>"
  have st: "submit_col env args i job d = (if r1 \<noteq> 0 then (d1, job1, r1) else (d2, job3, r2))"
    using g1 g2 by (simp add: submit_col_def Let_def job1_def job3_def)
  obtain cs1 where c1: "d1 = emit cs1 d" "list_all gem_call cs1"
    "r1 = 0 \<Longrightarrow> bound env (sd_objs d) (sub_inputs args ! i) b1 \<and> (\<forall>x. gem_refs cs1 x = of_bool (bnd_obj b1 = Some x))"
    "r1 \<noteq> 0 \<Longrightarrow> b1 = job_inputs job ! i \<and> (\<forall>x. gem_refs cs1 x = 0)"
    using strided_get[OF g1] by blast
  obtain cs2 where c2: "d2 = emit cs2 d1" "list_all gem_call cs2"
    "r2 = 0 \<Longrightarrow> bound env (sd_objs d) (unstrided (sub_outputs args ! i)) b2 \<and> (\<forall>x. gem_refs cs2 x = of_bool (bnd_obj b2 = Some x))"
    "r2 \<noteq> 0 \<Longrightarrow> b2 = job_outputs job ! i \<and> (\<forall>x. gem_refs cs2 x = 0)"
    using strided_get[OF g2[unfolded strela_binding_get_alt]] c1(1) by (metis emit_simps(7))
  show "k \<noteq> i \<Longrightarrow> same_col job job' k"
    using st run by (auto simp: same_col_def job1_def job3_def split: if_splits)
  show "ret = 0 \<Longrightarrow> col_bound env (sd_objs d) args job' i"
    using st run c1(3) c2(3) i by (auto simp: col_bound_def job3_def split: if_splits)
  show "resolved job d job' d'"
  proof (cases "r1 = 0")
    case False
    then have "d' = d1" "job' = job" using st run c1(4) by (auto simp: job1_def)
    then show ?thesis using c1 False sh unfolding resolved_def by (intro exI[of _ cs1]) simp
  next
    case True
    then have e: "d' = d2" "job' = job3" using st run by auto
    have "gem_refs cs2 x = of_bool (bnd_obj b2 = Some x)" for x using c2(3,4) i(5) by (cases "r2 = 0") auto
    then have "gem_refs (cs1 @ cs2) x + int (count_list (job_objs job) (Some x)) = int (count_list (job_objs job3) (Some x))" for x
      using c1(3)[OF True] count_list_update_None[OF i(1,4), of b1 x] count_list_update_None[OF i(2,5), of b2 x]
      by (simp add: job_objs_def job3_def)
    moreover have "job_shape job3" "d2 = emit (cs1 @ cs2) d" using sh c1(1) c2(1) by (simp_all add: job3_def job_shape_def)
    ultimately show ?thesis
      using e c1(2) c2(2) unfolding resolved_def by (intro exI[of _ "cs1 @ cs2"]) (simp add: job3_def)
  qed
qed

lemma submit_cols_result:
  assumes "submit_cols env args is job d = (d', job', ret)"
    "distinct is" "\<forall>i \<in> set is. col_null job i" "job_shape job"
  shows "resolved job d job' d' \<and> (ret = 0 \<longrightarrow>
    (\<forall>i \<in> set is. col_bound env (sd_objs d) args job' i) \<and> (\<forall>i. i \<notin> set is \<longrightarrow> same_col job job' i))"
  using assms
proof (induction "is" arbitrary: job d)
  case Nil
  then show ?case unfolding resolved_def by (auto intro!: exI[of _ "[]"] simp: emit_def same_col_def)
next
  case (Cons i "is")
  obtain d1 job1 r1 where c: "submit_col env args i job d = (d1, job1, r1)" by (metis prod_cases3)
  have ni: "col_null job i" using Cons.prems(3) by simp
  note r = submit_col_result[OF c ni Cons.prems(4)]
  have st: "(if r1 \<noteq> 0 then (d1, job1, r1) else submit_cols env args is job1 d1) = (d', job', ret)"
    using Cons.prems(1) c by simp
  show ?case
  proof (cases "r1 = 0")
    case False
    then show ?thesis using st r(1) by auto
  next
    case True
    have nn: "\<forall>k \<in> set is. col_null job1 k"
    proof
      fix k assume k: "k \<in> set is"
      then have "k \<noteq> i" "col_null job k" using Cons.prems(2,3) by auto
      then show "col_null job1 k" using r(2)[of k] by (simp add: col_null_def same_col_def)
    qed
    have sh: "job_shape job1" "sd_objs d1 = sd_objs d" using r(1) by (auto simp: resolved_def)
    have run: "submit_cols env args is job1 d1 = (d', job', ret)" and di: "distinct is" "i \<notin> set is"
      using st True Cons.prems(2) by auto
    note IH = Cons.IH[OF run di(1) nn sh(1)]
    have "col_bound env (sd_objs d) args job' i" if "ret = 0"
      using IH that di(2) r(3)[OF True] by (simp add: col_bound_def same_col_def)
    moreover have "same_col job job' k" if "ret = 0" "k \<noteq> i" "k \<notin> set is" for k
      using IH that r(2)[of k] by (simp add: same_col_def)
    ultimately show ?thesis using IH resolved_trans[OF r(1)] sh(2) by auto
  qed
qed

section \<open>The whole ioctl\<close>

fun resolve_call :: "kcall \<Rightarrow> bool" where
  "resolve_call (Gem_lookup _) = True"
| "resolve_call (Gem_put _) = True"
| "resolve_call (Sched_add_dependency _ _) = True"
| "resolve_call (Syncobj_find _) = True"
| "resolve_call _ = False"

lemma gem_resolve_call: "list_all gem_call cs \<Longrightarrow> list_all resolve_call cs"
proof (induction cs)
  case (Cons c cs)
  then show ?case by (cases c) auto
qed simp

lemma resolve_calls_quiet:
  assumes "list_all resolve_call cs"
  shows "fence_refs cs f = 0" "Sched_push_job j \<notin> set cs" "Kfree_job j \<notin> set cs" "Fence_get g \<notin> set cs"
proof -
  have "resolve_call c \<Longrightarrow> fence_refs [c] f = 0" for c by (cases c) auto
  then show "fence_refs cs f = 0" using assms
  proof (induction cs)
    case (Cons c cs)
    then show ?case using fence_refs_append[of "[c]" cs f] by simp
  qed simp
  show "Sched_push_job j \<notin> set cs" "Kfree_job j \<notin> set cs" "Fence_get g \<notin> set cs"
    using assms by (auto simp: list_all_iff)
qed

text \<open>All nine bindings of a job are resolved against a submit.\<close>

definition job_bound :: "submit_env \<Rightarrow> (nat \<Rightarrow> gem_obj) \<Rightarrow> drm_strela_submit \<Rightarrow> strela_job \<Rightarrow> bool" where
  "job_bound env objs args job \<longleftrightarrow> job_shape job \<and> bound env objs (unstrided (sub_config args)) (job_config job)
     \<and> (\<forall>i < STRELA_NUM_IO_COLS. col_bound env objs args job i)"

lemma zeroed_job_facts:
  "job_shape (zeroed_job f)" "job_hw_fence (zeroed_job f) = f" "job_config (zeroed_job f) = null_binding"
  "count_list (job_objs (zeroed_job f)) (Some x) = 0"
  "i < STRELA_NUM_IO_COLS \<Longrightarrow> col_null (zeroed_job f) i"
proof -
  show "job_shape (zeroed_job f)" "job_hw_fence (zeroed_job f) = f" "job_config (zeroed_job f) = null_binding"
    by (simp_all add: zeroed_job_def job_shape_def)
  show "count_list (job_objs (zeroed_job f)) (Some x) = 0"
    by (auto simp: count_list_0_iff job_objs_def zeroed_job_def null_binding_def)
  show "i < STRELA_NUM_IO_COLS \<Longrightarrow> col_null (zeroed_job f) i"
    by (simp add: col_null_def zeroed_job_def null_binding_def)
qed

text \<open>The stages of the resolution: the dependency, the configuration, the columns, the sync object.\<close>

lemma submit_resolve_stages:
  fixes args :: drm_strela_submit and j :: nat and env :: submit_env
  defines "wait \<equiv> sub_flags args AND DRM_STRELA_SUBMIT_WAIT_SYNCOBJ \<noteq> 0"
  defines "cs0 \<equiv> if wait then [Sched_add_dependency j (sub_in_syncobj args)] else []" and "r0 \<equiv> if wait then env_add_dependency env else 0"
  assumes g: "strela_binding_get env (sub_config args) null_binding (emit cs0 d) = (d1, b, r1)"
    and c: "submit_cols env args [0..<STRELA_NUM_IO_COLS] ((zeroed_job f)\<lparr>job_config := b\<rparr>) d1 = (d2, job2, r2)"
  shows "submit_resolve env args j (zeroed_job f) d =
    (if r0 \<noteq> 0 then (emit cs0 d, zeroed_job f, None, r0)
     else if r1 \<noteq> 0 then (d1, (zeroed_job f)\<lparr>job_config := b\<rparr>, None, r1)
     else if r2 \<noteq> 0 then (d2, job2, None, r2)
     else case env_syncobj_find env (sub_out_syncobj args) of None \<Rightarrow> (d2, job2, None, - ENOENT)
       | Some so \<Rightarrow> (emit [Syncobj_find so] d2, job2, Some so, 0))"
proof -
  have e: "(if sub_flags args AND DRM_STRELA_SUBMIT_WAIT_SYNCOBJ \<noteq> 0
      then (emit [Sched_add_dependency j (sub_in_syncobj args)] d, env_add_dependency env) else (d, 0)) = (emit cs0 d, r0)"
    by (simp add: cs0_def r0_def wait_def)
  show ?thesis unfolding submit_resolve_def e by (simp add: Let_def zeroed_job_facts(3) g c)
qed

lemma submit_resolve_result:
  assumes run: "submit_resolve env args j (zeroed_job f) d = (d', job, so, ret)"
  obtains cs where "d' = emit cs d" "list_all resolve_call cs" "job_shape job" "job_hw_fence job = f"
    "\<And>x. gem_refs cs x = int (count_list (job_objs job) (Some x))"
    "ret = 0 \<Longrightarrow> job_bound env (sd_objs d) args job \<and> env_syncobj_find env (sub_out_syncobj args) = so \<and> so \<noteq> None"
proof -
  let ?wait = "sub_flags args AND DRM_STRELA_SUBMIT_WAIT_SYNCOBJ \<noteq> 0"
  define cs0 where "cs0 = (if ?wait then [Sched_add_dependency j (sub_in_syncobj args)] else [])"
  define r0 where "r0 = (if ?wait then env_add_dependency env else 0)"
  obtain d1 b r1 where g: "strela_binding_get env (sub_config args) null_binding (emit cs0 d) = (d1, b, r1)"
    by (metis prod_cases3)
  define job1 where "job1 = (zeroed_job f)\<lparr>job_config := b\<rparr>"
  obtain d2 job2 r2 where c: "submit_cols env args [0..<STRELA_NUM_IO_COLS] job1 d1 = (d2, job2, r2)" by (metis prod_cases3)
  note st = submit_resolve_stages[of env args j d, folded cs0_def r0_def, OF g c[unfolded job1_def], folded job1_def]
  have q0: "list_all resolve_call cs0" "gem_refs cs0 x = 0" for x by (simp_all add: cs0_def gem_refs_other)
  obtain cs1 where c1: "d1 = emit cs1 (emit cs0 d)" "list_all gem_call cs1"
    "r1 = 0 \<Longrightarrow> bound env (sd_objs d) (unstrided (sub_config args)) b \<and> (\<forall>x. gem_refs cs1 x = of_bool (bnd_obj b = Some x))"
    "r1 \<noteq> 0 \<Longrightarrow> b = null_binding \<and> (\<forall>x. gem_refs cs1 x = 0)"
    using strided_get[OF g[unfolded strela_binding_get_alt]] by (metis emit_simps(7))
  have sh1: "job_shape job1" "\<forall>i \<in> set [0..<STRELA_NUM_IO_COLS]. col_null job1 i" "job_hw_fence job1 = f"
    using zeroed_job_facts by (auto simp: job1_def job_shape_def col_null_def)
  have o1: "int (count_list (job_objs job1) (Some x)) = gem_refs (cs0 @ cs1) x" for x
    using zeroed_job_facts(4)[of f x] c1(3,4) q0(2)[of x]
    by (cases "r1 = 0") (auto simp: job_objs_def job1_def null_binding_def zeroed_job_def split: if_splits)
  note rs = submit_cols_result[OF c distinct_upt sh1(2,1)]
  obtain cs2 where c2: "d2 = emit cs2 d1" "list_all gem_call cs2" "job_shape job2" "job_config job2 = b" "job_hw_fence job2 = f"
    "\<And>x. gem_refs cs2 x + int (count_list (job_objs job1) (Some x)) = int (count_list (job_objs job2) (Some x))"
    using rs sh1(3) unfolding resolved_def by (auto simp: job1_def)
  have o2: "gem_refs (cs0 @ cs1 @ cs2) x = int (count_list (job_objs job2) (Some x))" for x
    using o1[of x] c2(6)[of x] by simp
  note q = q0(1) gem_resolve_call[OF c1(2)] gem_resolve_call[OF c2(2)]
  consider (dep) "r0 \<noteq> 0" | (cfg) "r0 = 0" "r1 \<noteq> 0" | (cols) "r0 = 0" "r1 = 0" "r2 \<noteq> 0"
    | (nosync) "r0 = 0" "r1 = 0" "r2 = 0" "env_syncobj_find env (sub_out_syncobj args) = None"
    | (ok) s where "r0 = 0" "r1 = 0" "r2 = 0" "env_syncobj_find env (sub_out_syncobj args) = Some s" by fastforce
  then show thesis
  proof cases
    case dep
    then show ?thesis using st run q zeroed_job_facts q0(2) by (intro that[of cs0]) auto
  next
    case cfg
    then show ?thesis using st run q sh1 c1(1) o1 by (intro that[of "cs0 @ cs1"]) auto
  next
    case cols
    then show ?thesis using st run q c2 c1(1) o2 by (intro that[of "cs0 @ cs1 @ cs2"]) auto
  next
    case nosync
    then have "ret \<noteq> 0" using st run by (auto simp: errnos)
    then show ?thesis using nosync st run q c2 c1(1) o2 by (intro that[of "cs0 @ cs1 @ cs2"]) auto
  next
    case ok
    have jb: "job_bound env (sd_objs d) args job2"
      using rs ok(2,3) c1 c2(3,4) by (auto simp: job_bound_def)
    show ?thesis using ok st run q c2 c1(1) o2 jb
      by (intro that[of "cs0 @ cs1 @ cs2 @ [Syncobj_find s]"]) (auto simp: gem_refs_other)
  qed
qed

definition submit_args_ok :: "drm_strela_submit \<Rightarrow> bool" where
  "submit_args_ok args \<longleftrightarrow> sub_flags args AND NOT DRM_STRELA_SUBMIT_WAIT_SYNCOBJ = 0 \<and> sub_pad args = 0"

text \<open>The ioctl once both allocations have succeeded.\<close>

lemma submit_allocated:
  assumes "submit_args_ok args" "env_job env = Some j" "env_fence env = Some f" "env_sched_job_init env = 0"
    and run: "strela_submit_ioctl env args d = (d', ret)"
  obtains cs job so r where "list_all resolve_call cs" "job_shape job" "job_hw_fence job = f"
    "\<And>x. gem_refs cs x = int (count_list (job_objs job) (Some x))"
    "r = 0 \<Longrightarrow> job_bound env (sd_objs d) args job \<and> env_syncobj_find env (sub_out_syncobj args) = Some so"
    "ret = r"
    "sd_calls d' = sd_calls d @ [Fence_init f (sd_fence_seqno d + 1), Sched_job_init j] @ cs
       @ (if r \<noteq> 0 then Sched_job_cleanup j # put_bindings_calls job @ [Fence_put f, Kfree_job j]
          else [Sched_job_arm j, Syncobj_replace_fence so j, Syncobj_put so, Sched_push_job j])"
    "sd_jobs d' = (if r \<noteq> 0 then sd_jobs d else (sd_jobs d)(j \<mapsto> job))" "sd_active d' = sd_active d"
    "sd_objs d' = sd_objs d" "sd_is_sim d' = sd_is_sim d"
proof -
  define d1 where "d1 = emit [Fence_init f (sd_fence_seqno d + 1), Sched_job_init j] (d\<lparr>sd_fence_seqno := sd_fence_seqno d + 1\<rparr>)"
  obtain d2 job so r where r: "submit_resolve env args j (zeroed_job f) d1 = (d2, job, so, r)" by (metis prod_cases4)
  have st: "strela_submit_ioctl env args d =
    (if r \<noteq> 0 then (emit [Fence_put f, Kfree_job j] (strela_job_put_bindings job (emit [Sched_job_cleanup j] d2)), r)
     else (emit [Sched_job_arm j, Syncobj_replace_fence (the so) j, Syncobj_put (the so), Sched_push_job j]
             (d2\<lparr>sd_jobs := (sd_jobs d2)(j \<mapsto> job)\<rparr>), 0))"
    using assms(1-4) r by (simp add: strela_submit_ioctl_def submit_args_ok_def Let_def d1_def emit_def)
  obtain cs where c: "d2 = emit cs d1" "list_all resolve_call cs" "job_shape job" "job_hw_fence job = f"
    "\<And>x. gem_refs cs x = int (count_list (job_objs job) (Some x))"
    "r = 0 \<Longrightarrow> job_bound env (sd_objs d1) args job \<and> env_syncobj_find env (sub_out_syncobj args) = so \<and> so \<noteq> None"
    using submit_resolve_result[OF r] by metis
  have d1: "sd_calls d1 = sd_calls d @ [Fence_init f (sd_fence_seqno d + 1), Sched_job_init j]"
    "sd_jobs d1 = sd_jobs d" "sd_active d1 = sd_active d" "sd_objs d1 = sd_objs d" "sd_is_sim d1 = sd_is_sim d" by (simp_all add: d1_def)
  have e: "ret = r" "d' = (if r \<noteq> 0
      then emit [Fence_put f, Kfree_job j] (strela_job_put_bindings job (emit [Sched_job_cleanup j] d2))
      else emit [Sched_job_arm j, Syncobj_replace_fence (the so) j, Syncobj_put (the so), Sched_push_job j]
             (d2\<lparr>sd_jobs := (sd_jobs d2)(j \<mapsto> job)\<rparr>))"
    using st run by (auto split: if_splits)
  show thesis
    by (rule that[OF c(2-5), of r "the so"])
       (use c(1,6) d1 e in \<open>auto simp: strela_job_put_bindings_def\<close>)
qed

text \<open>A submit that gives up before the scheduler knows the job.\<close>

lemma submit_early_exit:
  assumes "strela_submit_ioctl env args d = (d', ret)"
    and early: "submit_args_ok args \<Longrightarrow> env_job env = Some j \<Longrightarrow> env_fence env = Some f \<Longrightarrow> env_sched_job_init env \<noteq> 0"
    and only: "\<And>j'. env_job env = Some j' \<Longrightarrow> j' = j" "\<And>f'. env_fence env = Some f' \<Longrightarrow> f' = f"
  shows "\<exists>cs. sd_calls d' = sd_calls d @ cs \<and> (\<forall>x. gem_refs cs x = 0) \<and> (\<forall>f. fence_refs cs f = 0)
    \<and> (\<forall>j. Sched_push_job j \<notin> set cs) \<and> (\<forall>g. Fence_get g \<notin> set cs)
    \<and> (\<forall>j. count_list cs (Kfree_job j) = of_bool (submit_args_ok args \<and> env_job env = Some j))
    \<and> sd_jobs d' = sd_jobs d \<and> sd_active d' = sd_active d"
proof -
  consider (args) "\<not> submit_args_ok args" | (nojob) "submit_args_ok args" "env_job env = None"
    | (nofence) "submit_args_ok args" "env_job env = Some j" "env_fence env = None"
    | (noinit) "submit_args_ok args" "env_job env = Some j" "env_fence env = Some f" "env_sched_job_init env \<noteq> 0"
    using early only by (metis option.exhaust)
  then show ?thesis
  proof cases
    case args
    then have "d' = d" using assms(1) by (simp add: strela_submit_ioctl_def submit_args_ok_def split: if_splits)
    then show ?thesis using args by simp
  next
    case nojob
    then have "d' = d" using assms(1) by (simp add: strela_submit_ioctl_def submit_args_ok_def)
    then show ?thesis using nojob by simp
  next
    case nofence
    then have "d' = emit [Kfree_job j] d" using assms(1) by (simp add: strela_submit_ioctl_def submit_args_ok_def)
    then show ?thesis using nofence by (auto simp: gem_refs_other)
  next
    case noinit
    then have "sd_calls d' = sd_calls d @ [Fence_init f (sd_fence_seqno d + 1), Fence_put f, Kfree_job j]"
      "sd_jobs d' = sd_jobs d" "sd_active d' = sd_active d"
      using assms(1) by (auto simp: strela_submit_ioctl_def submit_args_ok_def Let_def)
    then show ?thesis using noinit by (auto simp: gem_refs_other)
  qed
qed

lemma submit_failure:
  assumes "strela_submit_ioctl env args d = (d', ret)" "ret \<noteq> 0"
  shows "\<exists>cs. sd_calls d' = sd_calls d @ cs \<and> (\<forall>x. gem_refs cs x = 0) \<and> (\<forall>f. fence_refs cs f = 0)
    \<and> (\<forall>j. Sched_push_job j \<notin> set cs) \<and> (\<forall>g. Fence_get g \<notin> set cs)
    \<and> (\<forall>j. count_list cs (Kfree_job j) = of_bool (submit_args_ok args \<and> env_job env = Some j))
    \<and> sd_jobs d' = sd_jobs d \<and> sd_active d' = sd_active d"
proof (cases "submit_args_ok args \<and> env_job env \<noteq> None \<and> env_fence env \<noteq> None \<and> env_sched_job_init env = 0")
  case False
  then show ?thesis
    using submit_early_exit[OF assms(1), of "the (env_job env)" "the (env_fence env)"] by (metis option.sel option.distinct(1))
next
  case True
  then obtain j f where alloc: "submit_args_ok args" "env_job env = Some j" "env_fence env = Some f" "env_sched_job_init env = 0" by auto
  obtain cs job r where c: "list_all resolve_call cs" "job_shape job"
    "\<And>x. gem_refs cs x = int (count_list (job_objs job) (Some x))" "ret = r"
    "sd_calls d' = sd_calls d @ [Fence_init f (sd_fence_seqno d + 1), Sched_job_init j] @ cs
       @ Sched_job_cleanup j # put_bindings_calls job @ [Fence_put f, Kfree_job j]"
    "sd_jobs d' = sd_jobs d" "sd_active d' = sd_active d"
    by (rule submit_allocated[OF alloc assms(1)]) (use assms(2) in auto)
  note q = resolve_calls_quiet[OF c(1)] and pb = put_bindings_refs[OF c(2)]
  have np: "Kfree_job k \<notin> set (put_bindings_calls job)" "Sched_push_job k \<notin> set (put_bindings_calls job)"
    "Fence_get k \<notin> set (put_bindings_calls job)" for k
    by (auto simp: put_bindings_calls_def)
  show ?thesis
    using c(3,5-7) q pb np alloc(1,2)
    by (intro exI[of _ "[Fence_init f (sd_fence_seqno d + 1), Sched_job_init j] @ cs
       @ Sched_job_cleanup j # put_bindings_calls job @ [Fence_put f, Kfree_job j]"])
       (auto simp: gem_refs_other count_list_0_iff)
qed

text \<open>C15. A submit that fails, at whichever step, leaves nothing behind: it has dropped every buffer-object
  and fence reference it took, pushed no job, freed the job it allocated exactly once, and changed
  neither the active job nor the set of live jobs.\<close>

theorem submit_error_releases:
  assumes "strela_submit_ioctl env args d = (d', ret)" "ret \<noteq> 0"
  shows "\<exists>cs. sd_calls d' = sd_calls d @ cs \<and> (\<forall>x. gem_refs cs x = 0) \<and> (\<forall>f. fence_refs cs f = 0)
    \<and> (\<forall>j. Sched_push_job j \<notin> set cs)
    \<and> (\<forall>j. count_list cs (Kfree_job j) = of_bool (submit_args_ok args \<and> env_job env = Some j))
    \<and> sd_jobs d' = sd_jobs d \<and> sd_active d' = sd_active d"
  using submit_failure[OF assms] by blast

section \<open>An example\<close>

definition idle_device :: "bool \<Rightarrow> strela_device" where
  "idle_device sim = \<lparr>sd_irq_status = 0, sd_is_sim = sim, sd_sim_abort = False, sd_active = None, sd_fence_seqno = 0,
     sd_jobs = (\<lambda>_. None), sd_objs = (\<lambda>_. \<lparr>gem_size = 4096, gem_dma_addr = 0x10000000, gem_vaddr = None\<rparr>), sd_calls = []\<rparr>"

text \<open>A client with one buffer, at handle 1, and one sync object, at handle 9.\<close>

definition one_buffer_env :: "nat \<Rightarrow> submit_env" where
  "one_buffer_env j = \<lparr>env_job = Some j, env_fence = Some (100 + j), env_sched_job_init = 0, env_add_dependency = 0,
     env_gem_lookup = (\<lambda>h. if h = 1 then Some 7 else None), env_syncobj_find = (\<lambda>h. if h = 9 then Some 3 else None)\<rparr>"

definition one_buffer_submit :: "u32 \<Rightarrow> drm_strela_submit" where
  "one_buffer_submit last_handle =
     (let b = \<lparr>bd_handle = 1, bd_offset = 0, bd_count = 16\<rparr>;
          i = \<lparr>bd_handle = 1, bd_offset = 64, bd_count = 8, bd_stride = 2\<rparr>
      in \<lparr>sub_config = b, sub_inputs = [i, i, i, i], sub_outputs = [b, b, b, b\<lparr>bd_handle := last_handle\<rparr>],
          sub_out_syncobj = 9, sub_flags = 0, sub_in_syncobj = 0, sub_pad = 0\<rparr>)"

lemma one_buffer_runs:
  "snd (strela_submit_ioctl (one_buffer_env j) (one_buffer_submit 1) (idle_device sim)) = 0"
  "snd (strela_submit_ioctl (one_buffer_env j) (one_buffer_submit 5) (idle_device sim)) = - 2"
  by (simp_all add: strela_submit_ioctl_def one_buffer_env_def one_buffer_submit_def idle_device_def submit_resolve_def
      submit_col_def strela_binding_get_def strela_strided_binding_get_def strela_binding_check_def zeroed_job_def
      null_binding_def DRM_STRELA_SUBMIT_WAIT_SYNCOBJ_def STRELA_MAX_COLUMN_BYTES_def STRELA_NUM_IO_COLS_def
      errnos upt_rec max_def Let_def)

theorem submit_error_releases_witness:
  "\<exists>d'. strela_submit_ioctl (one_buffer_env 1) (one_buffer_submit 5) (idle_device False) = (d', - 2)
    \<and> sd_jobs d' = sd_jobs (idle_device False)
    \<and> (\<exists>cs. sd_calls d' = cs \<and> (\<forall>x. gem_refs cs x = 0) \<and> count_list cs (Kfree_job 1) = 1)"
proof -
  obtain d' where r: "strela_submit_ioctl (one_buffer_env 1) (one_buffer_submit 5) (idle_device False) = (d', - 2)"
    using one_buffer_runs(2)[of 1 False] by (metis prod.collapse)
  have ok: "submit_args_ok (one_buffer_submit 5)" "env_job (one_buffer_env 1) = Some 1" "sd_calls (idle_device False) = []"
    by (simp_all add: submit_args_ok_def one_buffer_submit_def one_buffer_env_def idle_device_def Let_def)
  show ?thesis using submit_error_releases[OF r] r ok by auto
qed

lemma submit_success:
  assumes "strela_submit_ioctl env args d = (d', 0)" "env_job env = Some j"
  shows "submit_args_ok args" "\<exists>f. env_fence env = Some f" "env_sched_job_init env = 0"
proof -
  show ok: "submit_args_ok args" using assms(1)
    by (auto simp: strela_submit_ioctl_def submit_args_ok_def errnos split: if_splits)
  show f: "\<exists>f. env_fence env = Some f" using assms ok
    by (cases "env_fence env") (auto simp: strela_submit_ioctl_def submit_args_ok_def errnos)
  show "env_sched_job_init env = 0" using assms ok f
    by (auto simp: strela_submit_ioctl_def submit_args_ok_def Let_def split: if_splits)
qed

lemma submit_success_job:
  assumes "strela_submit_ioctl env args d = (d', 0)" "env_job env = Some j"
  shows "\<exists>job. sd_jobs d' = (sd_jobs d)(j \<mapsto> job) \<and> sd_jobs d' j = Some job \<and> job_bound env (sd_objs d) args job
    \<and> env_fence env = Some (job_hw_fence job)
    \<and> sd_objs d' = sd_objs d \<and> sd_is_sim d' = sd_is_sim d"
proof -
  obtain f where f: "env_fence env = Some f" using submit_success(2)[OF assms] by blast
  obtain job where "job_hw_fence job = f" "job_bound env (sd_objs d) args job" "sd_jobs d' = (sd_jobs d)(j \<mapsto> job)"
    "sd_objs d' = sd_objs d" "sd_is_sim d' = sd_is_sim d"
    by (rule submit_allocated[OF submit_success(1)[OF assms] assms(2) f submit_success(3)[OF assms] assms(1)]) auto
  then show ?thesis using f by auto
qed

text \<open>A submit that succeeds pushes exactly one job, as its last call, after every binding was resolved
  to an object its range fits in; the job holds exactly one reference per binding, and
  \<^verbatim>\<open>strela_free_job\<close> gives back all of them, and the fence, and frees the job.\<close>

theorem submit_free_balanced:
  assumes "strela_submit_ioctl env args d = (d', 0)" "env_job env = Some j"
  shows "\<exists>f job cs d''. sd_jobs d' j = Some job \<and> job_hw_fence job = f \<and> job_bound env (sd_objs d) args job
    \<and> sd_calls d' = sd_calls d @ cs \<and> (\<forall>x. gem_refs cs x = int (count_list (job_objs job) (Some x)))
    \<and> count_list cs (Sched_push_job j) = 1 \<and> last cs = Sched_push_job j
    \<and> strela_free_job j d' = Some d'' \<and> sd_jobs d'' = (sd_jobs d)(j := None)
    \<and> (\<exists>cs'. sd_calls d'' = sd_calls d @ cs' \<and> (\<forall>x. gem_refs cs' x = 0) \<and> (\<forall>g. fence_refs cs' g = 0))"
proof -
  obtain f where f: "env_fence env = Some f" using submit_success(2)[OF assms] by blast
  note ok = submit_success(1)[OF assms] and i = submit_success(3)[OF assms]
  obtain cs job so where c: "list_all resolve_call cs" "job_shape job" "job_hw_fence job = f"
    "\<And>x. gem_refs cs x = int (count_list (job_objs job) (Some x))" "job_bound env (sd_objs d) args job"
    "sd_calls d' = sd_calls d @ [Fence_init f (sd_fence_seqno d + 1), Sched_job_init j] @ cs
       @ [Sched_job_arm j, Syncobj_replace_fence so j, Syncobj_put so, Sched_push_job j]"
    "sd_jobs d' = (sd_jobs d)(j \<mapsto> job)"
    by (rule submit_allocated[OF ok assms(2) f i assms(1)]) auto
  note q = resolve_calls_quiet[OF c(1)] and pb = put_bindings_refs[OF c(2)]
  define tl where "tl = Sched_job_cleanup j # put_bindings_calls job @ [Fence_put f, Kfree_job j]"
  define mid where "mid = [Fence_init f (sd_fence_seqno d + 1), Sched_job_init j] @ cs
       @ [Sched_job_arm j, Syncobj_replace_fence so j, Syncobj_put so, Sched_push_job j]"
  obtain d'' where fr: "strela_free_job j d' = Some d''" "sd_calls d'' = sd_calls d' @ tl" "sd_jobs d'' = (sd_jobs d)(j := None)"
    using c(3,7) by (auto simp: strela_free_job_def strela_job_put_bindings_def tl_def Let_def)
  have m: "gem_refs mid x = int (count_list (job_objs job) (Some x))" "fence_refs mid g = of_bool (f = g)"
    "count_list mid (Sched_push_job j) = 1" "last mid = Sched_push_job j" for x g
    using c(4) q by (auto simp: mid_def gem_refs_other count_list_0_iff)
  have "gem_refs (mid @ tl) x = 0" "fence_refs (mid @ tl) g = 0" for x g
    using m pb by (auto simp: tl_def gem_refs_other)
  moreover have "sd_calls d'' = sd_calls d @ (mid @ tl)" "sd_calls d' = sd_calls d @ mid"
    using fr(2) c(6) by (simp_all add: mid_def)
  moreover have "sd_jobs d' j = Some job" using c(7) by simp
  ultimately show ?thesis using c(3,5) m fr(1,3) by blast
qed

theorem submit_free_balanced_witness:
  "\<exists>d' d''. strela_submit_ioctl (one_buffer_env 1) (one_buffer_submit 1) (idle_device True) = (d', 0)
    \<and> strela_free_job 1 d' = Some d'' \<and> (\<forall>x. gem_refs (sd_calls d'') x = 0)"
proof -
  obtain d' where r: "strela_submit_ioctl (one_buffer_env 1) (one_buffer_submit 1) (idle_device True) = (d', 0)"
    using one_buffer_runs(1)[of 1 True] by (metis prod.collapse)
  have "env_job (one_buffer_env 1) = Some 1" "sd_calls (idle_device True) = []"
    by (simp_all add: one_buffer_env_def idle_device_def)
  then show ?thesis using submit_free_balanced[OF r, of 1] r by auto
qed

end
