(* ===== verification/Program.thy ===== *)
theory Program
  imports Submit
begin

text \<open>
  What the hardware is told to do: the registers after \<^verbatim>\<open>strela_hw_program\<close> of a job that a submit
  resolved, read back from the register writes, and the ranges of memory they let the DMA
  engines touch.
\<close>

section \<open>Reading the registers back\<close>

fun reg_step :: "kcall \<Rightarrow> (u32 \<Rightarrow> u32 option) \<Rightarrow> u32 \<Rightarrow> u32 option" where
  "reg_step (Writel r v) R = R(r \<mapsto> v)"
| "reg_step _ R = R"

text \<open>The last value written to each register by a sequence of calls.\<close>

definition reg_file :: "kcall list \<Rightarrow> u32 \<Rightarrow> u32 option" where
  "reg_file cs = fold reg_step cs (\<lambda>_. None)"

definition binding_addr :: "(nat \<Rightarrow> gem_obj) \<Rightarrow> strela_binding \<Rightarrow> u32" where
  "binding_addr objs b = gem_dma_addr (objs (the (bnd_obj b))) + bnd_offset b * 4"

definition program_calls :: "(nat \<Rightarrow> gem_obj) \<Rightarrow> strela_job \<Rightarrow> kcall list" where
  "program_calls objs job =
     [Writel (regs_addr conf_regs) (binding_addr objs (job_config job)),
      Writel (regs_size conf_regs) (bnd_count (job_config job) * 4)]
     @ concat (map (\<lambda>i.
         [Writel (regs_addr (inp_regs ! i)) (binding_addr objs (job_inputs job ! i)),
          Writel (regs_size (inp_regs ! i)) (strela_input_size (bnd_count (job_inputs job ! i)) (job_input_strides job ! i)),
          Writel (regs_addr (out_regs ! i)) (binding_addr objs (job_outputs job ! i)),
          Writel (regs_size (out_regs ! i)) (bnd_count (job_outputs job ! i) * 4)]) [0..<STRELA_NUM_IO_COLS])
     @ [Writel STRELA_REG_OUT_ARB_HOLD STRELA_OUT_ARB_HOLD_ENABLE]"

lemma write_binding_some:
  "bnd_obj b \<noteq> None \<Longrightarrow> strela_hw_write_binding b r z d =
     Some (emit [Writel (regs_addr r) (binding_addr (sd_objs d) b), Writel (regs_size r) z] d)"
  by (auto simp: strela_hw_write_binding_def strela_binding_addr_def binding_addr_def)

lemma hw_program_cols_calls:
  assumes "\<forall>i \<in> set is. bnd_obj (job_inputs job ! i) \<noteq> None \<and> bnd_obj (job_outputs job ! i) \<noteq> None"
  shows "hw_program_cols is job d = Some (emit (concat (map (\<lambda>i.
         [Writel (regs_addr (inp_regs ! i)) (binding_addr (sd_objs d) (job_inputs job ! i)),
          Writel (regs_size (inp_regs ! i)) (strela_input_size (bnd_count (job_inputs job ! i)) (job_input_strides job ! i)),
          Writel (regs_addr (out_regs ! i)) (binding_addr (sd_objs d) (job_outputs job ! i)),
          Writel (regs_size (out_regs ! i)) (bnd_count (job_outputs job ! i) * 4)]) is)) d)"
  using assms by (induction "is" arbitrary: d) (simp_all add: write_binding_some)

lemma job_bound_objs:
  assumes "job_bound env objs args job"
  shows "bnd_obj (job_config job) \<noteq> None"
    "i < STRELA_NUM_IO_COLS \<Longrightarrow> bnd_obj (job_inputs job ! i) \<noteq> None \<and> bnd_obj (job_outputs job ! i) \<noteq> None"
  using assms by (auto simp: job_bound_def col_bound_def bound_def)

lemma hw_program_calls:
  assumes "job_bound env objs args job" "\<not> sd_is_sim d"
  shows "strela_hw_program job d = Some (emit (program_calls (sd_objs d) job) d)"
proof -
  have "\<forall>i \<in> set [0..<STRELA_NUM_IO_COLS]. bnd_obj (job_inputs job ! i) \<noteq> None \<and> bnd_obj (job_outputs job ! i) \<noteq> None"
    using job_bound_objs[OF assms(1)] by simp
  note cols = hw_program_cols_calls[OF this]
  show ?thesis
    using assms(2) job_bound_objs(1)[OF assms(1)] cols
    by (simp add: strela_hw_program_def write_binding_some program_calls_def)
qed

text \<open>The writes of a column, with the columns' registers as numbers.\<close>

definition col_calls :: "(nat \<Rightarrow> gem_obj) \<Rightarrow> strela_job \<Rightarrow> nat \<Rightarrow> kcall list" where
  "col_calls objs job i =
     [Writel (0x10 + of_nat i * 8) (binding_addr objs (job_inputs job ! i)),
      Writel (0x14 + of_nat i * 8) (strela_input_size (bnd_count (job_inputs job ! i)) (job_input_strides job ! i)),
      Writel (0x50 + of_nat i * 8) (binding_addr objs (job_outputs job ! i)),
      Writel (0x54 + of_nat i * 8) (bnd_count (job_outputs job ! i) * 4)]"

lemma program_calls_eq:
  "program_calls objs job =
     [Writel 0x04 (binding_addr objs (job_config job)), Writel 0x08 (bnd_count (job_config job) * 4)]
     @ col_calls objs job 0 @ col_calls objs job 1 @ col_calls objs job 2 @ col_calls objs job 3
     @ [Writel 0xA0 1]"
proof -
  have u: "[0..<STRELA_NUM_IO_COLS] = [0, 1, 2, 3]" by (simp add: STRELA_NUM_IO_COLS_def upt_rec)
  show ?thesis unfolding program_calls_def u
    by (simp add: conf_regs_def inp_regs_def out_regs_def strela_regs col_calls_def)
qed

lemma col_regs:
  assumes "i < STRELA_NUM_IO_COLS"
  shows "regs_addr (inp_regs ! i) = 0x10 + of_nat i * 8" "regs_size (inp_regs ! i) = 0x14 + of_nat i * 8"
    "regs_addr (out_regs ! i) = 0x50 + of_nat i * 8" "regs_size (out_regs ! i) = 0x54 + of_nat i * 8"
proof -
  have "i \<in> {0, 1, 2, 3}" using assms by (auto simp: STRELA_NUM_IO_COLS_def)
  then show "regs_addr (inp_regs ! i) = 0x10 + of_nat i * 8" "regs_size (inp_regs ! i) = 0x14 + of_nat i * 8"
    "regs_addr (out_regs ! i) = 0x50 + of_nat i * 8" "regs_size (out_regs ! i) = 0x54 + of_nat i * 8"
    by (auto simp: inp_regs_def out_regs_def)
qed

lemma program_regs:
  assumes "i < STRELA_NUM_IO_COLS"
  shows "reg_file (program_calls objs job) (regs_addr (inp_regs ! i)) = Some (binding_addr objs (job_inputs job ! i))"
    "reg_file (program_calls objs job) (regs_size (inp_regs ! i)) =
       Some (strela_input_size (bnd_count (job_inputs job ! i)) (job_input_strides job ! i))"
    "reg_file (program_calls objs job) (regs_addr (out_regs ! i)) = Some (binding_addr objs (job_outputs job ! i))"
    "reg_file (program_calls objs job) (regs_size (out_regs ! i)) = Some (bnd_count (job_outputs job ! i) * 4)"
proof -
  have i: "i = 0 \<or> i = 1 \<or> i = 2 \<or> i = 3" using assms by (auto simp: STRELA_NUM_IO_COLS_def)
  show "reg_file (program_calls objs job) (regs_addr (inp_regs ! i)) = Some (binding_addr objs (job_inputs job ! i))"
    using i unfolding col_regs[OF assms] program_calls_eq col_calls_def reg_file_def by (elim disjE) simp_all
  show "reg_file (program_calls objs job) (regs_size (inp_regs ! i)) =
       Some (strela_input_size (bnd_count (job_inputs job ! i)) (job_input_strides job ! i))"
    using i unfolding col_regs[OF assms] program_calls_eq col_calls_def reg_file_def by (elim disjE) simp_all
  show "reg_file (program_calls objs job) (regs_addr (out_regs ! i)) = Some (binding_addr objs (job_outputs job ! i))"
    using i unfolding col_regs[OF assms] program_calls_eq col_calls_def reg_file_def by (elim disjE) simp_all
  show "reg_file (program_calls objs job) (regs_size (out_regs ! i)) = Some (bnd_count (job_outputs job ! i) * 4)"
    using i unfolding col_regs[OF assms] program_calls_eq col_calls_def reg_file_def by (elim disjE) simp_all
qed

lemma program_regs_conf:
  "reg_file (program_calls objs job) (regs_addr conf_regs) = Some (binding_addr objs (job_config job))"
  "reg_file (program_calls objs job) (regs_size conf_regs) = Some (bnd_count (job_config job) * 4)"
  unfolding program_calls_eq col_calls_def reg_file_def conf_regs_def by simp_all

section \<open>What the DMA engines may touch\<close>

text \<open>An address register and a byte count that stay inside an object.\<close>

definition dma_inside :: "gem_obj \<Rightarrow> u32 option \<Rightarrow> nat \<Rightarrow> bool" where
  "dma_inside obj r n \<longleftrightarrow> (\<exists>a. r = Some a \<and> unat (gem_dma_addr obj) \<le> unat a
     \<and> unat a + n \<le> unat (gem_dma_addr obj) + unat (gem_size obj))"

definition obj_placed :: "gem_obj \<Rightarrow> bool" where
  "obj_placed obj \<longleftrightarrow> unat (gem_dma_addr obj) + unat (gem_size obj) < 4294967296"

lemma bound_dma_inside:
  assumes "bound env objs src b" "\<forall>x. obj_placed (objs x)"
  shows "dma_inside (objs (the (bnd_obj b))) (Some (binding_addr objs b))
     (unat (bnd_count b) * max (unat (bd_stride src)) 1 * 4)"
proof -
  obtain x where x: "b = \<lparr>bnd_obj = Some x, bnd_offset = bd_offset src, bnd_count = bd_count src\<rparr>"
    and f: "binding_fits (unat (gem_size (objs x))) src" using assms(1) by (auto simp: bound_def)
  have le: "unat (bd_offset src) * 4 + unat (bd_count src) * max (unat (bd_stride src)) 1 * 4 \<le> unat (gem_size (objs x))"
    using f by (simp add: binding_fits_def Let_def)
  have pl: "unat (gem_dma_addr (objs x)) + unat (gem_size (objs x)) < 4294967296"
    using assms(2) by (simp add: obj_placed_def)
  have u4: "unat (bd_offset src * 4) = unat (bd_offset src) * 4"
    using unat_mult_nowrap[of "bd_offset src" 4] le pl by simp
  have "unat (gem_dma_addr (objs x) + bd_offset src * 4) = unat (gem_dma_addr (objs x)) + unat (bd_offset src) * 4"
    using u4 le pl by (subst unat_add_nowrap) auto
  then show ?thesis using x le by (simp add: dma_inside_def binding_addr_def)
qed

lemma bound_count_bytes:
  assumes "bound env objs (unstrided src) b"
  shows "unat (bnd_count b * 4) = unat (bnd_count b) * 4"
proof -
  have "unat (bd_count src) * 4 \<le> 65535" "bnd_count b = bd_count src"
    using assms by (auto simp: bound_def binding_fits_def unstrided_def Let_def)
  then show ?thesis using unat_mult_nowrap[of "bd_count src" 4] by simp
qed

text \<open>The registers of the configuration, of an output column and of an input column of a bound job.\<close>

lemma conf_dma_inside:
  assumes "job_bound env objs args job" "\<forall>x. obj_placed (objs x)"
  shows "dma_inside (objs (the (bnd_obj (job_config job)))) (reg_file (program_calls objs job) (regs_addr conf_regs))
    (unat (the (reg_file (program_calls objs job) (regs_size conf_regs))))"
proof -
  have b: "bound env objs (unstrided (sub_config args)) (job_config job)" using assms(1) by (simp add: job_bound_def)
  show ?thesis using bound_dma_inside[OF b assms(2)] bound_count_bytes[OF b]
    by (simp add: program_regs_conf unstrided_def)
qed

lemma out_dma_inside:
  assumes "col_bound env objs args job i" "\<forall>x. obj_placed (objs x)" "i < STRELA_NUM_IO_COLS"
  shows "dma_inside (objs (the (bnd_obj (job_outputs job ! i)))) (reg_file (program_calls objs job) (regs_addr (out_regs ! i)))
    (unat (the (reg_file (program_calls objs job) (regs_size (out_regs ! i)))))"
proof -
  have b: "bound env objs (unstrided (sub_outputs args ! i)) (job_outputs job ! i)" using assms(1) by (simp add: col_bound_def)
  show ?thesis using bound_dma_inside[OF b assms(2)] bound_count_bytes[OF b]
    by (simp add: program_regs[OF assms(3)] unstrided_def)
qed

lemma inp_dma_inside:
  assumes "col_bound env objs args job i" "\<forall>x. obj_placed (objs x)" "i < STRELA_NUM_IO_COLS"
    and c: "bnd_count (job_inputs job ! i) \<noteq> 0"
  shows "dma_inside (objs (the (bnd_obj (job_inputs job ! i)))) (reg_file (program_calls objs job) (regs_addr (inp_regs ! i)))
    (unat (take_bit 16 (the (reg_file (program_calls objs job) (regs_size (inp_regs ! i))))))"
proof -
  have b: "bound env objs (sub_inputs args ! i) (job_inputs job ! i)"
    and s: "job_input_strides job ! i = bd_stride (sub_inputs args ! i)"
    using assms(1) by (auto simp: col_bound_def)
  obtain x where x: "job_inputs job ! i = \<lparr>bnd_obj = Some x, bnd_offset = bd_offset (sub_inputs args ! i),
      bnd_count = bd_count (sub_inputs args ! i)\<rparr>" "binding_fits (unat (gem_size (objs x))) (sub_inputs args ! i)"
    using b by (auto simp: bound_def)
  have "strela_binding_check (ucast (gem_size (objs x))) (sub_inputs args ! i) = 0" using x(2) by (simp add: binding_check_iff)
  from input_size_fields[OF this] have "unat (take_bit 16 (strela_input_size (bnd_count (job_inputs job ! i)) (job_input_strides job ! i)))
      = unat (bnd_count (job_inputs job ! i)) * max (unat (bd_stride (sub_inputs args ! i))) 1 * 4"
    using c x(1) s by simp
  then show ?thesis using bound_dma_inside[OF b assms(2)] by (simp add: program_regs[OF assms(3)])
qed

text \<open>C11. On the hardware, programming a job that a submit accepted sets the address and size registers so
  that every DMA engine stays inside the buffer object of its binding: the configuration and each
  output for the bytes of its size register, each input that moves data for the bytes of the low
  half of its size register.\<close>

theorem program_dma_in_bounds:
  assumes "strela_submit_ioctl env args d = (d', 0)" "env_job env = Some j" "\<not> sd_is_sim d"
    "\<forall>x. obj_placed (sd_objs d x)"
  shows "\<exists>job cs. sd_jobs d' j = Some job \<and> strela_hw_program job d' = Some (emit cs d')
    \<and> dma_inside (sd_objs d (the (bnd_obj (job_config job)))) (reg_file cs (regs_addr conf_regs))
        (unat (the (reg_file cs (regs_size conf_regs))))
    \<and> (\<forall>i < STRELA_NUM_IO_COLS.
        dma_inside (sd_objs d (the (bnd_obj (job_outputs job ! i)))) (reg_file cs (regs_addr (out_regs ! i)))
          (unat (the (reg_file cs (regs_size (out_regs ! i)))))
        \<and> (bnd_count (job_inputs job ! i) \<noteq> 0 \<longrightarrow>
            dma_inside (sd_objs d (the (bnd_obj (job_inputs job ! i)))) (reg_file cs (regs_addr (inp_regs ! i)))
              (unat (take_bit 16 (the (reg_file cs (regs_size (inp_regs ! i))))))))"
proof -
  obtain job where job: "sd_jobs d' j = Some job" and jb: "job_bound env (sd_objs d) args job"
    and same: "sd_objs d' = sd_objs d" "sd_is_sim d' = sd_is_sim d"
    using submit_success_job[OF assms(1,2)] by blast
  have run: "strela_hw_program job d' = Some (emit (program_calls (sd_objs d) job) d')"
    using hw_program_calls[OF jb, of d'] same assms(3) by simp
  have cols: "\<And>i. i < STRELA_NUM_IO_COLS \<Longrightarrow> col_bound env (sd_objs d) args job i" using jb by (auto simp: job_bound_def)
  show ?thesis
    using job run conf_dma_inside[OF jb assms(4)] out_dma_inside[OF cols assms(4)] inp_dma_inside[OF cols assms(4)] by blast
qed

theorem program_dma_in_bounds_witness:
  "\<exists>d' job cs. strela_submit_ioctl (one_buffer_env 1) (one_buffer_submit 1) (idle_device False) = (d', 0)
    \<and> sd_jobs d' 1 = Some job \<and> strela_hw_program job d' = Some (emit cs d')
    \<and> dma_inside (sd_objs (idle_device False) (the (bnd_obj (job_config job)))) (reg_file cs (regs_addr conf_regs))
        (unat (the (reg_file cs (regs_size conf_regs))))"
proof -
  obtain d' where r: "strela_submit_ioctl (one_buffer_env 1) (one_buffer_submit 1) (idle_device False) = (d', 0)"
    using one_buffer_runs(1)[of 1 False] by (metis prod.collapse)
  have "env_job (one_buffer_env 1) = Some 1" "\<not> sd_is_sim (idle_device False)" "\<forall>x. obj_placed (sd_objs (idle_device False) x)"
    by (simp_all add: one_buffer_env_def idle_device_def obj_placed_def)
  from program_dma_in_bounds[OF r this] r show ?thesis by blast
qed

end
