(* ===== verification/Sim.thy ===== *)
theory Sim
  imports Program
begin

text \<open>
  The simulated device of \<^verbatim>\<open>src/driver/strela_core.c\<close>: how long a phase takes and what its execution
  phase does, the bypass kernel.  The worker that runs it is part of the step relation in
  \<^verbatim>\<open>Machine\<close>.
\<close>

section \<open>Durations\<close>

text \<open>\<^verbatim>\<open>get_random_u32_below(n)\<close> is an input: a function that returns a number below its argument.\<close>

definition strela_sim_phase_us :: "u32 \<Rightarrow> (u32 \<Rightarrow> u32) \<Rightarrow> strela_job_phase \<Rightarrow> u64" where
  "strela_sim_phase_us sim_job_delay_us random_below phase =
     (let us = ucast sim_job_delay_us :: u64;
          us = (if phase = STRELA_JOB_PHASE_CONFIG then us div 4 else us);
          us = (if us = 0 then 1 else us)
      in us + ucast (random_below (ucast (us div 2 + 1))))"

section \<open>The bypass kernel\<close>

text \<open>
  One assignment of the copy loop.  The two buffers may be the same object.  An access outside the
  words of an object corrupts kernel memory (\<open>None\<close>).
\<close>

definition copy_word ::
  "(nat \<Rightarrow> gem_obj) \<Rightarrow> nat \<Rightarrow> u32 \<Rightarrow> u32 \<Rightarrow> nat \<Rightarrow> u32 \<Rightarrow> nat \<Rightarrow> (nat \<Rightarrow> gem_obj) option" where
  "copy_word objs x src_off stride y dst_off i =
     (case (gem_vaddr (objs x), gem_vaddr (objs y)) of
        (Some s, Some t) \<Rightarrow>
          (let si = unat src_off + unat (of_nat i * stride); di = unat dst_off + i in
           if si < length s \<and> di < length t
           then Some (objs(y := (objs y)\<lparr>gem_vaddr := Some (t[di := s ! si])\<rparr>)) else None)
      | _ \<Rightarrow> None)"

primrec copy_words ::
  "nat list \<Rightarrow> (nat \<Rightarrow> gem_obj) \<Rightarrow> nat \<Rightarrow> u32 \<Rightarrow> u32 \<Rightarrow> nat \<Rightarrow> u32 \<Rightarrow> (nat \<Rightarrow> gem_obj) option" where
  "copy_words [] objs x src_off stride y dst_off = Some objs"
| "copy_words (i # is) objs x src_off stride y dst_off =
     Option.bind (copy_word objs x src_off stride y dst_off i)
       (\<lambda>objs. copy_words is objs x src_off stride y dst_off)"

definition strela_sim_bypass_column ::
  "strela_binding \<Rightarrow> u32 \<Rightarrow> strela_binding \<Rightarrow> strela_device \<Rightarrow> (strela_device \<times> bool) option" where
  "strela_sim_bypass_column inp stride out sdev =
     (let fed = (bnd_count out \<le> bnd_count inp); n = min (bnd_count inp) (bnd_count out) in
      if n = 0 then Some (sdev, fed)
      else do {
        in_obj \<leftarrow> bnd_obj inp;
        out_obj \<leftarrow> bnd_obj out;
        if gem_vaddr (sd_objs sdev in_obj) = None \<or> gem_vaddr (sd_objs sdev out_obj) = None
        then Some (emit [Warn] sdev, fed)
        else do {
          in_addr \<leftarrow> strela_binding_addr sdev inp;
          out_addr \<leftarrow> strela_binding_addr sdev out;
          let sdev = emit [Sync_for_cpu in_addr (((n - 1) * stride + 1) * STRELA_WORD_SIZE32) DMA_FROM_DEVICE] sdev;
          objs \<leftarrow> copy_words [0..<unat n] (sd_objs sdev) in_obj (bnd_offset inp) stride out_obj (bnd_offset out);
          let sdev = emit [Sync_for_device out_addr (n * STRELA_WORD_SIZE32) DMA_TO_DEVICE] (sdev\<lparr>sd_objs := objs\<rparr>);
          Some (sdev, fed)
        }
      })"

section \<open>Durations: bounds\<close>

text \<open>A simulated phase takes at least its nominal time, at least one microsecond, and at most half as
  much again, whatever the module parameter and the random source.\<close>

theorem strela_sim_phase_us_bounds:
  fixes phase :: strela_job_phase and delay :: u32
  assumes "\<And>n. n \<noteq> 0 \<Longrightarrow> rnd n < n"
  defines "nominal \<equiv> max 1 (if phase = STRELA_JOB_PHASE_CONFIG then unat delay div 4 else unat delay)"
  shows "nominal \<le> unat (strela_sim_phase_us delay rnd phase)
    \<and> unat (strela_sim_phase_us delay rnd phase) \<le> nominal + nominal div 2"
proof -
  define us :: u64 where "us = (let us = ucast delay; us = (if phase = STRELA_JOB_PHASE_CONFIG then us div 4 else us)
    in if us = 0 then 1 else us)"
  have d4: "unat ((ucast delay :: u64) div 4) = unat delay div 4" by (simp add: unat_div)
  have us: "unat us = nominal" unfolding us_def nominal_def Let_def
    using d4 by (auto simp: max_def unat_eq_0[symmetric] simp del: unat_eq_0)
  have lt: "nominal < 4294967296" using unat_less_32[of delay] by (auto simp: nominal_def simp del: unat_less_32)
  have u2: "unat (us div 2 + 1) = nominal div 2 + 1"
    using us lt by (subst unat_add_64) (simp_all add: unat_div)
  define c :: u32 where "c = ucast (us div 2 + 1)"
  have uc: "unat c = nominal div 2 + 1"
    using u2 lt by (simp add: c_def unsigned_ucast_eq take_bit_nat_eq_self)
  then have "rnd c < c" by (intro assms(1)) auto
  then have rb: "unat (rnd c) \<le> nominal div 2" using uc by (simp add: word_less_nat_alt)
  have "strela_sim_phase_us delay rnd phase = us + ucast (rnd c)"
    by (simp add: strela_sim_phase_us_def us_def c_def Let_def)
  then have "unat (strela_sim_phase_us delay rnd phase) = nominal + unat (rnd c)"
    using us rb lt by (simp add: unat_add_64)
  then show ?thesis using rb by simp
qed

theorem strela_sim_phase_us_bounds_witness:
  "200 \<le> unat (strela_sim_phase_us 200 (\<lambda>n. n - 1) STRELA_JOB_PHASE_EXEC)
   \<and> unat (strela_sim_phase_us 200 (\<lambda>n. n - 1) STRELA_JOB_PHASE_EXEC) \<le> 300"
proof -
  have r: "n - 1 < n" if "n \<noteq> 0" for n :: u32
  proof -
    have "0 < unat n" using that by (simp add: unat_gt_0)
    then show ?thesis by (simp add: word_less_nat_alt unat_sub_nowrap)
  qed
  then show ?thesis
    using strela_sim_phase_us_bounds[where rnd = "\<lambda>n. n - 1" and delay = 200 and phase = STRELA_JOB_PHASE_EXEC]
    by simp
qed

section \<open>The bypass kernel: memory safety and function\<close>

text \<open>An object of the driver: as many words as its size says, mapped for the CPU.\<close>

definition gem_ok :: "gem_obj \<Rightarrow> bool" where
  "gem_ok obj \<longleftrightarrow> (\<exists>ws. gem_vaddr obj = Some ws \<and> length ws = unat (gem_size obj) div 4)"

text \<open>Only contents differ.\<close>

definition same_objs :: "(nat \<Rightarrow> gem_obj) \<Rightarrow> (nat \<Rightarrow> gem_obj) \<Rightarrow> bool" where
  "same_objs objs objs' \<longleftrightarrow> (\<forall>x. gem_size (objs' x) = gem_size (objs x) \<and> gem_dma_addr (objs' x) = gem_dma_addr (objs x)
     \<and> (gem_ok (objs x) \<longrightarrow> gem_ok (objs' x)))"

lemma same_objs_refl [simp]: "same_objs objs objs"
  by (simp add: same_objs_def)

lemma same_objs_trans: "same_objs a b \<Longrightarrow> same_objs b c \<Longrightarrow> same_objs a c"
  by (simp add: same_objs_def)

lemma word_index:
  assumes "binding_fits (unat (gem_size obj)) b" "i < unat (bd_count b)"
  shows "unat (of_nat i * bd_stride b) = i * unat (bd_stride b)"
    "unat (bd_offset b) + i * unat (bd_stride b) < unat (gem_size obj) div 4"
proof -
  note w = binding_fits_words[OF assms]
  then show "unat (bd_offset b) + i * unat (bd_stride b) < unat (gem_size obj) div 4"
    using div_le_mono[OF w, of 4] by simp
  have "unat (gem_size obj) < 4294967296" by simp
  moreover have "i * unat (bd_stride b) \<le> (unat (bd_offset b) + i * unat (bd_stride b)) * 4 + 4" by simp
  ultimately have lt: "i * unat (bd_stride b) < 4294967296" using w by linarith
  have "i < 4294967296" using assms(2) unat_less_32[of "bd_count b"] by linarith
  then have "unat (of_nat i :: u32) = i" by (rule unat_of_nat_32)
  then show "unat (of_nat i * bd_stride b) = i * unat (bd_stride b)"
    using unat_mult_nowrap[of "of_nat i" "bd_stride b"] lt by simp
qed

lemma copy_words_safe:
  assumes "binding_fits (unat (gem_size (objs x))) src" "binding_fits (unat (gem_size (objs y))) dst" "bd_stride dst = 1"
    "\<forall>x. gem_ok (objs x)" "\<forall>i \<in> set is. i < unat (bd_count src) \<and> i < unat (bd_count dst)"
  shows "\<exists>objs'. copy_words is objs x (bd_offset src) (bd_stride src) y (bd_offset dst) = Some objs' \<and> same_objs objs objs'"
  using assms
proof (induction "is" arbitrary: objs)
  case (Cons i "is")
  obtain s t where st: "gem_vaddr (objs x) = Some s" "length s = unat (gem_size (objs x)) div 4"
    "gem_vaddr (objs y) = Some t" "length t = unat (gem_size (objs y)) div 4"
    using Cons.prems(4) unfolding gem_ok_def by metis
  have i: "i < unat (bd_count src)" "i < unat (bd_count dst)" using Cons.prems(5) by auto
  define objs1 where "objs1 = objs(y := (objs y)\<lparr>gem_vaddr := Some (t[unat (bd_offset dst) + i :=
    s ! (unat (bd_offset src) + unat (of_nat i * bd_stride src))])\<rparr>)"
  have c: "copy_word objs x (bd_offset src) (bd_stride src) y (bd_offset dst) i = Some objs1"
    using st word_index[OF Cons.prems(1) i(1)] word_index(2)[OF Cons.prems(2) i(2)] Cons.prems(3)
    by (simp add: copy_word_def objs1_def Let_def)
  have s1: "same_objs objs objs1" using st by (auto simp: objs1_def same_objs_def gem_ok_def)
  then have "\<forall>x. gem_ok (objs1 x)" "gem_size (objs1 x) = gem_size (objs x)" "gem_size (objs1 y) = gem_size (objs y)"
    using Cons.prems(4) by (auto simp: same_objs_def)
  then obtain objs' where "copy_words is objs1 x (bd_offset src) (bd_stride src) y (bd_offset dst) = Some objs'" "same_objs objs1 objs'"
    using Cons.IH[of objs1] Cons.prems by auto
  then show ?case using c same_objs_trans[OF s1] by simp
qed simp

text \<open>The contents of the objects, word by word.\<close>

definition obj_word :: "(nat \<Rightarrow> gem_obj) \<Rightarrow> nat \<Rightarrow> nat \<Rightarrow> u32" where
  "obj_word objs x k = the (gem_vaddr (objs x)) ! k"

lemma copy_words_append:
  "copy_words (is @ js) objs x io st y oo = Option.bind (copy_words is objs x io st y oo) (\<lambda>objs. copy_words js objs x io st y oo)"
  by (induction "is" arbitrary: objs) (auto split: option.splits bind_splits)

lemma copy_word_content:
  assumes "copy_word objs x io st y oo i = Some objs'"
  shows "obj_word objs' z k = (if z = y \<and> k = unat oo + i then obj_word objs x (unat io + unat (of_nat i * st)) else obj_word objs z k)"
  using assms by (auto simp: copy_word_def obj_word_def Let_def split: option.splits if_splits)

text \<open>Copying is exact as long as no word is read after it was overwritten.\<close>

lemma copy_words_content:
  assumes "copy_words [0..<n] objs x io st y oo = Some objs'"
    and "\<And>i. i < n \<Longrightarrow> unat (of_nat i * st) = i * unat st"
    and "\<And>i k. k < i \<Longrightarrow> i < n \<Longrightarrow> x \<noteq> y \<or> unat io + i * unat st \<noteq> unat oo + k"
  shows "obj_word objs' z k = (if z = y \<and> unat oo \<le> k \<and> k < unat oo + n
     then obj_word objs x (unat io + (k - unat oo) * unat st) else obj_word objs z k)"
  using assms
proof (induction n arbitrary: objs' z k)
  case (Suc n)
  obtain objs1 where o: "copy_words [0..<n] objs x io st y oo = Some objs1" "copy_word objs1 x io st y oo n = Some objs'"
    using Suc.prems(1) by (auto simp: copy_words_append split: bind_splits)
  note IH = Suc.IH[OF o(1) Suc.prems(2,3)]
  have "obj_word objs1 x (unat io + n * unat st) = obj_word objs x (unat io + n * unat st)"
  proof -
    have "\<not> (x = y \<and> unat oo \<le> unat io + n * unat st \<and> unat io + n * unat st < unat oo + n)"
      using Suc.prems(3)[of "unat io + n * unat st - unat oo" n] by (metis le_add_diff_inverse lessI less_diff_conv2 add.commute)
    with IH[of x "unat io + n * unat st"] show ?thesis by (simp only: if_False)
  qed
  moreover have "unat (of_nat n * st) = n * unat st" using Suc.prems(2)[of n] by simp
  ultimately show ?case using copy_word_content[OF o(2), of z k] IH[of z k] by (auto simp: less_Suc_eq)
qed auto

text \<open>What a column does, from resolved bindings.\<close>

lemma bypass_column_result:
  assumes b: "bound env (sd_objs d) src inp" "bound env (sd_objs d) (unstrided dst) out"
    and ok: "\<forall>x. gem_ok (sd_objs d x)"
  shows "\<exists>cs objs'. strela_sim_bypass_column inp (bd_stride src) out d =
      Some (emit cs (d\<lparr>sd_objs := objs'\<rparr>), bnd_count out \<le> bnd_count inp)
    \<and> same_objs (sd_objs d) objs' \<and> (\<forall>c \<in> set cs. \<exists>a n r. c = Sync_for_cpu a n r \<or> c = Sync_for_device a n r)
    \<and> copy_words [0..<min (unat (bnd_count inp)) (unat (bnd_count out))] (sd_objs d) (the (bnd_obj inp)) (bnd_offset inp)
        (bd_stride src) (the (bnd_obj out)) (bnd_offset out) = Some objs'"
proof -
  obtain x y where x: "inp = \<lparr>bnd_obj = Some x, bnd_offset = bd_offset src, bnd_count = bd_count src\<rparr>"
      "binding_fits (unat (gem_size (sd_objs d x))) src"
    and y: "out = \<lparr>bnd_obj = Some y, bnd_offset = bd_offset (unstrided dst), bnd_count = bd_count (unstrided dst)\<rparr>"
      "binding_fits (unat (gem_size (sd_objs d y))) (unstrided dst)"
    using b by (auto simp: bound_def)
  have n: "unat (min (bnd_count inp) (bnd_count out)) = min (unat (bnd_count inp)) (unat (bnd_count out))"
    by (simp add: min_def word_le_nat_alt)
  obtain objs' where c: "copy_words [0..<min (unat (bnd_count inp)) (unat (bnd_count out))] (sd_objs d) x (bd_offset src)
      (bd_stride src) y (bd_offset (unstrided dst)) = Some objs'" "same_objs (sd_objs d) objs'"
    using copy_words_safe[OF x(2) y(2) _ ok, of "[0..<min (unat (bnd_count inp)) (unat (bnd_count out))]"] x(1) y(1)
    by (auto simp: unstrided_def)
  obtain s t where va: "gem_vaddr (sd_objs d x) = Some s" "gem_vaddr (sd_objs d y) = Some t"
    using ok unfolding gem_ok_def by metis
  show ?thesis
  proof (cases "min (bnd_count inp) (bnd_count out) = 0")
    case True
    then have z: "min (unat (bnd_count inp)) (unat (bnd_count out)) = 0" using n by (metis unat_0)
    have "strela_sim_bypass_column inp (bd_stride src) out d = Some (emit [] (d\<lparr>sd_objs := sd_objs d\<rparr>), bnd_count out \<le> bnd_count inp)"
      using True by (simp add: strela_sim_bypass_column_def Let_def)
    then show ?thesis using z by (intro exI[of _ "[]"] exI[of _ "sd_objs d"]) simp
  next
    case False
    let ?n = "min (bnd_count inp) (bnd_count out)"
    let ?cs = "[Sync_for_cpu (gem_dma_addr (sd_objs d x) + bd_offset src * 4) (((?n - 1) * bd_stride src + 1) * 4) DMA_FROM_DEVICE,
       Sync_for_device (gem_dma_addr (sd_objs d y) + bd_offset (unstrided dst) * 4) (?n * 4) DMA_TO_DEVICE]"
    have "strela_sim_bypass_column inp (bd_stride src) out d = Some (emit ?cs (d\<lparr>sd_objs := objs'\<rparr>), bnd_count out \<le> bnd_count inp)"
      using False va c(1) x(1) y(1) n
      by (simp add: strela_sim_bypass_column_def strela_binding_addr_def Let_def emit_def)
    then show ?thesis using c x(1) y(1) by (intro exI[of _ ?cs] exI[of _ objs']) auto
  qed
qed

text \<open>
  The words a column writes, the word each of them comes from, and the condition that none is read
  after it was overwritten: input and output in different objects, or in one object with the output
  not ahead of the input.
\<close>

definition col_len :: "strela_binding \<Rightarrow> strela_binding \<Rightarrow> nat" where
  "col_len inp out = min (unat (bnd_count inp)) (unat (bnd_count out))"

definition col_writes :: "strela_binding \<Rightarrow> strela_binding \<Rightarrow> nat \<Rightarrow> nat \<Rightarrow> bool" where
  "col_writes inp out z k \<longleftrightarrow> bnd_obj out = Some z \<and> unat (bnd_offset out) \<le> k \<and> k < unat (bnd_offset out) + col_len inp out"

definition col_source :: "strela_binding \<Rightarrow> u32 \<Rightarrow> strela_binding \<Rightarrow> (nat \<Rightarrow> gem_obj) \<Rightarrow> nat \<Rightarrow> u32" where
  "col_source inp stride out objs k =
     obj_word objs (the (bnd_obj inp)) (unat (bnd_offset inp) + (k - unat (bnd_offset out)) * unat stride)"

definition col_ordered :: "strela_binding \<Rightarrow> u32 \<Rightarrow> strela_binding \<Rightarrow> bool" where
  "col_ordered inp stride out \<longleftrightarrow> (\<forall>i < col_len inp out. \<forall>k < i. bnd_obj inp \<noteq> bnd_obj out
     \<or> unat (bnd_offset inp) + i * unat stride \<noteq> unat (bnd_offset out) + k)"

lemma bypass_column_content:
  assumes "bound env (sd_objs d) src inp" "bound env (sd_objs d) (unstrided dst) out" "col_ordered inp (bd_stride src) out"
    and "copy_words [0..<col_len inp out] (sd_objs d) (the (bnd_obj inp)) (bnd_offset inp)
        (bd_stride src) (the (bnd_obj out)) (bnd_offset out) = Some objs'"
  shows "obj_word objs' z k = (if col_writes inp out z k then col_source inp (bd_stride src) out (sd_objs d) k else obj_word (sd_objs d) z k)"
proof -
  obtain x where x: "inp = \<lparr>bnd_obj = Some x, bnd_offset = bd_offset src, bnd_count = bd_count src\<rparr>"
    "binding_fits (unat (gem_size (sd_objs d x))) src" using assms(1) by (auto simp: bound_def)
  obtain y where y: "bnd_obj out = Some y" using assms(2) by (auto simp: bound_def)
  have "unat (of_nat i * bd_stride src) = i * unat (bd_stride src)" if "i < col_len inp out" for i
    using word_index(1)[OF x(2), of i] that x(1) by (simp add: col_len_def)
  moreover have "the (bnd_obj inp) \<noteq> the (bnd_obj out) \<or> unat (bnd_offset inp) + i * unat (bd_stride src) \<noteq> unat (bnd_offset out) + k"
    if "k < i" "i < col_len inp out" for i k using that assms(3) x(1) y by (auto simp: col_ordered_def)
  ultimately show ?thesis using copy_words_content[OF assms(4)] y by (auto simp: col_writes_def col_source_def)
qed

text \<open>For bindings a submit accepted, a simulated column never reads or writes outside its buffers, even
  when input and output are the same buffer.  Unless the output runs ahead of the input in one
  buffer, word \<open>i\<close> of the output range becomes word \<open>i\<close> times stride of the input range, for the
  shorter of the two counts, every other word of every object keeps its value, and the column reports
  whether its output was fed completely.\<close>

theorem sim_bypass_column_copies:
  assumes "bound env (sd_objs d) src inp" "bound env (sd_objs d) (unstrided dst) out" "\<forall>x. gem_ok (sd_objs d x)"
  shows "\<exists>d'. strela_sim_bypass_column inp (bd_stride src) out d = Some (d', bnd_count out \<le> bnd_count inp)
    \<and> (\<forall>x. gem_ok (sd_objs d' x))
    \<and> (col_ordered inp (bd_stride src) out \<longrightarrow> (\<forall>z k. obj_word (sd_objs d') z k =
         (if col_writes inp out z k then col_source inp (bd_stride src) out (sd_objs d) k else obj_word (sd_objs d) z k)))"
proof -
  obtain cs objs' where r: "strela_sim_bypass_column inp (bd_stride src) out d =
      Some (emit cs (d\<lparr>sd_objs := objs'\<rparr>), bnd_count out \<le> bnd_count inp)" "same_objs (sd_objs d) objs'"
    "copy_words [0..<col_len inp out] (sd_objs d) (the (bnd_obj inp)) (bnd_offset inp) (bd_stride src) (the (bnd_obj out)) (bnd_offset out) = Some objs'"
    using bypass_column_result[OF assms] unfolding col_len_def by blast
  have "\<forall>x. gem_ok (objs' x)" using r(2) assms(3) by (simp add: same_objs_def)
  then show ?thesis using r(1) bypass_column_content[OF assms(1,2) _ r(3)]
    by (intro exI[of _ "emit cs (d\<lparr>sd_objs := objs'\<rparr>)"]) auto
qed

text \<open>An example: two buffers of four words, the second word of every pair copied.\<close>

definition two_buffers :: "strela_device" where
  "two_buffers = (idle_device True)\<lparr>sd_objs := (\<lambda>x. \<lparr>gem_size = 16, gem_dma_addr = 0,
     gem_vaddr = Some (if x = 0 then [10, 11, 12, 13] else [0, 0, 0, 0])\<rparr>)\<rparr>"

theorem sim_bypass_column_copies_witness:
  "\<exists>d'. strela_sim_bypass_column \<lparr>bnd_obj = Some 0, bnd_offset = 0, bnd_count = 2\<rparr> 2
      \<lparr>bnd_obj = Some 1, bnd_offset = 1, bnd_count = 2\<rparr> two_buffers = Some (d', True)
    \<and> obj_word (sd_objs d') 1 1 = 10 \<and> obj_word (sd_objs d') 1 2 = 12 \<and> obj_word (sd_objs d') 1 3 = 0"
proof -
  let ?i = "\<lparr>bnd_obj = Some 0, bnd_offset = 0, bnd_count = 2\<rparr>" and ?o = "\<lparr>bnd_obj = Some 1, bnd_offset = 1, bnd_count = 2\<rparr>"
  let ?src = "\<lparr>bd_handle = 0, bd_offset = 0, bd_count = 2, bd_stride = 2\<rparr>" and ?dst = "\<lparr>bd_handle = 1, bd_offset = 1, bd_count = 2\<rparr>"
  let ?env = "(one_buffer_env 0)\<lparr>env_gem_lookup := (\<lambda>h. Some (unat h))\<rparr>"
  have b: "bound ?env (sd_objs two_buffers) ?src ?i" "bound ?env (sd_objs two_buffers) (unstrided ?dst) ?o"
    "\<forall>x. gem_ok (sd_objs two_buffers x)"
    by (auto simp: bound_def two_buffers_def binding_fits_def unstrided_def gem_ok_def Let_def)
  have o: "col_ordered ?i 2 ?o" by (simp add: col_ordered_def)
  obtain d' where r: "strela_sim_bypass_column ?i 2 ?o two_buffers = Some (d', True)"
    "\<And>z k. obj_word (sd_objs d') z k = (if col_writes ?i ?o z k then col_source ?i 2 ?o (sd_objs two_buffers) k else obj_word (sd_objs two_buffers) z k)"
    using sim_bypass_column_copies[OF b] o by auto
  have "obj_word (sd_objs d') 1 1 = 10" "obj_word (sd_objs d') 1 2 = 12" "obj_word (sd_objs d') 1 3 = 0"
    unfolding r(2) by (simp_all add: col_writes_def col_len_def col_source_def obj_word_def two_buffers_def)
  then show ?thesis using r(1) by blast
qed

end
