(* ===== verification/Machine.thy ===== *)
theory Machine
  imports Sim
begin

text \<open>
  The driver among its callers: the step relation says what may happen when, in which order and
  interleaving, and the theorems hold for every run.

  The steps of the scheduler are those its documentation, and \<^verbatim>\<open>src/DESIGN.md\<close> (D4, D7), describe.  It
  has one credit: it calls \<^verbatim>\<open>run_job\<close> only when no job is running and it is not stopped.  Each open file
  is an entity of its own (\<^verbatim>\<open>strela_open_file\<close>): the jobs of one client start in the order they were
  pushed, those of different clients in any order, which is also how a job that waits for a sync object
  is overtaken.  A job that
  runs leaves when its hardware fence signals, or when the scheduler is restarted after a
  timeout; then it is freed.  A job that waits is freed without running when its client closes the file
  and is killed (\<^verbatim>\<open>strela_postclose\<close>), at any time.  A timeout handler runs stop, abort and restart in order, and others
  run in between.  The interrupt's thread runs once after a handler that woke it, and no handler
  runs while it is pending (\<^verbatim>\<open>IRQF_ONESHOT\<close>); the status it reads is whatever the hardware says.
  The worker of a simulated device runs once for every time it was queued, one step per wait.  A submit is
  one step: before the push it works on a job nobody else has, except for the fence number that it
  takes under the lock.
\<close>

section \<open>States\<close>

text \<open>How far a timeout handler has come: the scheduler is stopped, the active job is off the device,
  the device is being stopped, the device has stopped.\<close>

datatype tdr = Tdr_idle | Tdr_stopped | Tdr_aborted | Tdr_stopping | Tdr_reset

text \<open>Where the simulated device's worker is in \<^verbatim>\<open>strela_sim_work\<close>: queued; in the wait of the
  configuration phase, or past it; in the wait before column \<open>i\<close>, or past it; past the last column.
  Beside its position it holds the job pointer and whether every column so far was fed.\<close>

datatype sim_pc = Sim_idle | Sim_queued
  | Sim_config_wait nat | Sim_config_done nat
  | Sim_col_wait nat nat bool | Sim_col nat nat bool
  | Sim_finish nat

text \<open>\<^verbatim>\<open>m_client\<close> says which open file submitted a job.\<close>

record machine =
  m_dev :: strela_device
  m_queue :: "nat list"
  m_client :: "nat \<Rightarrow> nat"
  m_run :: "nat option"
  m_done :: "nat list"
  m_tdr :: tdr
  m_irq :: bool
  m_sim :: sim_pc

definition machine_init :: "strela_device \<Rightarrow> machine" where
  "machine_init sdev = \<lparr>m_dev = sdev, m_queue = [], m_client = (\<lambda>_. 0), m_run = None, m_done = [], m_tdr = Tdr_idle, m_irq = False, m_sim = Sim_idle\<rparr>"

text \<open>A device right after probing, which writes registers only.\<close>

definition fresh_device :: "strela_device \<Rightarrow> bool" where
  "fresh_device sdev \<longleftrightarrow> sd_active sdev = None \<and> (\<forall>j. sd_jobs sdev j = None) \<and> (\<forall>c \<in> set (sd_calls sdev). \<exists>r v. c = Writel r v)
     \<and> (\<forall>x. gem_ok (sd_objs sdev x))"

section \<open>The simulated device's worker\<close>

text \<open>
  \<^verbatim>\<open>strela_sim_work\<close>, one step at a time.  \<^verbatim>\<open>strela_sim_wait\<close> is true for a wait that ran its course; it ends
  early when \<^verbatim>\<open>sim_abort\<close> is set, and then so does the worker.  \<open>None\<close> is a use after free or an access outside a buffer.
\<close>

definition strela_sim_wait :: "strela_device \<Rightarrow> bool" where
  [simp]: "strela_sim_wait sdev \<longleftrightarrow> \<not> sd_sim_abort sdev"

fun strela_sim_work :: "sim_pc \<Rightarrow> strela_device \<Rightarrow> (strela_device \<times> sim_pc) option" where
  "strela_sim_work Sim_idle sdev = Some (sdev, Sim_idle)"
| "strela_sim_work Sim_queued sdev =
     Some (sdev, case sd_active sdev of None \<Rightarrow> Sim_idle | Some job \<Rightarrow> Sim_config_wait job)"
| "strela_sim_work (Sim_config_wait job) sdev =
     Some (sdev, if strela_sim_wait sdev then Sim_config_done job else Sim_idle)"
| "strela_sim_work (Sim_config_done job) sdev = do {
     sdev \<leftarrow> strela_job_phase_done STRELA_JOB_PHASE_CONFIG sdev;
     Some (sdev, Sim_col_wait job 0 True)
   }"
| "strela_sim_work (Sim_col_wait job i fed) sdev =
     Some (sdev, if strela_sim_wait sdev then Sim_col job i fed else Sim_idle)"
| "strela_sim_work (Sim_col job i fed) sdev = do {
     j \<leftarrow> sd_jobs sdev job;
     (sdev, ok) \<leftarrow> strela_sim_bypass_column (job_inputs j ! i) (job_input_strides j ! i) (job_outputs j ! i) sdev;
     let fed = (fed \<and> ok);
     Some (sdev, if i + 1 < STRELA_NUM_IO_COLS then Sim_col_wait job (i + 1) fed
                 else if fed then Sim_finish job else Sim_idle)
   }"
| "strela_sim_work (Sim_finish job) sdev = do {
     sdev \<leftarrow> strela_job_phase_done STRELA_JOB_PHASE_EXEC sdev;
     Some (sdev, Sim_idle)
   }"

section \<open>Steps\<close>

text \<open>The memory for a new job and its fence is not in use: no live job is there, and the fence was
  never initialised before.\<close>

definition fresh_alloc :: "submit_env \<Rightarrow> strela_device \<Rightarrow> bool" where
  "fresh_alloc env sdev \<longleftrightarrow> (\<forall>j. env_job env = Some j \<longrightarrow> sd_jobs sdev j = None)
     \<and> (\<forall>f q. env_fence env = Some f \<longrightarrow> Fence_init f q \<notin> set (sd_calls sdev))"

inductive machine_step :: "machine \<Rightarrow> machine \<Rightarrow> bool" where
  submit: "fresh_alloc env (m_dev m) \<Longrightarrow> strela_submit_ioctl env args (m_dev m) = (d, ret) \<Longrightarrow>
    q = (if ret = 0 then m_queue m @ [the (env_job env)] else m_queue m) \<Longrightarrow>
    cl = (if ret = 0 then (m_client m)(the (env_job env) := c) else m_client m) \<Longrightarrow>
    machine_step m (m\<lparr>m_dev := d, m_queue := q, m_client := cl\<rparr>)"
| run: "m_run m = None \<Longrightarrow> m_tdr m = Tdr_idle \<Longrightarrow> m_queue m = p @ j # q \<Longrightarrow>
    \<forall>i \<in> set p. m_client m i \<noteq> m_client m j \<Longrightarrow> strela_run_job j (m_dev m) = Some (d, f) \<Longrightarrow>
    machine_step m (m\<lparr>m_dev := d, m_run := Some j, m_queue := p @ q,
      m_sim := (if sd_is_sim d then Sim_queued else m_sim m)\<rparr>)"
| complete: "m_run m = Some j \<Longrightarrow> m_tdr m = Tdr_idle \<Longrightarrow> sd_jobs (m_dev m) j = Some job \<Longrightarrow>
    signaled (m_dev m) (job_hw_fence job) \<Longrightarrow>
    machine_step m (m\<lparr>m_run := None, m_done := m_done m @ [j]\<rparr>)"
| free: "m_tdr m = Tdr_idle \<Longrightarrow> m_done m = j # js \<Longrightarrow> strela_free_job j (m_dev m) = Some d \<Longrightarrow>
    machine_step m (m\<lparr>m_dev := d, m_done := js\<rparr>)"
| kill: "m_queue m = p @ j # q \<Longrightarrow> strela_free_job j (m_dev m) = Some d \<Longrightarrow>
    machine_step m (m\<lparr>m_dev := d, m_queue := p @ q\<rparr>)"
| tdr_stop: "m_tdr m = Tdr_idle \<Longrightarrow> m_run m = Some k \<or> k \<in> set (m_done m) \<Longrightarrow>
    machine_step m (m\<lparr>m_dev := emit [Sched_stop k] (m_dev m), m_tdr := Tdr_stopped\<rparr>)"
| tdr_abort: "m_tdr m = Tdr_stopped \<Longrightarrow> machine_step m (m\<lparr>m_dev := abort_locked (m_dev m), m_tdr := Tdr_aborted\<rparr>)"
| tdr_hw_stop: "m_tdr m = Tdr_aborted \<Longrightarrow> machine_step m (m\<lparr>m_dev := strela_hw_stop (m_dev m), m_tdr := Tdr_stopping\<rparr>)"
| tdr_settled: "m_tdr m = Tdr_stopping \<Longrightarrow> m_sim m = Sim_idle \<or> m_sim m = Sim_queued \<Longrightarrow>
    machine_step m (m\<lparr>m_tdr := Tdr_reset, m_sim := Sim_idle\<rparr>)"
| tdr_start: "m_tdr m = Tdr_reset \<Longrightarrow>
    machine_step m (m\<lparr>m_dev := emit [Sched_start] (m_dev m), m_tdr := Tdr_idle, m_run := None,
      m_done := m_done m @ (case m_run m of None \<Rightarrow> [] | Some j \<Rightarrow> [j])\<rparr>)"
| irq: "\<not> sd_is_sim (m_dev m) \<Longrightarrow> \<not> m_irq m \<Longrightarrow> strela_irq_handler status (m_dev m) = (d, r) \<Longrightarrow>
    machine_step m (m\<lparr>m_dev := d, m_irq := (r = IRQ_WAKE_THREAD)\<rparr>)"
| irq_thread: "m_irq m \<Longrightarrow> strela_irq_thread_fn (m_dev m) = Some (d, r) \<Longrightarrow>
    machine_step m (m\<lparr>m_dev := d, m_irq := False\<rparr>)"
| sim: "strela_sim_work (m_sim m) (m_dev m) = Some (d, pc) \<Longrightarrow>
    machine_step m (m\<lparr>m_dev := d, m_sim := pc\<rparr>)"

text \<open>The states of all runs from a freshly probed device.\<close>

inductive reachable :: "machine \<Rightarrow> bool" where
  init: "fresh_device sdev \<Longrightarrow> reachable (machine_init sdev)"
| step: "reachable m \<Longrightarrow> machine_step m m' \<Longrightarrow> reachable m'"

end
