(* ===== verification/MachineInv.thy ===== *)
theory MachineInv
  imports Machine
begin

text \<open>
  The invariant of the driver's runs.  The first part is about the device alone and survives every
  update that makes no fence and no warning; the second part ties the device to the scheduler, the
  timeout handler and the simulated worker.
\<close>

section \<open>The device\<close>

definition job_ok :: "(nat \<Rightarrow> gem_obj) \<Rightarrow> strela_job \<Rightarrow> bool" where
  "job_ok objs job \<longleftrightarrow> (\<exists>env args. job_bound env objs args job)"

definition initialised :: "strela_device \<Rightarrow> nat \<Rightarrow> bool" where
  "initialised d f \<longleftrightarrow> (\<exists>q. Fence_init f q \<in> set (sd_calls d))"

definition static_inv :: "strela_device \<Rightarrow> bool" where
  "static_inv d \<longleftrightarrow>
     (\<forall>j job. sd_jobs d j = Some job \<longrightarrow> job_ok (sd_objs d) job \<and> initialised d (job_hw_fence job))
     \<and> (\<forall>i j ji jj. sd_jobs d i = Some ji \<and> sd_jobs d j = Some jj \<and> job_hw_fence ji = job_hw_fence jj \<longrightarrow> i = j)
     \<and> Warn \<notin> set (sd_calls d)
     \<and> (\<forall>f. count_list (sd_calls d) (Fence_signal f) \<le> 1)
     \<and> (\<forall>f. signaled d f \<longrightarrow> initialised d f)
     \<and> (\<forall>x. gem_ok (sd_objs d x))"

text \<open>Calls that neither warn nor create or signal a fence, and those among them that give back no
  reference and take none on an object.\<close>

fun calm_call :: "kcall \<Rightarrow> bool" where
  "calm_call Warn = False"
| "calm_call (Fence_init _ _) = False"
| "calm_call (Fence_signal _) = False"
| "calm_call _ = True"

fun quiet_call :: "kcall \<Rightarrow> bool" where
  "quiet_call (Gem_lookup _) = False"
| "quiet_call (Gem_put _) = False"
| "quiet_call (Fence_put _) = False"
| "quiet_call c = calm_call c"

definition job_core :: "strela_job \<Rightarrow> strela_job" where
  "job_core job = job\<lparr>job_phase := STRELA_JOB_PHASE_CONFIG\<rparr>"

definition quiet_update :: "strela_device \<Rightarrow> strela_device \<Rightarrow> bool" where
  "quiet_update d d' \<longleftrightarrow> (\<exists>cs. sd_calls d' = sd_calls d @ cs \<and> list_all quiet_call cs)
     \<and> same_objs (sd_objs d) (sd_objs d') \<and> sd_is_sim d' = sd_is_sim d
     \<and> (\<forall>j. map_option job_core (sd_jobs d' j) = map_option job_core (sd_jobs d j))"

lemma job_ok_same: "job_ok objs job \<Longrightarrow> same_objs objs objs' \<Longrightarrow> job_ok objs' job"
  by (fastforce simp: job_ok_def job_bound_def col_bound_def bound_def same_objs_def)

lemma job_bound_phase [simp]: "job_bound env objs args (job\<lparr>job_phase := p\<rparr>) = job_bound env objs args job"
  by (simp add: job_bound_def col_bound_def job_shape_def)

lemma job_core_eq: "job_core a = job_core b \<Longrightarrow> job_hw_fence a = job_hw_fence b \<and> job_ok objs a = job_ok objs b"
proof -
  assume "job_core a = job_core b"
  then obtain p where "a = b\<lparr>job_phase := p\<rparr>" by (cases a; cases b) (auto simp: job_core_def)
  then show ?thesis by (simp add: job_ok_def)
qed

lemma quiet_calm: "list_all quiet_call cs \<Longrightarrow> list_all calm_call cs"
proof (induction cs)
  case (Cons c cs)
  then show ?case by (cases c) auto
qed simp

lemma calm_calls:
  assumes "list_all calm_call cs"
  shows "Warn \<notin> set cs" "Fence_signal f \<notin> set cs" "Fence_init f q \<notin> set cs"
  using assms by (auto simp: list_all_iff)

lemma quiet_fences:
  assumes "quiet_update d d'"
  shows "signaled d' f = signaled d f" "initialised d' f = initialised d f"
    "count_list (sd_calls d') (Fence_signal f) = count_list (sd_calls d) (Fence_signal f)"
    "Warn \<in> set (sd_calls d') \<longleftrightarrow> Warn \<in> set (sd_calls d)"
proof -
  obtain cs where cs: "sd_calls d' = sd_calls d @ cs" "list_all quiet_call cs" using assms by (auto simp: quiet_update_def)
  note q = calm_calls[OF quiet_calm[OF cs(2)]]
  show "signaled d' f = signaled d f" "initialised d' f = initialised d f"
    "count_list (sd_calls d') (Fence_signal f) = count_list (sd_calls d) (Fence_signal f)"
    "Warn \<in> set (sd_calls d') \<longleftrightarrow> Warn \<in> set (sd_calls d)"
    using cs(1) q by (auto simp: signaled_def initialised_def count_list_0_iff)
qed

lemma quiet_jobs:
  assumes "quiet_update d d'" "sd_jobs d' j = Some job'"
  obtains job where "sd_jobs d j = Some job" "job_hw_fence job' = job_hw_fence job" "\<And>objs. job_ok objs job' = job_ok objs job"
proof -
  have "map_option job_core (sd_jobs d' j) = map_option job_core (sd_jobs d j)"
    using assms(1) unfolding quiet_update_def by blast
  then have "map_option job_core (sd_jobs d j) = Some (job_core job')" using assms(2) by simp
  then obtain job where "sd_jobs d j = Some job" "job_core job' = job_core job" by auto
  then show thesis using that job_core_eq by metis
qed

lemma static_quiet:
  assumes "static_inv d" "quiet_update d d'"
  shows "static_inv d'"
proof -
  have same: "same_objs (sd_objs d) (sd_objs d')" using assms(2) by (simp add: quiet_update_def)
  have "job_ok (sd_objs d') job \<and> initialised d' (job_hw_fence job)" if "sd_jobs d' j = Some job" for j job
    using quiet_jobs[OF assms(2) that] assms(1) job_ok_same[OF _ same] quiet_fences(2)[OF assms(2)]
    unfolding static_inv_def by metis
  moreover have "i = j" if "sd_jobs d' i = Some ji" "sd_jobs d' j = Some jj" "job_hw_fence ji = job_hw_fence jj" for i j ji jj
    using quiet_jobs[OF assms(2) that(1)] quiet_jobs[OF assms(2) that(2)] that(3) assms(1)
    unfolding static_inv_def by metis
  moreover have "\<forall>x. gem_ok (sd_objs d' x)" using same assms(1) by (simp add: same_objs_def static_inv_def)
  ultimately show ?thesis
    using assms(1) quiet_fences[OF assms(2)] unfolding static_inv_def by metis
qed

lemma static_calm:
  assumes "list_all calm_call cs"
  shows "static_inv (emit cs d) = static_inv d" "signaled (emit cs d) f = signaled d f"
proof -
  note q = calm_calls[OF assms]
  show "signaled (emit cs d) f = signaled d f" using q by (simp add: signaled_def)
  have "initialised (emit cs d) g = initialised d g" "signaled (emit cs d) g = signaled d g" for g
    using q by (auto simp: initialised_def signaled_def)
  then show "static_inv (emit cs d) = static_inv d" using q by (simp add: static_inv_def count_list_0_iff[THEN iffD2])
qed

lemma quiet_emit [simp]: "quiet_update d (emit cs d) \<longleftrightarrow> list_all quiet_call cs"
  by (simp add: quiet_update_def)

lemma quiet_refl [simp]: "quiet_update d d"
  by (simp add: quiet_update_def)

lemma quiet_trans: "quiet_update a b \<Longrightarrow> quiet_update b c \<Longrightarrow> quiet_update a c"
proof -
  assume ab: "quiet_update a b" and bc: "quiet_update b c"
  obtain cs where cs: "sd_calls b = sd_calls a @ cs" "list_all quiet_call cs" using ab unfolding quiet_update_def by blast
  obtain cs' where cs': "sd_calls c = sd_calls b @ cs'" "list_all quiet_call cs'" using bc unfolding quiet_update_def by blast
  have "sd_calls c = sd_calls a @ (cs @ cs')" "list_all quiet_call (cs @ cs')" using cs cs' by simp_all
  moreover have "same_objs (sd_objs a) (sd_objs c)" using ab bc same_objs_trans unfolding quiet_update_def by blast
  ultimately show ?thesis using ab bc unfolding quiet_update_def by metis
qed

lemma quiet_fields [simp]:
  "quiet_update d (d'\<lparr>sd_irq_status := s\<rparr>) = quiet_update d d'" "quiet_update d (d'\<lparr>sd_active := a\<rparr>) = quiet_update d d'"
  "quiet_update d (d'\<lparr>sd_sim_abort := b\<rparr>) = quiet_update d d'"
  by (simp_all add: quiet_update_def)

section \<open>The operations on the device\<close>

lemma hw_start_quiet: "quiet_update d (strela_hw_start ph d)"
  by (cases ph) (simp_all add: strela_hw_start_def quiet_update_def)

lemma hw_stop_quiet: "sd_active d = None \<Longrightarrow> quiet_update d (strela_hw_stop d)"
  by (simp add: strela_hw_stop_def Let_def quiet_update_def)

lemma hw_start_fields [simp]:
  "sd_active (strela_hw_start ph d) = sd_active d" "sd_jobs (strela_hw_start ph d) = sd_jobs d"
  "sd_is_sim (strela_hw_start ph d) = sd_is_sim d"
  by (cases ph; simp add: strela_hw_start_def)+

lemma hw_stop_fields [simp]:
  "sd_active (strela_hw_stop d) = sd_active d" "sd_jobs (strela_hw_stop d) = sd_jobs d" "sd_is_sim (strela_hw_stop d) = sd_is_sim d"
  by (simp_all add: strela_hw_stop_def Let_def)

lemma hw_program_quiet:
  assumes "job_ok (sd_objs d) job"
  obtains cs where "strela_hw_program job d = Some (emit cs d)" "list_all quiet_call cs"
proof (cases "sd_is_sim d")
  case True
  then show ?thesis using that[of "[]"] by (simp add: strela_hw_program_def)
next
  case False
  obtain env args where "job_bound env (sd_objs d) args job" using assms by (auto simp: job_ok_def)
  then have "strela_hw_program job d = Some (emit (program_calls (sd_objs d) job) d)"
    using hw_program_calls False by blast
  moreover have "list_all quiet_call (program_calls (sd_objs d) job)" by (auto simp: program_calls_def list_all_iff)
  ultimately show ?thesis using that by blast
qed

lemma run_job_result:
  assumes "sd_jobs d j = Some job" "job_ok (sd_objs d) job" "sd_active d = None"
  obtains d' where "strela_run_job j d = Some (d', job_hw_fence job)" "quiet_update d d'" "sd_active d' = Some j"
    "\<And>i. sd_jobs d' i = None \<longleftrightarrow> sd_jobs d i = None"
proof -
  let ?job = "job\<lparr>job_phase := STRELA_JOB_PHASE_CONFIG\<rparr>"
  let ?d1 = "d\<lparr>sd_jobs := (sd_jobs d)(j \<mapsto> ?job), sd_active := Some j\<rparr>"
  have ok: "job_ok (sd_objs ?d1) ?job" using assms(2) by (simp add: job_ok_def)
  obtain cs where cs: "strela_hw_program ?job ?d1 = Some (emit cs ?d1)" "list_all quiet_call cs" by (rule hw_program_quiet[OF ok])
  let ?d' = "emit [Fence_get (job_hw_fence job)] (strela_hw_start STRELA_JOB_PHASE_CONFIG (emit cs ?d1))"
  have "strela_run_job j d = Some (?d', job_hw_fence job)"
    using assms(1,3) cs(1) by (simp add: strela_run_job_def Let_def)
  moreover have "quiet_update d ?d'"
  proof -
    have q: "quiet_update d ?d1" using assms(1) by (auto simp: quiet_update_def job_core_def)
    have "quiet_update ?d1 (emit cs ?d1)" using cs(2) by simp
    note q = quiet_trans[OF quiet_trans[OF q this] hw_start_quiet[where ph = STRELA_JOB_PHASE_CONFIG]]
    show ?thesis by (rule quiet_trans[OF q]) simp
  qed
  ultimately show thesis using that[of ?d'] assms(1) by auto
qed

lemma static_signal:
  assumes "static_inv d" "sd_jobs d j = Some job" "\<not> signaled d (job_hw_fence job)"
  defines "d' \<equiv> (emit [Fence_signal (job_hw_fence job)] d)\<lparr>sd_active := None\<rparr>"
  shows "static_inv d'" "signaled d' f \<longleftrightarrow> signaled d f \<or> f = job_hw_fence job"
proof -
  show sg: "signaled d' f \<longleftrightarrow> signaled d f \<or> f = job_hw_fence job" for f by (auto simp: d'_def signaled_def)
  have ini: "initialised d' f = initialised d f" for f by (simp add: d'_def initialised_def)
  have "count_list (sd_calls d) (Fence_signal (job_hw_fence job)) = 0"
    using assms(3) by (simp add: signaled_def count_list_0_iff)
  then have "count_list (sd_calls d') (Fence_signal f) \<le> 1" for f
    using assms(1) by (auto simp: d'_def static_inv_def)
  then show "static_inv d'" using assms(1,2) sg ini unfolding static_inv_def by (auto simp: d'_def)
qed

lemma phase_done_cases:
  assumes "\<And>j. sd_active d = Some j \<Longrightarrow> sd_jobs d j \<noteq> None"
  obtains (quiet) d' where "strela_job_phase_done ph d = Some d'" "quiet_update d d'" "sd_active d' = sd_active d"
    "\<And>i. sd_jobs d' i = None \<longleftrightarrow> sd_jobs d i = None"
  | (signal) j job where "ph = STRELA_JOB_PHASE_EXEC" "sd_active d = Some j" "sd_jobs d j = Some job"
    "strela_job_phase_done ph d = Some ((emit [Fence_signal (job_hw_fence job)] d)\<lparr>sd_active := None\<rparr>)"
proof (cases "sd_active d")
  case None
  then show ?thesis using quiet[of d] by (simp add: strela_job_phase_done_def)
next
  case (Some j)
  then obtain job where job: "sd_jobs d j = Some job" using assms by blast
  show ?thesis
  proof (cases "job_phase job = ph")
    case False
    then show ?thesis using quiet[of d] Some job by (simp add: strela_job_phase_done_def)
  next
    case True
    show ?thesis
    proof (cases ph)
      case STRELA_JOB_PHASE_CONFIG
      let ?d1 = "d\<lparr>sd_jobs := (sd_jobs d)(j \<mapsto> job\<lparr>job_phase := STRELA_JOB_PHASE_EXEC\<rparr>)\<rparr>"
      have "quiet_update d ?d1" using job by (auto simp: quiet_update_def job_core_def)
      then have "quiet_update d (strela_hw_start STRELA_JOB_PHASE_EXEC ?d1)" using hw_start_quiet by (rule quiet_trans)
      moreover have "strela_job_phase_done ph d = Some (strela_hw_start STRELA_JOB_PHASE_EXEC ?d1)"
        using Some job True STRELA_JOB_PHASE_CONFIG by (simp add: strela_job_phase_done_def)
      ultimately show ?thesis using quiet job by auto
    next
      case STRELA_JOB_PHASE_EXEC
      then show ?thesis using signal Some job True by (simp add: strela_job_phase_done_def)
    qed
  qed
qed

lemma free_job_result:
  assumes "sd_jobs d j = Some job"
  obtains d' where "strela_free_job j d = Some d'" "sd_jobs d' = (sd_jobs d)(j := None)" "sd_active d' = sd_active d"
    "sd_is_sim d' = sd_is_sim d" "\<And>f. signaled d' f = signaled d f" "static_inv d \<Longrightarrow> static_inv d'"
proof -
  define cs where "cs = Sched_job_cleanup j # put_bindings_calls job @ [Fence_put (job_hw_fence job), Kfree_job j]"
  let ?d' = "(emit cs d)\<lparr>sd_jobs := (sd_jobs d)(j := None)\<rparr>"
  have run: "strela_free_job j d = Some ?d'"
    using assms by (simp add: strela_free_job_def strela_job_put_bindings_def cs_def Let_def)
  have q: "list_all calm_call cs" by (auto simp: cs_def put_bindings_calls_def list_all_iff)
  have f: "signaled ?d' f = signaled (emit cs d) f" "initialised ?d' f = initialised (emit cs d) f" for f
    by (simp_all add: signaled_def initialised_def)
  have "static_inv ?d'" if "static_inv d"
  proof -
    have "static_inv (emit cs d)" using that static_calm(1)[OF q] by simp
    then show ?thesis unfolding static_inv_def f by (simp split: if_splits)
  qed
  then show thesis using that[of ?d'] run f(1) static_calm(2)[OF q] by simp
qed

text \<open>A submit: a fence is initialised, and on success one job with that fence appears.\<close>

lemma static_new_fence:
  assumes st: "static_inv d" and new: "\<not> initialised d f"
    and calls: "sd_calls d' = sd_calls d @ Fence_init f q # cs" "list_all calm_call cs" and objs: "sd_objs d' = sd_objs d"
    and jobs: "sd_jobs d' = sd_jobs d \<or> (\<exists>j job. sd_jobs d' = (sd_jobs d)(j \<mapsto> job) \<and> job_ok (sd_objs d) job \<and> job_hw_fence job = f)"
  shows "static_inv d'" "signaled d' g = signaled d g" "\<not> signaled d' f"
proof -
  note qc = calm_calls[OF calls(2)]
  have sg: "signaled d' g = signaled d g" for g using calls(1) qc by (auto simp: signaled_def)
  have ini: "initialised d' g \<longleftrightarrow> initialised d g \<or> g = f" for g using calls(1) qc by (auto simp: initialised_def)
  show "signaled d' g = signaled d g" by (rule sg)
  show "\<not> signaled d' f" using st new sg by (auto simp: static_inv_def)
  have old: "job_ok (sd_objs d) job \<and> job_hw_fence job \<noteq> f" if "sd_jobs d j = Some job" for j job
    using st new that by (auto simp: static_inv_def)
  have a: "job_ok (sd_objs d') job \<and> initialised d' (job_hw_fence job)" if "sd_jobs d' j = Some job" for j job
    using jobs that st unfolding objs ini by (auto simp: static_inv_def split: if_splits)
  have b: "i = j" if "sd_jobs d' i = Some ji" "sd_jobs d' j = Some jj" "job_hw_fence ji = job_hw_fence jj" for i j ji jj
  proof -
    have inj: "i = j" if "sd_jobs d i = Some ji" "sd_jobs d j = Some jj" using st that \<open>job_hw_fence ji = job_hw_fence jj\<close>
      unfolding static_inv_def by blast
    show ?thesis
    proof (cases "sd_jobs d' = sd_jobs d")
      case True
      then show ?thesis using inj that by simp
    next
      case False
      then obtain k new where k: "sd_jobs d' = (sd_jobs d)(k \<mapsto> new)" "job_hw_fence new = f" using jobs by blast
      have in_new: "ja = new" if "sd_jobs d' k = Some ja" for ja using that k(1) by simp
      have in_old: "sd_jobs d a = Some ja \<and> job_hw_fence ja \<noteq> f" if "sd_jobs d' a = Some ja" "a \<noteq> k" for a ja
        using that k(1) old by simp
      show ?thesis
        by (cases "i = k"; cases "j = k") (use that in_new in_old inj k(2) in metis)+
    qed
  qed
  have c: "count_list (sd_calls d') (Fence_signal g) = count_list (sd_calls d) (Fence_signal g)" for g
    using calls(1) qc by (simp add: count_list_0_iff)
  have w: "Warn \<notin> set (sd_calls d')" using calls(1) qc st by (auto simp: static_inv_def)
  show "static_inv d'" unfolding static_inv_def
    using a b w c sg ini st objs by (auto simp: static_inv_def)
qed

text \<open>What a submit does to the jobs, the fences and the rest of the device.\<close>

definition submit_effect :: "submit_env \<Rightarrow> strela_device \<Rightarrow> strela_device \<Rightarrow> int \<Rightarrow> bool" where
  "submit_effect env d d' ret \<longleftrightarrow> static_inv d' \<and> sd_active d' = sd_active d \<and> sd_is_sim d' = sd_is_sim d \<and> (\<forall>f. signaled d' f = signaled d f)
    \<and> (ret \<noteq> 0 \<longrightarrow> sd_jobs d' = sd_jobs d)
    \<and> (ret = 0 \<longrightarrow> (\<exists>j job. env_job env = Some j \<and> sd_jobs d j = None \<and> sd_jobs d' = (sd_jobs d)(j \<mapsto> job)
       \<and> \<not> signaled d' (job_hw_fence job)))"

lemma submit_machine_alloc:
  assumes st: "static_inv d" and fa: "fresh_alloc env d" and run: "strela_submit_ioctl env args d = (d', ret)"
    and alloc: "submit_args_ok args" "env_job env = Some j" "env_fence env = Some f" "env_sched_job_init env = 0"
  shows "submit_effect env d d' ret"
proof -
  have nf: "\<not> initialised d f" using fa alloc(3) by (auto simp: fresh_alloc_def initialised_def)
  obtain cs job so r where c: "list_all resolve_call cs" "job_hw_fence job = f" "r = 0 \<Longrightarrow> job_bound env (sd_objs d) args job"
    "ret = r" "sd_calls d' = sd_calls d @ [Fence_init f (sd_fence_seqno d + 1), Sched_job_init j] @ cs
     @ (if r \<noteq> 0 then Sched_job_cleanup j # put_bindings_calls job @ [Fence_put f, Kfree_job j]
        else [Sched_job_arm j, Syncobj_replace_fence so j, Syncobj_put so, Sched_push_job j])"
    "sd_jobs d' = (if r \<noteq> 0 then sd_jobs d else (sd_jobs d)(j \<mapsto> job))" "sd_active d' = sd_active d"
    "sd_objs d' = sd_objs d" "sd_is_sim d' = sd_is_sim d"
    by (rule submit_allocated[OF alloc run]) blast
  have rq: "resolve_call k \<Longrightarrow> calm_call k" for k by (cases k) auto
  define tl where "tl = Sched_job_init j # cs @ (if r \<noteq> 0 then Sched_job_cleanup j # put_bindings_calls job @ [Fence_put f, Kfree_job j]
        else [Sched_job_arm j, Syncobj_replace_fence so j, Syncobj_put so, Sched_push_job j])"
  have q: "list_all calm_call tl"
    using c(1) rq by (auto simp: tl_def list_all_iff put_bindings_calls_def)
  have ca: "sd_calls d' = sd_calls d @ Fence_init f (sd_fence_seqno d + 1) # tl" using c(5) by (simp add: tl_def)
  have jb: "sd_jobs d' = sd_jobs d \<or> (\<exists>j job. sd_jobs d' = (sd_jobs d)(j \<mapsto> job) \<and> job_ok (sd_objs d) job \<and> job_hw_fence job = f)"
    using c(2,3,6) by (auto simp: job_ok_def split: if_splits)
  note sn = static_new_fence[OF st nf ca q c(8) jb]
  have "sd_jobs d j = None" using fa alloc(2) by (simp add: fresh_alloc_def)
  then show ?thesis using sn c alloc(2) by (auto simp: submit_effect_def split: if_splits)
qed

lemma submit_machine:
  assumes st: "static_inv d" and fa: "fresh_alloc env d" and run: "strela_submit_ioctl env args d = (d', ret)"
  shows "submit_effect env d d' ret"
proof -
  consider (none) "\<not> submit_args_ok args \<or> env_job env = None"
    | (nofence) j where "submit_args_ok args" "env_job env = Some j" "env_fence env = None"
    | (noinit) j f where "submit_args_ok args" "env_job env = Some j" "env_fence env = Some f" "env_sched_job_init env \<noteq> 0"
    | (alloc) j f where "submit_args_ok args" "env_job env = Some j" "env_fence env = Some f" "env_sched_job_init env = 0"
    by (metis option.exhaust)
  then show ?thesis
  proof cases
    case none
    then have "d' = d" "ret \<noteq> 0"
      using run by (auto simp: strela_submit_ioctl_def submit_args_ok_def errnos split: if_splits option.splits)
    then show ?thesis using st by (simp add: submit_effect_def)
  next
    case nofence
    then have e: "d' = emit [Kfree_job j] d" "ret \<noteq> 0"
      using run by (auto simp: strela_submit_ioctl_def submit_args_ok_def errnos)
    then have "quiet_update d d'" by simp
    then show ?thesis using static_quiet[OF st] quiet_fences(1) e by (auto simp: submit_effect_def)
  next
    case noinit
    then have e: "sd_calls d' = sd_calls d @ Fence_init f (sd_fence_seqno d + 1) # [Fence_put f, Kfree_job j]"
      "sd_jobs d' = sd_jobs d" "sd_active d' = sd_active d" "sd_objs d' = sd_objs d" "sd_is_sim d' = sd_is_sim d" "ret \<noteq> 0"
      using run by (auto simp: strela_submit_ioctl_def submit_args_ok_def Let_def)
    have "\<not> initialised d f" using fa noinit(3) by (auto simp: fresh_alloc_def initialised_def)
    from static_new_fence[OF st this e(1) _ e(4)] show ?thesis using e by (simp add: submit_effect_def)
  next
    case alloc
    then show ?thesis by (rule submit_machine_alloc[OF st fa run])
  qed
qed

section \<open>The invariant\<close>

definition live :: "machine \<Rightarrow> nat list" where
  "live m = m_queue m @ (case m_run m of None \<Rightarrow> [] | Some j \<Rightarrow> [j]) @ m_done m"

fun sim_job :: "sim_pc \<Rightarrow> nat option" where
  "sim_job Sim_idle = None"
| "sim_job Sim_queued = None"
| "sim_job (Sim_config_wait j) = Some j"
| "sim_job (Sim_config_done j) = Some j"
| "sim_job (Sim_col_wait j _ _) = Some j"
| "sim_job (Sim_col j _ _) = Some j"
| "sim_job (Sim_finish j) = Some j"

fun sim_pc_ok :: "sim_pc \<Rightarrow> bool" where
  "sim_pc_ok (Sim_col_wait _ i _) \<longleftrightarrow> i < STRELA_NUM_IO_COLS"
| "sim_pc_ok (Sim_col _ i _) \<longleftrightarrow> i < STRELA_NUM_IO_COLS"
| "sim_pc_ok _ \<longleftrightarrow> True"

definition jobs_inv :: "machine \<Rightarrow> bool" where
  "jobs_inv m \<longleftrightarrow> distinct (live m) \<and> (\<forall>j. sd_jobs (m_dev m) j \<noteq> None \<longleftrightarrow> j \<in> set (live m))
     \<and> (\<forall>j. sd_active (m_dev m) = Some j \<longrightarrow> m_run m = Some j)
     \<and> (\<forall>j job. sd_jobs (m_dev m) j = Some job
          \<and> (j \<in> set (m_queue m) \<or> sd_active (m_dev m) = Some j \<or> m_run m = Some j \<and> m_sim m \<noteq> Sim_idle)
          \<longrightarrow> \<not> signaled (m_dev m) (job_hw_fence job))"

definition phase_inv :: "machine \<Rightarrow> bool" where
  "phase_inv m \<longleftrightarrow> (m_tdr m \<in> {Tdr_aborted, Tdr_stopping, Tdr_reset} \<longrightarrow> sd_active (m_dev m) = None)
     \<and> (\<forall>j. sim_job (m_sim m) = Some j \<longrightarrow> m_run m = Some j) \<and> (m_sim m = Sim_queued \<longrightarrow> m_run m \<noteq> None)
     \<and> (m_tdr m = Tdr_reset \<longrightarrow> m_sim m = Sim_idle) \<and> (\<not> sd_is_sim (m_dev m) \<longrightarrow> m_sim m = Sim_idle)
     \<and> (sd_is_sim (m_dev m) \<longrightarrow> \<not> m_irq m) \<and> sim_pc_ok (m_sim m)"

definition machine_inv :: "machine \<Rightarrow> bool" where
  "machine_inv m \<longleftrightarrow> static_inv (m_dev m) \<and> jobs_inv m \<and> phase_inv m"

section \<open>Preservation\<close>

lemma quiet_alloc: "quiet_update d d' \<Longrightarrow> sd_jobs d' j = None \<longleftrightarrow> sd_jobs d j = None"
  unfolding quiet_update_def by (metis option.map_disc_iff)

lemma live_simps [simp]:
  "live (m\<lparr>m_dev := d\<rparr>) = live m" "live (m\<lparr>m_tdr := t\<rparr>) = live m" "live (m\<lparr>m_irq := b\<rparr>) = live m" "live (m\<lparr>m_sim := pc\<rparr>) = live m"
  "live (m\<lparr>m_client := c\<rparr>) = live m"
  by (simp_all add: live_def)

lemma inv_facts:
  assumes "machine_inv m"
  shows "static_inv (m_dev m)" "distinct (live m)" "sd_jobs (m_dev m) j = None \<longleftrightarrow> j \<notin> set (live m)"
    "sd_active (m_dev m) = Some j \<Longrightarrow> m_run m = Some j"
  using assms unfolding machine_inv_def jobs_inv_def by blast+

lemma inv_unsignaled:
  assumes "machine_inv m" "sd_jobs (m_dev m) j = Some job"
    "j \<in> set (m_queue m) \<or> sd_active (m_dev m) = Some j \<or> m_run m = Some j \<and> m_sim m \<noteq> Sim_idle"
  shows "\<not> signaled (m_dev m) (job_hw_fence job)"
  using assms unfolding machine_inv_def jobs_inv_def by blast

lemma inv_client [simp]: "machine_inv (m\<lparr>m_client := c\<rparr>) = machine_inv m"
  by (simp add: machine_inv_def jobs_inv_def phase_inv_def)

text \<open>A quiet update that leaves the active job alone, or takes it off.\<close>

lemma inv_quiet:
  assumes "machine_inv m" "quiet_update (m_dev m) d" "sd_active d = sd_active (m_dev m) \<or> sd_active d = None"
  shows "machine_inv (m\<lparr>m_dev := d\<rparr>)"
proof -
  have al: "sd_jobs d j = None \<longleftrightarrow> sd_jobs (m_dev m) j = None" for j by (rule quiet_alloc[OF assms(2)])
  have ac: "sd_active d = Some j \<Longrightarrow> sd_active (m_dev m) = Some j" for j using assms(3) by auto
  have "\<not> signaled d (job_hw_fence job)"
    if at: "sd_jobs d j = Some job" "j \<in> set (m_queue m) \<or> sd_active d = Some j \<or> m_run m = Some j \<and> m_sim m \<noteq> Sim_idle" for j job
  proof -
    obtain job0 where "sd_jobs (m_dev m) j = Some job0" "job_hw_fence job = job_hw_fence job0"
      by (rule quiet_jobs[OF assms(2) at(1)])
    then show ?thesis using inv_unsignaled[OF assms(1)] at(2) ac quiet_fences(1)[OF assms(2)] by metis
  qed
  then have "jobs_inv (m\<lparr>m_dev := d\<rparr>)" unfolding jobs_inv_def
    using inv_facts(2-4)[OF assms(1)] al ac by simp blast
  moreover have "sd_is_sim d = sd_is_sim (m_dev m)" using assms(2) by (simp add: quiet_update_def)
  then have "phase_inv (m\<lparr>m_dev := d\<rparr>)" using assms(1,3) unfolding machine_inv_def phase_inv_def by auto
  ultimately show ?thesis using inv_facts(1)[OF assms(1)] static_quiet[OF _ assms(2)] by (simp add: machine_inv_def)
qed

lemma inv_init:
  assumes "fresh_device d"
  shows "machine_inv (machine_init d)"
proof -
  have "Warn \<notin> set (sd_calls d)" "Fence_signal f \<notin> set (sd_calls d)" for f
    using assms by (force simp: fresh_device_def)+
  then show ?thesis using assms
    by (auto simp: fresh_device_def machine_inv_def static_inv_def jobs_inv_def phase_inv_def machine_init_def live_def
        signaled_def count_list_0_iff)
qed

lemma inv_submit:
  assumes "machine_inv m" "fresh_alloc env (m_dev m)" "strela_submit_ioctl env args (m_dev m) = (d, ret)"
  shows "machine_inv (m\<lparr>m_dev := d, m_queue := (if ret = 0 then m_queue m @ [the (env_job env)] else m_queue m)\<rparr>)"
proof -
  have st: "static_inv (m_dev m)" using assms(1) by (simp add: machine_inv_def)
  have s: "static_inv d" "sd_active d = sd_active (m_dev m)" "sd_is_sim d = sd_is_sim (m_dev m)" "\<And>f. signaled d f = signaled (m_dev m) f"
    "ret \<noteq> 0 \<Longrightarrow> sd_jobs d = sd_jobs (m_dev m)"
    "ret = 0 \<Longrightarrow> \<exists>j job. env_job env = Some j \<and> sd_jobs (m_dev m) j = None \<and> sd_jobs d = (sd_jobs (m_dev m))(j \<mapsto> job)
       \<and> \<not> signaled d (job_hw_fence job)"
    using submit_machine[OF st assms(2,3)] unfolding submit_effect_def by blast+
  show ?thesis
  proof (cases "ret = 0")
    case False
    then show ?thesis using assms(1) s by (auto simp: machine_inv_def jobs_inv_def phase_inv_def live_def)
  next
    case True
    then obtain j job where j: "env_job env = Some j" "sd_jobs (m_dev m) j = None" "sd_jobs d = (sd_jobs (m_dev m))(j \<mapsto> job)"
      "\<not> signaled d (job_hw_fence job)" using s(6) by blast
    let ?m = "m\<lparr>m_dev := d, m_queue := m_queue m @ [j]\<rparr>"
    have "j \<notin> set (live m)" using inv_facts(3)[OF assms(1)] j(2) by blast
    moreover have "set (live ?m) = insert j (set (live m))" "distinct (live ?m) \<longleftrightarrow> distinct (live m) \<and> j \<notin> set (live m)"
      by (auto simp: live_def split: option.splits)
    ultimately have "jobs_inv ?m"
      using assms(1) j s(2,4) by (auto simp: machine_inv_def jobs_inv_def split: if_splits)
    moreover have "phase_inv ?m" using assms(1) s(2,3) by (simp add: machine_inv_def phase_inv_def)
    ultimately show ?thesis using True j(1) s(1) by (simp add: machine_inv_def)
  qed
qed

lemma inv_no_run: "machine_inv m \<Longrightarrow> m_run m = None \<Longrightarrow> sd_active (m_dev m) = None \<and> m_sim m = Sim_idle"
  by (cases "m_sim m") (auto simp: machine_inv_def jobs_inv_def phase_inv_def)

lemma inv_job_ok:
  assumes "machine_inv m" "j \<in> set (live m)"
  obtains job where "sd_jobs (m_dev m) j = Some job" "job_ok (sd_objs (m_dev m)) job"
proof -
  have "sd_jobs (m_dev m) j \<noteq> None" using inv_facts(3)[OF assms(1)] assms(2) by blast
  then obtain job where "sd_jobs (m_dev m) j = Some job" by auto
  moreover from this have "job_ok (sd_objs (m_dev m)) job" using assms(1) unfolding machine_inv_def static_inv_def by metis
  ultimately show thesis by (rule that)
qed

lemma inv_run:
  assumes inv: "machine_inv m" and run: "m_run m = None" "m_tdr m = Tdr_idle" "m_queue m = p @ j # q"
  obtains d f where "strela_run_job j (m_dev m) = Some (d, f)"
    "machine_inv (m\<lparr>m_dev := d, m_run := Some j, m_queue := p @ q, m_sim := (if sd_is_sim d then Sim_queued else m_sim m)\<rparr>)"
proof -
  have none: "sd_active (m_dev m) = None" "m_sim m = Sim_idle" using inv_no_run[OF inv run(1)] by simp_all
  have jl: "j \<in> set (live m)" using run(3) by (simp add: live_def)
  obtain job where job: "sd_jobs (m_dev m) j = Some job" "job_ok (sd_objs (m_dev m)) job" by (rule inv_job_ok[OF inv jl])
  obtain d where d: "strela_run_job j (m_dev m) = Some (d, job_hw_fence job)" "quiet_update (m_dev m) d" "sd_active d = Some j"
    by (rule run_job_result[OF job none(1)])
  let ?m = "m\<lparr>m_dev := d, m_run := Some j, m_queue := p @ q, m_sim := (if sd_is_sim d then Sim_queued else m_sim m)\<rparr>"
  have lv: "set (live ?m) = set (live m)" "distinct (live ?m) = distinct (live m)" using run by (auto simp: live_def)
  have sig: "\<not> signaled d (job_hw_fence jb)" if at: "sd_jobs d i = Some jb" "i \<in> set (m_queue m)" for i jb
  proof -
    obtain j0 where "sd_jobs (m_dev m) i = Some j0" "job_hw_fence jb = job_hw_fence j0" by (rule quiet_jobs[OF d(2) at(1)])
    then show ?thesis using inv_unsignaled[OF inv] at(2) quiet_fences(1)[OF d(2)] by metis
  qed
  have al: "sd_jobs d i = None \<longleftrightarrow> i \<notin> set (live m)" for i
    using inv_facts(3)[OF inv] quiet_alloc[OF d(2)] by blast
  have "jobs_inv ?m" unfolding jobs_inv_def lv
    using inv al sig run(3) d(3) by (auto simp: machine_inv_def jobs_inv_def)
  moreover have "phase_inv ?m" using inv none run d(2) by (auto simp: machine_inv_def phase_inv_def quiet_update_def)
  moreover have "static_inv d" using inv static_quiet[OF _ d(2)] by (simp add: machine_inv_def)
  ultimately show thesis using that d(1) by (simp add: machine_inv_def)
qed

lemma inv_complete:
  assumes "machine_inv m" "m_run m = Some j" "m_tdr m = Tdr_idle" "sd_jobs (m_dev m) j = Some job" "signaled (m_dev m) (job_hw_fence job)"
  shows "machine_inv (m\<lparr>m_run := None, m_done := m_done m @ [j]\<rparr>)"
proof -
  have "m_sim m = Sim_idle" "sd_active (m_dev m) = None"
    using inv_unsignaled[OF assms(1,4)] inv_facts(4)[OF assms(1)] assms(2,5) by (metis option.exhaust option.inject)+
  moreover have "set (live (m\<lparr>m_run := None, m_done := m_done m @ [j]\<rparr>)) = set (live m)"
    "distinct (live (m\<lparr>m_run := None, m_done := m_done m @ [j]\<rparr>)) = distinct (live m)"
    using assms(2) by (auto simp: live_def)
  ultimately show ?thesis
    using assms by (auto simp: machine_inv_def jobs_inv_def phase_inv_def)
qed

text \<open>A job that is not running is released: from the queue, or after it ran.\<close>

lemma inv_release:
  assumes inv: "machine_inv m" and jl: "j \<in> set (live m)" and q: "set q \<subseteq> set (m_queue m)"
    and lv: "distinct (live (m\<lparr>m_queue := q, m_done := ds\<rparr>))" "set (live (m\<lparr>m_queue := q, m_done := ds\<rparr>)) = set (live m) - {j}"
  obtains d where "strela_free_job j (m_dev m) = Some d" "machine_inv (m\<lparr>m_dev := d, m_queue := q, m_done := ds\<rparr>)"
proof -
  obtain job where job: "sd_jobs (m_dev m) j = Some job" by (rule inv_job_ok[OF inv jl])
  obtain d where d: "strela_free_job j (m_dev m) = Some d" "sd_jobs d = (sd_jobs (m_dev m))(j := None)" "sd_active d = sd_active (m_dev m)"
    "sd_is_sim d = sd_is_sim (m_dev m)" "\<And>f. signaled d f = signaled (m_dev m) f" "static_inv (m_dev m) \<Longrightarrow> static_inv d"
    by (rule free_job_result[OF job]) blast
  let ?m = "m\<lparr>m_dev := d, m_queue := q, m_done := ds\<rparr>"
  have lv': "distinct (live ?m)" "set (live ?m) = set (live m) - {j}" using lv by (simp_all add: live_def)
  have ns: "\<not> signaled d (job_hw_fence jb)"
    if "sd_jobs (m_dev m) i = Some jb" "i \<in> set q \<or> sd_active (m_dev m) = Some i \<or> m_run m = Some i \<and> m_sim m \<noteq> Sim_idle" for i jb
    using inv_unsignaled[OF inv that(1)] that(2) subsetD[OF q] d(5) by blast
  have "jobs_inv ?m" unfolding jobs_inv_def lv'(2) using inv_facts(3,4)[OF inv] d(2,3) lv'(1) ns by (simp del: not_None_eq) blast
  moreover have "phase_inv ?m" using inv d(3,4) by (simp add: machine_inv_def phase_inv_def)
  ultimately show thesis using that d(1,6) inv by (simp add: machine_inv_def)
qed

lemma inv_free:
  assumes inv: "machine_inv m" and dn: "m_done m = j # js"
  obtains d where "strela_free_job j (m_dev m) = Some d" "machine_inv (m\<lparr>m_dev := d, m_done := js\<rparr>)"
proof -
  let ?m = "m\<lparr>m_queue := m_queue m, m_done := js\<rparr>"
  have "j \<in> set (live m)" "distinct (live ?m)" "set (live ?m) = set (live m) - {j}"
    using inv_facts(2)[OF inv] dn by (auto simp: live_def split: option.splits)
  then obtain d where d: "strela_free_job j (m_dev m) = Some d" "machine_inv (m\<lparr>m_dev := d, m_queue := m_queue m, m_done := js\<rparr>)"
    by (rule inv_release[OF inv _ subset_refl])
  have "m\<lparr>m_dev := d, m_queue := m_queue m, m_done := js\<rparr> = m\<lparr>m_dev := d, m_done := js\<rparr>" by (cases m) simp
  then show thesis using that d by simp
qed

lemma inv_kill:
  assumes inv: "machine_inv m" and q: "m_queue m = p @ j # q"
  obtains d where "strela_free_job j (m_dev m) = Some d" "machine_inv (m\<lparr>m_dev := d, m_queue := p @ q\<rparr>)"
proof -
  let ?m = "m\<lparr>m_queue := p @ q, m_done := m_done m\<rparr>"
  have "j \<in> set (live m)" "set (p @ q) \<subseteq> set (m_queue m)" "distinct (live ?m)" "set (live ?m) = set (live m) - {j}"
    using inv_facts(2)[OF inv] q by (auto simp: live_def split: option.splits)
  then obtain d where d: "strela_free_job j (m_dev m) = Some d" "machine_inv (m\<lparr>m_dev := d, m_queue := p @ q, m_done := m_done m\<rparr>)"
    by (rule inv_release[OF inv])
  have "m\<lparr>m_dev := d, m_queue := p @ q, m_done := m_done m\<rparr> = m\<lparr>m_dev := d, m_queue := p @ q\<rparr>" by (cases m) simp
  then show thesis using that d by simp
qed

lemma inv_tdr_start:
  assumes "machine_inv m" "m_tdr m = Tdr_reset"
  shows "machine_inv (m\<lparr>m_dev := emit [Sched_start] (m_dev m), m_tdr := Tdr_idle, m_run := None,
      m_done := m_done m @ (case m_run m of None \<Rightarrow> [] | Some j \<Rightarrow> [j])\<rparr>)"
proof -
  let ?n = "m\<lparr>m_dev := emit [Sched_start] (m_dev m)\<rparr>"
  let ?m = "?n\<lparr>m_tdr := Tdr_idle, m_run := None, m_done := m_done m @ (case m_run m of None \<Rightarrow> [] | Some j \<Rightarrow> [j])\<rparr>"
  have i0: "machine_inv ?n" by (rule inv_quiet[OF assms(1)]) simp_all
  have "set (live ?m) = set (live ?n)" "distinct (live ?m) = distinct (live ?n)"
    by (auto simp: live_def split: option.splits)
  moreover have "sd_active (m_dev m) = None" "m_sim m = Sim_idle" using assms by (auto simp: machine_inv_def phase_inv_def)
  ultimately have "jobs_inv ?m" "phase_inv ?m"
    using i0 unfolding machine_inv_def jobs_inv_def phase_inv_def by auto
  then show ?thesis using i0 by (simp add: machine_inv_def)
qed

text \<open>Completions: of a phase on the hardware, and the worker of a simulated device.\<close>

lemma inv_active_alloc: "machine_inv m \<Longrightarrow> sd_active (m_dev m) = Some j \<Longrightarrow> sd_jobs (m_dev m) j \<noteq> None"
proof -
  assume "machine_inv m" "sd_active (m_dev m) = Some j"
  then have "m_run m = Some j" by (rule inv_facts(4))
  then have "j \<in> set (live m)" by (simp add: live_def)
  then show ?thesis using inv_facts(3)[OF \<open>machine_inv m\<close>] by blast
qed

lemma inv_signal:
  assumes inv: "machine_inv m" and act: "sd_active (m_dev m) = Some j" and job: "sd_jobs (m_dev m) j = Some job"
    and pc: "sim_job pc = None" "pc \<noteq> Sim_queued"
  defines "d \<equiv> (emit [Fence_signal (job_hw_fence job)] (m_dev m))\<lparr>sd_active := None\<rparr>"
  shows "machine_inv (m\<lparr>m_dev := d, m_sim := pc\<rparr>)"
proof -
  have "\<not> signaled (m_dev m) (job_hw_fence job)" using inv_unsignaled[OF inv job] act by blast
  note sg = static_signal[OF inv_facts(1)[OF inv] job this, folded d_def]
  have fields: "sd_jobs d = sd_jobs (m_dev m)" "sd_active d = None" "sd_is_sim d = sd_is_sim (m_dev m)" by (simp_all add: d_def)
  have idle: "pc = Sim_idle" using pc by (cases pc) auto
  have "\<not> signaled d (job_hw_fence jb)" if at: "sd_jobs (m_dev m) i = Some jb" "i \<in> set (m_queue m)" for i jb
  proof -
    have "m_run m = Some j" by (rule inv_facts(4)[OF inv act])
    then have "i \<noteq> j" using inv_facts(2)[OF inv] at(2) by (auto simp: live_def)
    then have "job_hw_fence jb \<noteq> job_hw_fence job"
      using inv_facts(1)[OF inv] at(1) job unfolding static_inv_def by blast
    then show ?thesis using sg(2) inv_unsignaled[OF inv at(1)] at(2) by blast
  qed
  then have "jobs_inv (m\<lparr>m_dev := d, m_sim := pc\<rparr>)"
    using inv_facts(2,3)[OF inv] fields idle unfolding jobs_inv_def by simp blast
  moreover have "phase_inv (m\<lparr>m_dev := d, m_sim := pc\<rparr>)"
    using inv fields idle unfolding machine_inv_def phase_inv_def by auto
  ultimately show ?thesis using sg(1) by (simp add: machine_inv_def)
qed

lemma inv_phase_done:
  assumes inv: "machine_inv m" and idle: "m_sim m = Sim_idle"
  obtains d where "strela_job_phase_done ph (m_dev m) = Some d" "machine_inv (m\<lparr>m_dev := d\<rparr>)"
proof (cases rule: phase_done_cases[of "m_dev m" ph, OF inv_active_alloc[OF inv]])
  case 1
  then show ?case by simp
next
  case (2 d)
  then show ?thesis using that inv_quiet[OF inv 2(2)] by simp
next
  case (3 j job)
  have "m\<lparr>m_dev := d, m_sim := Sim_idle\<rparr> = m\<lparr>m_dev := d\<rparr>" for d using idle by (cases m) simp
  then show ?thesis using that[OF 3(4)] inv_signal[OF inv 3(2,3), of Sim_idle] by simp
qed

lemma inv_irq_thread:
  assumes inv: "machine_inv m" and irq: "m_irq m"
  obtains d r where "strela_irq_thread_fn (m_dev m) = Some (d, r)" "machine_inv (m\<lparr>m_dev := d, m_irq := False\<rparr>)"
proof -
  let ?n = "m\<lparr>m_dev := (m_dev m)\<lparr>sd_irq_status := 0\<rparr>\<rparr>"
  have inv': "machine_inv ?n" by (rule inv_quiet[OF inv]) simp_all
  have idle: "m_sim ?n = Sim_idle" using inv irq by (auto simp: machine_inv_def phase_inv_def)
  have off: "machine_inv (n\<lparr>m_irq := False\<rparr>)" if "machine_inv n" for n
    using that by (auto simp: machine_inv_def jobs_inv_def phase_inv_def)
  obtain dc where c: "strela_job_phase_done STRELA_JOB_PHASE_CONFIG (m_dev ?n) = Some dc" "machine_inv (?n\<lparr>m_dev := dc\<rparr>)"
    by (rule inv_phase_done[OF inv' idle])
  obtain de where e: "strela_job_phase_done STRELA_JOB_PHASE_EXEC (m_dev ?n) = Some de" "machine_inv (?n\<lparr>m_dev := de\<rparr>)"
    by (rule inv_phase_done[OF inv' idle])
  note facts = c(1) e(1) off[OF c(2)] off[OF e(2)] off[OF inv']
  show thesis
  proof (cases "sd_irq_status (m_dev m) AND STRELA_CMD_PENDING_INT_CONFIG \<noteq> 0")
    case True
    then show ?thesis using facts by (intro that[of dc IRQ_HANDLED]) (simp_all add: strela_irq_thread_fn_def)
  next
    case False
    then show ?thesis
      using facts that[of de IRQ_HANDLED] that[of "m_dev ?n" IRQ_NONE]
      by (cases "sd_irq_status (m_dev m) AND STRELA_CMD_PENDING_INT_EXEC \<noteq> 0") (simp_all add: strela_irq_thread_fn_def)
  qed
qed

lemma inv_irq:
  assumes "machine_inv m" "\<not> sd_is_sim (m_dev m)" "strela_irq_handler status (m_dev m) = (d, r)"
  shows "machine_inv (m\<lparr>m_dev := d, m_irq := (r = IRQ_WAKE_THREAD)\<rparr>)"
proof -
  have "quiet_update (m_dev m) d" "sd_active d = sd_active (m_dev m)" "sd_is_sim d = sd_is_sim (m_dev m)"
    using assms(3) by (auto simp: strela_irq_handler_def split: if_splits)
  then have "machine_inv (m\<lparr>m_dev := d\<rparr>)" "\<not> sd_is_sim d" using inv_quiet[OF assms(1)] assms(2) by simp_all
  then show ?thesis by (auto simp: machine_inv_def jobs_inv_def phase_inv_def)
qed

text \<open>One step of the worker.\<close>

lemma inv_column:
  assumes inv: "machine_inv m" and pc: "m_sim m = Sim_col j i fed"
  obtains d job ok where "sd_jobs (m_dev m) j = Some job" "machine_inv (m\<lparr>m_dev := d\<rparr>)"
    "strela_sim_bypass_column (job_inputs job ! i) (job_input_strides job ! i) (job_outputs job ! i) (m_dev m) = Some (d, ok)"
    "quiet_update (m_dev m) d"
proof -
  have run: "m_run m = Some j" and i: "i < STRELA_NUM_IO_COLS" using inv pc by (auto simp: machine_inv_def phase_inv_def)
  have jl: "j \<in> set (live m)" using run by (simp add: live_def)
  obtain job where job: "sd_jobs (m_dev m) j = Some job" "job_ok (sd_objs (m_dev m)) job" by (rule inv_job_ok[OF inv jl])
  obtain env args where "job_bound env (sd_objs (m_dev m)) args job" using job(2) by (auto simp: job_ok_def)
  then have cb: "col_bound env (sd_objs (m_dev m)) args job i" using i by (simp add: job_bound_def)
  then have b: "bound env (sd_objs (m_dev m)) (sub_inputs args ! i) (job_inputs job ! i)"
    "bound env (sd_objs (m_dev m)) (unstrided (sub_outputs args ! i)) (job_outputs job ! i)"
    "job_input_strides job ! i = bd_stride (sub_inputs args ! i)" by (auto simp: col_bound_def)
  have ok: "\<forall>x. gem_ok (sd_objs (m_dev m) x)" using inv_facts(1)[OF inv] by (simp add: static_inv_def)
  obtain cs objs' ok where c: "strela_sim_bypass_column (job_inputs job ! i) (job_input_strides job ! i) (job_outputs job ! i) (m_dev m)
      = Some (emit cs ((m_dev m)\<lparr>sd_objs := objs'\<rparr>), ok)" "same_objs (sd_objs (m_dev m)) objs'"
    "\<forall>c \<in> set cs. \<exists>a n r. c = Sync_for_cpu a n r \<or> c = Sync_for_device a n r"
    using bypass_column_result[OF b(1,2) ok] b(3) by metis
  have "list_all quiet_call cs" using c(3) by (fastforce simp: list_all_iff)
  then have q: "quiet_update (m_dev m) (emit cs ((m_dev m)\<lparr>sd_objs := objs'\<rparr>))" using c(2) by (simp add: quiet_update_def)
  then have "machine_inv (m\<lparr>m_dev := emit cs ((m_dev m)\<lparr>sd_objs := objs'\<rparr>)\<rparr>)" by (rule inv_quiet[OF inv]) simp
  then show thesis using that job(1) c(1) q by blast
qed

lemma inv_sim_pc:
  assumes "machine_inv m" "m_sim m \<noteq> Sim_idle" "pc \<noteq> Sim_queued" "sim_job pc = None \<or> sim_job pc = m_run m" "sim_pc_ok pc"
  shows "machine_inv (m\<lparr>m_sim := pc\<rparr>)"
  using assms by (auto simp: machine_inv_def jobs_inv_def phase_inv_def)

lemma inv_sim:
  assumes inv: "machine_inv m"
  shows "\<exists>d pc. strela_sim_work (m_sim m) (m_dev m) = Some (d, pc) \<and> machine_inv (m\<lparr>m_dev := d, m_sim := pc\<rparr>)"
proof -
  have run: "sim_job (m_sim m) = Some j \<Longrightarrow> m_run m = Some j" for j using inv by (simp add: machine_inv_def phase_inv_def)
  have same: "m\<lparr>m_dev := m_dev m, m_sim := pc\<rparr> = m\<lparr>m_sim := pc\<rparr>" for pc by simp
  note move = inv_sim_pc[OF inv]
  have cols: "0 < STRELA_NUM_IO_COLS" by (simp add: STRELA_NUM_IO_COLS_def)
  show ?thesis
  proof (cases "m_sim m")
    case Sim_idle
    then have "m\<lparr>m_sim := Sim_idle\<rparr> = m" by (cases m) simp
    then have "machine_inv (m\<lparr>m_sim := Sim_idle\<rparr>)" using inv by (rule ssubst)
    then show ?thesis using Sim_idle by simp
  next
    case Sim_queued
    show ?thesis
      using Sim_queued move[of Sim_idle] move[of "Sim_config_wait j" for j] inv_facts(4)[OF inv]
      by (cases "sd_active (m_dev m)") auto
  next
    case (Sim_config_wait j)
    then show ?thesis using move[of Sim_idle] move[of "Sim_config_done j"] run by auto
  next
    case (Sim_config_done j)
    show ?thesis
    proof (cases rule: phase_done_cases[of "m_dev m" STRELA_JOB_PHASE_CONFIG, OF inv_active_alloc[OF inv]])
      case (2 d)
      have "machine_inv (m\<lparr>m_dev := d\<rparr>)" using inv_quiet[OF inv 2(2)] 2(3) by blast
      from inv_sim_pc[OF this, of "Sim_col_wait j 0 True"] have "machine_inv (m\<lparr>m_dev := d, m_sim := Sim_col_wait j 0 True\<rparr>)"
        using Sim_config_done run cols by simp
      then show ?thesis using 2(1) Sim_config_done by simp
    qed simp_all
  next
    case (Sim_col_wait j i fed)
    then have "sim_pc_ok (Sim_col j i fed)" using inv by (simp add: machine_inv_def phase_inv_def)
    then show ?thesis using Sim_col_wait move[of Sim_idle] move[of "Sim_col j i fed"] run by auto
  next
    case (Sim_col j i fed)
    obtain d job ok where c: "sd_jobs (m_dev m) j = Some job" "machine_inv (m\<lparr>m_dev := d\<rparr>)"
      "strela_sim_bypass_column (job_inputs job ! i) (job_input_strides job ! i) (job_outputs job ! i) (m_dev m) = Some (d, ok)"
      by (rule inv_column[OF inv Sim_col])
    define pc where "pc = (if i + 1 < STRELA_NUM_IO_COLS then Sim_col_wait j (i + 1) (fed \<and> ok)
       else if fed \<and> ok then Sim_finish j else Sim_idle)"
    have "pc \<noteq> Sim_queued" "sim_job pc = None \<or> sim_job pc = Some j" "sim_pc_ok pc" by (simp_all add: pc_def)
    from inv_sim_pc[OF c(2), of pc] this have "machine_inv (m\<lparr>m_dev := d, m_sim := pc\<rparr>)" using Sim_col run by simp
    moreover have "strela_sim_work (m_sim m) (m_dev m) = Some (d, pc)" using c(1,3) by (simp add: Sim_col pc_def Let_def)
    ultimately show ?thesis by blast
  next
    case (Sim_finish j)
    show ?thesis
    proof (cases rule: phase_done_cases[of "m_dev m" STRELA_JOB_PHASE_EXEC, OF inv_active_alloc[OF inv]])
      case (2 d)
      have "machine_inv (m\<lparr>m_dev := d\<rparr>)" using inv_quiet[OF inv 2(2)] 2(3) by blast
      from inv_sim_pc[OF this, of Sim_idle] show ?thesis using 2(1) Sim_finish by simp
    next
      case (3 j job)
      then show ?thesis using inv_signal[OF inv 3(2,3), of Sim_idle] Sim_finish by simp
    qed simp
  qed
qed

section \<open>Every run\<close>

lemma inv_step:
  assumes "machine_step m m'" "machine_inv m"
  shows "machine_inv m'"
  using assms
proof (cases rule: machine_step.cases)
  case (submit env args d ret q cl c)
  have "machine_inv (m\<lparr>m_dev := d, m_queue := q, m_client := cl\<rparr>)"
    using inv_submit[OF assms(2) submit(2,3)] submit(4) by simp
  then show ?thesis using submit(1) by simp
next
  case (run p j q d f)
  obtain d' f' where "strela_run_job j (m_dev m) = Some (d', f')"
    "machine_inv (m\<lparr>m_dev := d', m_run := Some j, m_queue := p @ q, m_sim := (if sd_is_sim d' then Sim_queued else m_sim m)\<rparr>)"
    by (rule inv_run[OF assms(2) run(2-4)])
  then show ?thesis using run(1,6) by simp
next
  case (complete j job)
  then show ?thesis using inv_complete[OF assms(2)] by blast
next
  case (free j js d)
  obtain d' where "strela_free_job j (m_dev m) = Some d'" "machine_inv (m\<lparr>m_dev := d', m_done := js\<rparr>)"
    by (rule inv_free[OF assms(2) free(3)])
  then show ?thesis using free(1,4) by simp
next
  case (kill p j q d)
  obtain d' where "strela_free_job j (m_dev m) = Some d'" "machine_inv (m\<lparr>m_dev := d', m_queue := p @ q\<rparr>)"
    by (rule inv_kill[OF assms(2) kill(2)])
  then show ?thesis using kill(1,3) by simp
next
  case (tdr_stop k)
  have "machine_inv (m\<lparr>m_dev := emit [Sched_stop k] (m_dev m)\<rparr>)" by (rule inv_quiet[OF assms(2)]) simp_all
  then show ?thesis using tdr_stop by (simp add: machine_inv_def jobs_inv_def phase_inv_def)
next
  case tdr_abort
  have "machine_inv (m\<lparr>m_dev := abort_locked (m_dev m)\<rparr>)" by (rule inv_quiet[OF assms(2)]) (simp_all add: abort_locked_def)
  then show ?thesis using tdr_abort by (simp add: machine_inv_def jobs_inv_def phase_inv_def abort_locked_def)
next
  case tdr_hw_stop
  have "sd_active (m_dev m) = None" using assms(2) tdr_hw_stop by (simp add: machine_inv_def phase_inv_def)
  then have "machine_inv (m\<lparr>m_dev := strela_hw_stop (m_dev m)\<rparr>)" by (intro inv_quiet[OF assms(2)] hw_stop_quiet) simp_all
  then show ?thesis using tdr_hw_stop \<open>sd_active (m_dev m) = None\<close> by (simp add: machine_inv_def jobs_inv_def phase_inv_def)
next
  case tdr_settled
  then show ?thesis using assms(2) by (auto simp: machine_inv_def jobs_inv_def phase_inv_def)
next
  case tdr_start
  then show ?thesis using inv_tdr_start[OF assms(2)] by simp
next
  case (irq status d r)
  then show ?thesis using inv_irq[OF assms(2) irq(2,4)] by simp
next
  case (irq_thread d r)
  obtain d' r' where "strela_irq_thread_fn (m_dev m) = Some (d', r')" "machine_inv (m\<lparr>m_dev := d', m_irq := False\<rparr>)"
    by (rule inv_irq_thread[OF assms(2) irq_thread(2)])
  then show ?thesis using irq_thread(1,3) by simp
next
  case (sim d pc)
  then show ?thesis using inv_sim[OF assms(2)] by auto
qed

lemma reachable_inv: "reachable m \<Longrightarrow> machine_inv m"
  by (induction rule: reachable.induct) (auto intro: inv_init inv_step)

end
