(* ===== verification/MachineProps.thy ===== *)
theory MachineProps
  imports MachineInv
begin

text \<open>
  What holds in every run of the driver, from the invariant of \<^verbatim>\<open>MachineInv\<close>: memory safety, the fences,
  termination of a simulated job, timeouts and removal; and one run in which an interrupt is taken
  for the wrong job.
\<close>

section \<open>Example runs\<close>

definition ready_device :: "bool \<Rightarrow> strela_device" where
  "ready_device sim = (idle_device sim)\<lparr>sd_objs := (\<lambda>_. \<lparr>gem_size = 4096, gem_dma_addr = 0x10000000,
     gem_vaddr = Some (replicate 1024 0)\<rparr>)\<rparr>"

lemma ready_fresh: "fresh_device (ready_device sim)"
  by (simp add: fresh_device_def ready_device_def idle_device_def gem_ok_def)

text \<open>A submit of the one-buffer client works on every device whose objects have 4096 bytes.\<close>

lemma one_buffer_submit_ok:
  assumes "\<And>x. gem_size (sd_objs d x) = 4096"
  shows "snd (strela_submit_ioctl (one_buffer_env j) (one_buffer_submit 1) d) = 0"
    "sd_fence_seqno (fst (strela_submit_ioctl (one_buffer_env j) (one_buffer_submit 1) d)) = sd_fence_seqno d + 1"
  by (simp_all add: strela_submit_ioctl_def one_buffer_env_def one_buffer_submit_def submit_resolve_def assms
      submit_col_def strela_binding_get_def strela_strided_binding_get_def strela_binding_check_def zeroed_job_def
      null_binding_def DRM_STRELA_SUBMIT_WAIT_SYNCOBJ_def STRELA_MAX_COLUMN_BYTES_def STRELA_NUM_IO_COLS_def
      errnos upt_rec max_def Let_def)

lemma submit_inits:
  assumes "strela_submit_ioctl (one_buffer_env j) (one_buffer_submit 1) d = (d', 0)"
  shows "\<exists>job. sd_jobs d' = (sd_jobs d)(j \<mapsto> job) \<and> job_hw_fence job = 100 + j" "sd_objs d' = sd_objs d" "sd_is_sim d' = sd_is_sim d"
    "initialised d' f \<longleftrightarrow> initialised d f \<or> f = 100 + j"
    "insert (Fence_init (100 + j) (sd_fence_seqno d + 1)) (set (sd_calls d)) \<subseteq> set (sd_calls d')"
proof -
  have e: "env_job (one_buffer_env j) = Some j" "env_fence (one_buffer_env j) = Some (100 + j)" "env_sched_job_init (one_buffer_env j) = 0"
    by (simp_all add: one_buffer_env_def)
  have ok: "submit_args_ok (one_buffer_submit 1)" by (simp add: submit_args_ok_def one_buffer_submit_def Let_def)
  show "sd_objs d' = sd_objs d" "sd_is_sim d' = sd_is_sim d" using submit_success_job[OF assms e(1)] by blast+
  obtain cs so job where c: "list_all resolve_call cs" "sd_calls d' = sd_calls d @ [Fence_init (100 + j) (sd_fence_seqno d + 1), Sched_job_init j] @ cs
       @ [Sched_job_arm j, Syncobj_replace_fence so j, Syncobj_put so, Sched_push_job j]"
    "sd_jobs d' = (sd_jobs d)(j \<mapsto> job)" "job_hw_fence job = 100 + j"
    by (rule submit_allocated[OF ok e assms]) auto
  then show "\<exists>job. sd_jobs d' = (sd_jobs d)(j \<mapsto> job) \<and> job_hw_fence job = 100 + j"
    "insert (Fence_init (100 + j) (sd_fence_seqno d + 1)) (set (sd_calls d)) \<subseteq> set (sd_calls d')" by auto
  have "Fence_init g q \<notin> set cs" for g q using c(1) by (auto simp: list_all_iff)
  then show "initialised d' f \<longleftrightarrow> initialised d f \<or> f = 100 + j" unfolding initialised_def c(2) by auto
qed

lemma step_submit:
  assumes "fresh_alloc env (m_dev m)" "strela_submit_ioctl env args (m_dev m) = (d, 0)" "env_job env = Some j"
  shows "machine_step m (m\<lparr>m_dev := d, m_queue := m_queue m @ [j], m_client := (m_client m)(j := c)\<rparr>)"
  using machine_step.submit[OF assms(1,2) refl refl, of c] assms(3) by simp

lemma step_run:
  assumes "m_run m = None" "m_tdr m = Tdr_idle" "m_queue m = j # q" "strela_run_job j (m_dev m) = Some (d, f)"
  shows "machine_step m (m\<lparr>m_dev := d, m_run := Some j, m_queue := q, m_sim := (if sd_is_sim d then Sim_queued else m_sim m)\<rparr>)"
  using machine_step.run[of m "[]" j q d f] assms by simp

text \<open>The machine after clients \<open>a\<close> and \<open>b\<close> submitted jobs 1 and 2.\<close>

lemma submitted_run:
  obtains m where "reachable m" "m_queue m = [1, 2]" "m_run m = None" "m_done m = []" "m_tdr m = Tdr_idle" "\<not> m_irq m"
    "m_sim m = Sim_idle" "sd_is_sim (m_dev m) = sim" "m_client m 1 = a" "m_client m 2 = b"
    "Fence_init 101 1 \<in> set (sd_calls (m_dev m))" "Fence_init 102 2 \<in> set (sd_calls (m_dev m))"
    "\<exists>job. sd_jobs (m_dev m) 1 = Some job \<and> job_hw_fence job = 101" "\<exists>job. sd_jobs (m_dev m) 2 = Some job \<and> job_hw_fence job = 102"
proof -
  let ?d = "ready_device sim"
  have sz: "gem_size (sd_objs ?d x) = 4096" for x by (simp add: ready_device_def)
  obtain d1 where d1: "strela_submit_ioctl (one_buffer_env 1) (one_buffer_submit 1) ?d = (d1, 0)"
    using one_buffer_submit_ok(1)[OF sz, of 1] by (metis prod.collapse)
  note s1 = submit_inits[OF d1]
  obtain d2 where d2: "strela_submit_ioctl (one_buffer_env 2) (one_buffer_submit 1) d1 = (d2, 0)"
    using one_buffer_submit_ok(1)[of d1 2] s1(2) sz by (metis prod.collapse)
  have f1: "fresh_alloc (one_buffer_env 1) ?d"
    by (simp add: fresh_alloc_def one_buffer_env_def ready_device_def idle_device_def)
  have "\<not> initialised d1 102" using s1(4)[of 102] by (simp add: initialised_def ready_device_def idle_device_def)
  then have f2: "fresh_alloc (one_buffer_env 2) d1"
    using s1(1) by (auto simp: fresh_alloc_def one_buffer_env_def ready_device_def idle_device_def initialised_def)
  let ?m = "machine_init ?d" and ?ma = "(machine_init ?d)\<lparr>m_dev := d1, m_queue := [1], m_client := (\<lambda>_. 0)(1 := a)\<rparr>"
  let ?mb = "?ma\<lparr>m_dev := d2, m_queue := [1, 2], m_client := (\<lambda>_. 0)(1 := a, 2 := b)\<rparr>"
  have env: "env_job (one_buffer_env j) = Some j" for j by (simp add: one_buffer_env_def)
  have "reachable ?m" by (rule reachable.init[OF ready_fresh])
  moreover have "machine_step ?m ?ma"
    using step_submit[of "one_buffer_env 1" ?m _ d1 1 a] f1 d1 env by (simp add: machine_init_def)
  moreover have "machine_step ?ma ?mb"
    using step_submit[of "one_buffer_env 2" ?ma _ d2 2 b] f2 d2 env by simp
  ultimately have "reachable ?mb" by (metis reachable.step)
  moreover have "sd_fence_seqno d1 = 1" using one_buffer_submit_ok(2)[OF sz, of 1] d1 by (simp add: ready_device_def idle_device_def)
  then have "Fence_init 101 1 \<in> set (sd_calls d2)" "Fence_init 102 2 \<in> set (sd_calls d2)"
    using submit_inits(5)[OF d2] s1(5) by (auto simp: ready_device_def idle_device_def)
  moreover have "sd_is_sim d2 = sim" using submit_inits(3)[OF d2] s1(3) by (simp add: ready_device_def idle_device_def)
  moreover have "\<exists>job. sd_jobs d2 1 = Some job \<and> job_hw_fence job = 101" "\<exists>job. sd_jobs d2 2 = Some job \<and> job_hw_fence job = 102"
    using s1(1) submit_inits(1)[OF d2] by auto
  ultimately show thesis by (intro that[of ?mb]) (simp_all add: machine_init_def)
qed

section \<open>Memory safety\<close>



section \<open>Jobs and fences\<close>



section \<open>A simulated job\<close>

text \<open>The worker left alone for a number of steps.\<close>

primrec sim_worker :: "nat \<Rightarrow> sim_pc \<Rightarrow> strela_device \<Rightarrow> (strela_device \<times> sim_pc) option" where
  "sim_worker 0 pc d = Some (d, pc)"
| "sim_worker (Suc n) pc d = Option.bind (strela_sim_work pc d) (\<lambda>(d, pc). sim_worker n pc d)"

lemma sim_worker_idle [simp]: "sim_worker n Sim_idle d = Some (d, Sim_idle)"
  by (induction n) simp_all

definition fed_column :: "strela_job \<Rightarrow> nat \<Rightarrow> bool" where
  "fed_column job i \<longleftrightarrow> bnd_count (job_outputs job ! i) \<le> bnd_count (job_inputs job ! i)"

text \<open>
  The words column \<open>i\<close> of a job writes and where they come from; the columns run in order, so a job copies
  what it says if no column reads or writes what an earlier one wrote.
\<close>

definition writes :: "strela_job \<Rightarrow> nat \<Rightarrow> nat \<Rightarrow> nat \<Rightarrow> bool" where
  "writes job i = col_writes (job_inputs job ! i) (job_outputs job ! i)"

definition source :: "strela_job \<Rightarrow> nat \<Rightarrow> (nat \<Rightarrow> gem_obj) \<Rightarrow> nat \<Rightarrow> u32" where
  "source job i = col_source (job_inputs job ! i) (job_input_strides job ! i) (job_outputs job ! i)"

definition reads :: "strela_job \<Rightarrow> nat \<Rightarrow> nat \<Rightarrow> nat \<Rightarrow> bool" where
  "reads job i z k \<longleftrightarrow> bnd_obj (job_inputs job ! i) = Some z
     \<and> (\<exists>l < col_len (job_inputs job ! i) (job_outputs job ! i). k = unat (bnd_offset (job_inputs job ! i)) + l * unat (job_input_strides job ! i))"

definition columns_independent :: "strela_job \<Rightarrow> bool" where
  "columns_independent job \<longleftrightarrow> (\<forall>i < STRELA_NUM_IO_COLS.
     col_ordered (job_inputs job ! i) (job_input_strides job ! i) (job_outputs job ! i)
     \<and> (\<forall>j < i. \<forall>z k. writes job j z k \<longrightarrow> \<not> writes job i z k \<and> \<not> reads job i z k))"

text \<open>The first \<open>n\<close> columns have been copied, from the contents before the job.\<close>

definition copied :: "strela_job \<Rightarrow> nat \<Rightarrow> (nat \<Rightarrow> gem_obj) \<Rightarrow> (nat \<Rightarrow> gem_obj) \<Rightarrow> bool" where
  "copied job n objs objs' \<longleftrightarrow>
     (\<forall>i < n. \<forall>z k. writes job i z k \<longrightarrow> obj_word objs' z k = source job i objs k)
     \<and> (\<forall>z k. (\<forall>i < n. \<not> writes job i z k) \<longrightarrow> obj_word objs' z k = obj_word objs z k)"

lemma copied_step:
  assumes cp: "copied job i objs objs1" and ind: "columns_independent job" and i: "i < STRELA_NUM_IO_COLS"
    and inp: "bnd_obj (job_inputs job ! i) \<noteq> None"
    and step: "\<And>z k. obj_word objs2 z k = (if writes job i z k then source job i objs1 k else obj_word objs1 z k)"
  shows "copied job (Suc i) objs objs2"
proof -
  have apart: "\<not> writes job j z k" if "j < i" "writes job i z k \<or> reads job i z k" for j z k
    using that ind i by (auto simp: columns_independent_def)
  have src: "source job i objs1 k = source job i objs k" if w: "writes job i z k" for z k
  proof -
    let ?x = "the (bnd_obj (job_inputs job ! i))"
    let ?k = "unat (bnd_offset (job_inputs job ! i)) + (k - unat (bnd_offset (job_outputs job ! i))) * unat (job_input_strides job ! i)"
    have "k - unat (bnd_offset (job_outputs job ! i)) < col_len (job_inputs job ! i) (job_outputs job ! i)"
      using w by (auto simp: writes_def col_writes_def)
    then have "reads job i ?x ?k" using inp by (auto simp: reads_def)
    then have "\<forall>j < i. \<not> writes job j ?x ?k" using apart by blast
    then show ?thesis using cp by (simp add: source_def col_source_def copied_def)
  qed
  show ?thesis unfolding copied_def
  proof (intro conjI allI impI)
    fix j z k assume j: "j < Suc i" and w: "writes job j z k"
    show "obj_word objs2 z k = source job j objs k"
    proof (cases "j = i")
      case False
      then have "j < i" using j by simp
      then show ?thesis using step[of z k] apart[of j z k] cp w by (auto simp: copied_def)
    qed (use step[of z k] src w in simp)
  next
    fix z k assume "\<forall>j < Suc i. \<not> writes job j z k"
    then show "obj_word objs2 z k = obj_word objs z k" using step[of z k] cp by (auto simp: copied_def less_Suc_eq)
  qed
qed

text \<open>The device while a simulated job executes.\<close>

definition executing :: "nat \<Rightarrow> strela_job \<Rightarrow> strela_device \<Rightarrow> bool" where
  "executing j job d \<longleftrightarrow> sd_is_sim d \<and> \<not> sd_sim_abort d \<and> sd_active d = Some j \<and> sd_jobs d j = Some job
     \<and> job_ok (sd_objs d) job \<and> (\<forall>x. gem_ok (sd_objs d x)) \<and> \<not> signaled d (job_hw_fence job)"

lemma executing_column:
  assumes "executing j job d" "i < STRELA_NUM_IO_COLS"
  obtains d' where "strela_sim_bypass_column (job_inputs job ! i) (job_input_strides job ! i) (job_outputs job ! i) d
      = Some (d', fed_column job i)" "executing j job d'" "same_objs (sd_objs d) (sd_objs d')"
    "columns_independent job \<Longrightarrow> copied job i objs (sd_objs d) \<Longrightarrow> copied job (Suc i) objs (sd_objs d')"
proof -
  obtain env args where jb: "job_bound env (sd_objs d) args job" using assms(1) by (auto simp: executing_def job_ok_def)
  then have b: "bound env (sd_objs d) (sub_inputs args ! i) (job_inputs job ! i)"
    "bound env (sd_objs d) (unstrided (sub_outputs args ! i)) (job_outputs job ! i)"
    "job_input_strides job ! i = bd_stride (sub_inputs args ! i)"
    using assms(2) by (auto simp: job_bound_def col_bound_def)
  have ok: "\<forall>x. gem_ok (sd_objs d x)" using assms(1) by (simp add: executing_def)
  obtain cs objs' where c: "strela_sim_bypass_column (job_inputs job ! i) (job_input_strides job ! i) (job_outputs job ! i) d
      = Some (emit cs (d\<lparr>sd_objs := objs'\<rparr>), fed_column job i)" "same_objs (sd_objs d) objs'"
    "\<forall>c \<in> set cs. \<exists>a n r. c = Sync_for_cpu a n r \<or> c = Sync_for_device a n r"
    "copy_words [0..<col_len (job_inputs job ! i) (job_outputs job ! i)] (sd_objs d) (the (bnd_obj (job_inputs job ! i))) (bnd_offset (job_inputs job ! i))
        (bd_stride (sub_inputs args ! i)) (the (bnd_obj (job_outputs job ! i))) (bnd_offset (job_outputs job ! i)) = Some objs'"
    using bypass_column_result[OF b(1,2) ok] unfolding b(3) fed_column_def col_len_def by blast
  have inp: "bnd_obj (job_inputs job ! i) \<noteq> None" using b(1) by (auto simp: bound_def)
  have cp: "copied job (Suc i) objs objs'" if "columns_independent job" "copied job i objs (sd_objs d)"
  proof (rule copied_step[OF that(2,1) assms(2) inp])
    have "col_ordered (job_inputs job ! i) (bd_stride (sub_inputs args ! i)) (job_outputs job ! i)"
      using that(1) assms(2) unfolding columns_independent_def b(3)[symmetric] by blast
    from bypass_column_content[OF b(1,2) this c(4)]
    show "obj_word objs' z k = (if writes job i z k then source job i (sd_objs d) k else obj_word (sd_objs d) z k)" for z k
      by (simp add: writes_def source_def b(3))
  qed
  have "Fence_signal (job_hw_fence job) \<notin> set cs" using c(3) by fastforce
  moreover have "job_ok objs' job" using assms(1) job_ok_same[OF _ c(2)] by (simp add: executing_def)
  moreover have "\<forall>x. gem_ok (objs' x)" using c(2) ok by (simp add: same_objs_def)
  ultimately have "executing j job (emit cs (d\<lparr>sd_objs := objs'\<rparr>))" using assms(1) by (simp add: executing_def signaled_def)
  then show thesis using c(1,2) that cp by simp
qed

lemma executing_columns:
  assumes "executing j job d" "i + Suc n = STRELA_NUM_IO_COLS"
  shows "\<exists>d'. sim_worker (2 * Suc n) (Sim_col_wait j i fed) d =
      Some (d', if fed \<and> (\<forall>k \<in> {i..<STRELA_NUM_IO_COLS}. fed_column job k) then Sim_finish j else Sim_idle) \<and> executing j job d'
    \<and> same_objs (sd_objs d) (sd_objs d')
    \<and> (columns_independent job \<longrightarrow> copied job i objs (sd_objs d) \<longrightarrow> copied job STRELA_NUM_IO_COLS objs (sd_objs d'))"
  using assms
proof (induction n arbitrary: i fed d)
  case 0
  obtain d' where d': "strela_sim_bypass_column (job_inputs job ! i) (job_input_strides job ! i) (job_outputs job ! i) d
      = Some (d', fed_column job i)" "executing j job d'" "same_objs (sd_objs d) (sd_objs d')"
    "columns_independent job \<Longrightarrow> copied job i objs (sd_objs d) \<Longrightarrow> copied job (Suc i) objs (sd_objs d')"
    by (rule executing_column[OF 0(1), of i objs]) (use 0 in auto)
  have "{i..<STRELA_NUM_IO_COLS} = {i}" using 0(2) by auto
  then show ?case using d' 0 by (simp add: executing_def numeral_2_eq_2 Let_def)
next
  case (Suc n)
  obtain d' where d': "strela_sim_bypass_column (job_inputs job ! i) (job_input_strides job ! i) (job_outputs job ! i) d
      = Some (d', fed_column job i)" "executing j job d'" "same_objs (sd_objs d) (sd_objs d')"
    "columns_independent job \<Longrightarrow> copied job i objs (sd_objs d) \<Longrightarrow> copied job (Suc i) objs (sd_objs d')"
    by (rule executing_column[OF Suc(2), of i objs]) (use Suc in auto)
  have "i + 1 + Suc n = STRELA_NUM_IO_COLS" using Suc(3) by simp
  then obtain d'' where IH: "sim_worker (2 * Suc n) (Sim_col_wait j (i + 1) (fed \<and> fed_column job i)) d' =
      Some (d'', if (fed \<and> fed_column job i) \<and> (\<forall>k \<in> {i + 1..<STRELA_NUM_IO_COLS}. fed_column job k) then Sim_finish j else Sim_idle)"
    "executing j job d''" "same_objs (sd_objs d') (sd_objs d'')" "columns_independent job \<Longrightarrow> copied job (i + 1) objs (sd_objs d') \<Longrightarrow> copied job STRELA_NUM_IO_COLS objs (sd_objs d'')"
    using Suc(1)[OF d'(2)] by blast
  have "{i..<STRELA_NUM_IO_COLS} = insert i {i + 1..<STRELA_NUM_IO_COLS}" using Suc(3) by auto
  moreover have "sim_worker (2 * Suc (Suc n)) (Sim_col_wait j i fed) d =
      sim_worker (2 * Suc n) (Sim_col_wait j (i + 1) (fed \<and> fed_column job i)) d'"
    using d'(1) Suc(2,3) by (simp add: executing_def Let_def)
  ultimately have "sim_worker (2 * Suc (Suc n)) (Sim_col_wait j i fed) d =
      Some (d'', if fed \<and> (\<forall>k \<in> {i..<STRELA_NUM_IO_COLS}. fed_column job k) then Sim_finish j else Sim_idle)"
    using IH(1) by (simp only: ball_simps conj_assoc)
  then show ?case using IH(2,4) d'(4) same_objs_trans[OF d'(3) IH(3)] by (intro exI[of _ d'']) simp
qed

lemma run_job_sim:
  assumes "strela_run_job j d = Some (d', f)" "sd_is_sim d" "sd_active d = None"
  obtains job where "sd_jobs d j = Some job" "f = job_hw_fence job"
    "d' = emit [Queue_work, Fence_get f] (d\<lparr>sd_jobs := (sd_jobs d)(j \<mapsto> job\<lparr>job_phase := STRELA_JOB_PHASE_CONFIG\<rparr>),
        sd_active := Some j, sd_sim_abort := False\<rparr>)"
proof -
  obtain job where job: "sd_jobs d j = Some job" using assms(1) by (auto simp: strela_run_job_def split: option.splits)
  then show thesis using that[OF job] assms
    by (auto simp: strela_run_job_def strela_hw_program_def strela_hw_start_def emit_def Let_def)
qed

lemma column_phase [simp]:
  "writes (job\<lparr>job_phase := p\<rparr>) = writes job" "reads (job\<lparr>job_phase := p\<rparr>) = reads job" "source (job\<lparr>job_phase := p\<rparr>) = source job"
  "columns_independent (job\<lparr>job_phase := p\<rparr>) = columns_independent job" "copied (job\<lparr>job_phase := p\<rparr>) = copied job"
  by (simp_all add: writes_def reads_def source_def columns_independent_def copied_def fun_eq_iff)

lemma sim_worker_add:
  "sim_worker (a + b) pc d = Option.bind (sim_worker a pc d) (\<lambda>(d, pc). sim_worker b pc d)"
  by (induction a arbitrary: pc d) (auto split: option.splits bind_splits)

text \<open>The worker after a job was started: three steps to the first column, two per column, and the last one
  signals if every column was fed.\<close>

lemma sim_run_settles:
  assumes run: "strela_run_job j d0 = Some (d, f)" and sim: "sd_is_sim d0" "sd_active d0 = None"
    and job: "sd_jobs d0 j = Some job" "job_ok (sd_objs d0) job" "\<forall>x. gem_ok (sd_objs d0 x)" "\<not> signaled d0 (job_hw_fence job)"
  defines "fed \<equiv> \<forall>i < STRELA_NUM_IO_COLS. bnd_count (job_outputs job ! i) \<le> bnd_count (job_inputs job ! i)"
  obtains d' where "f = job_hw_fence job" "sim_worker 12 Sim_queued d = Some (d', Sim_idle)"
    "sd_jobs d' j = Some (job\<lparr>job_phase := STRELA_JOB_PHASE_EXEC\<rparr>)" "sd_is_sim d'" "same_objs (sd_objs d0) (sd_objs d')"
    "if fed then signaled d' f \<and> sd_active d' = None else \<not> signaled d' f \<and> sd_active d' = Some j"
    "columns_independent job \<Longrightarrow> copied job STRELA_NUM_IO_COLS (sd_objs d0) (sd_objs d')"
proof -
  have f: "f = job_hw_fence job" and d: "d = emit [Queue_work, Fence_get f] (d0\<lparr>sd_jobs := (sd_jobs d0)(j \<mapsto> job\<lparr>job_phase := STRELA_JOB_PHASE_CONFIG\<rparr>),
      sd_active := Some j, sd_sim_abort := False\<rparr>)" by (rule run_job_sim[OF run sim]; use job(1) in simp)+
  let ?job = "job\<lparr>job_phase := STRELA_JOB_PHASE_EXEC\<rparr>"
  define e where "e = d\<lparr>sd_jobs := (sd_jobs d)(j \<mapsto> ?job)\<rparr>"
  have "job_ok (sd_objs d0) ?job" using job(2) by (simp add: job_ok_def)
  then have ex: "executing j ?job e" using sim job by (simp add: executing_def e_def d signaled_def)
  have start: "sim_worker 3 Sim_queued d = Some (e, Sim_col_wait j 0 True)"
    using sim by (simp add: numeral_3_eq_3 e_def d strela_job_phase_done_def strela_hw_start_def)
  have "copied job 0 (sd_objs d0) (sd_objs e)" by (simp add: copied_def e_def d)
  then obtain e' where e': "sim_worker (2 * Suc 3) (Sim_col_wait j 0 True) e =
      Some (e', if True \<and> (\<forall>k \<in> {0..<STRELA_NUM_IO_COLS}. fed_column ?job k) then Sim_finish j else Sim_idle)" "executing j ?job e'" "same_objs (sd_objs e) (sd_objs e')"
    "columns_independent job \<Longrightarrow> copied job STRELA_NUM_IO_COLS (sd_objs d0) (sd_objs e')"
    using executing_columns[OF ex, of 0 3 True "sd_objs d0"] by (auto simp: STRELA_NUM_IO_COLS_def)
  have fed: "(\<forall>k \<in> {0..<STRELA_NUM_IO_COLS}. fed_column ?job k) \<longleftrightarrow> fed" by (auto simp: fed_column_def fed_def)
  have w: "sim_worker 12 Sim_queued d = sim_worker 1 (if fed then Sim_finish j else Sim_idle) e'"
    using sim_worker_add[of 3 9 Sim_queued d] sim_worker_add[of 8 1 "Sim_col_wait j 0 True" e] start e'(1) unfolding fed by simp
  have fin: "strela_sim_work (Sim_finish j) e' = Some ((emit [Fence_signal f] e')\<lparr>sd_active := None\<rparr>, Sim_idle)"
    using e'(2) by (simp add: executing_def strela_job_phase_done_def f)
  have ns: "\<not> signaled e' f" "sd_active e' = Some j" "sd_jobs e' j = Some ?job" "sd_is_sim e'" using e'(2) by (auto simp: executing_def f)
  show thesis
    by (rule that[of "if fed then (emit [Fence_signal f] e')\<lparr>sd_active := None\<rparr> else e'"])
       (use f w fin ns e'(3,4) in \<open>auto simp: signaled_def e_def d\<close>)
qed



section \<open>Timeouts\<close>

text \<open>A step of the driver at work on what it has: nothing is submitted and nothing is cancelled, and the queue gets
  shorter only because its first job starts.\<close>

definition work :: "machine \<Rightarrow> machine \<Rightarrow> bool" where
  "work m m' \<longleftrightarrow> machine_step m m' \<and> (m_queue m' = m_queue m \<or> m_run m = None \<and> (\<exists>j. m_run m' = Some j \<and> m_queue m = j # m_queue m'))"

lemma work_keep: "machine_step m m' \<Longrightarrow> m_queue m' = m_queue m \<Longrightarrow> work m m'"
  by (simp add: work_def)

lemma work_steps: "work\<^sup>*\<^sup>* m m' \<Longrightarrow> machine_step\<^sup>*\<^sup>* m m'"
  by (erule rtranclp_mono[THEN predicate2D, rotated]) (auto simp: work_def)

lemma reachable_steps: "machine_step\<^sup>*\<^sup>* m m' \<Longrightarrow> reachable m \<Longrightarrow> reachable m'"
  by (induction rule: rtranclp_induct) (auto intro: reachable.step)

lemma work_reachable: "work\<^sup>*\<^sup>* m m' \<Longrightarrow> reachable m \<Longrightarrow> reachable m'"
  using work_steps reachable_steps by blast

text \<open>The whole handler as a run of the machine, when nobody steps in between.\<close>

lemma timeout_works:
  assumes "m_tdr m = Tdr_idle" "m_run m = Some k" "m_sim m = Sim_idle \<or> m_sim m = Sim_queued"
  shows "work\<^sup>*\<^sup>* m (m\<lparr>m_dev := strela_timedout_job k (m_dev m), m_run := None, m_done := m_done m @ [k], m_sim := Sim_idle\<rparr>)"
proof -
  let ?a = "m\<lparr>m_dev := emit [Sched_stop k] (m_dev m), m_tdr := Tdr_stopped\<rparr>"
  let ?b = "?a\<lparr>m_dev := abort_locked (m_dev ?a), m_tdr := Tdr_aborted\<rparr>"
  let ?c = "?b\<lparr>m_dev := strela_hw_stop (m_dev ?b), m_tdr := Tdr_stopping\<rparr>"
  let ?d = "?c\<lparr>m_tdr := Tdr_reset, m_sim := Sim_idle\<rparr>"
  let ?e = "?d\<lparr>m_dev := emit [Sched_start] (m_dev ?d), m_tdr := Tdr_idle, m_run := None,
      m_done := m_done ?d @ (case m_run ?d of None \<Rightarrow> [] | Some j \<Rightarrow> [j])\<rparr>"
  have "work m ?a" by (rule work_keep[OF machine_step.tdr_stop]) (use assms(1,2) in simp_all)
  moreover have "work ?a ?b" by (rule work_keep[OF machine_step.tdr_abort]) simp_all
  moreover have "work ?b ?c" by (rule work_keep[OF machine_step.tdr_hw_stop]) simp_all
  moreover have "work ?c ?d" by (rule work_keep[OF machine_step.tdr_settled]) (use assms(3) in simp_all)
  moreover have "work ?d ?e" by (rule work_keep[OF machine_step.tdr_start]) simp_all
  ultimately have "work\<^sup>*\<^sup>* m ?e" by (meson r_into_rtranclp rtranclp_trans)
  moreover have "?e = m\<lparr>m_dev := strela_timedout_job k (m_dev m), m_run := None, m_done := m_done m @ [k], m_sim := Sim_idle\<rparr>"
    using assms(1,2) by (cases m) (simp add: strela_timedout_job_def strela_job_abort_def)
  ultimately show ?thesis by simp
qed


lemma started_run:
  obtains m where "reachable m" "m_queue m = [2]" "m_run m = Some 1" "m_done m = []" "m_tdr m = Tdr_idle" "\<not> m_irq m"
    "m_sim m = (if sim then Sim_queued else Sim_idle)" "sd_is_sim (m_dev m) = sim"
proof -
  obtain m where m: "reachable m" "m_queue m = [1, 2]" "m_run m = None" "m_done m = []" "m_tdr m = Tdr_idle" "\<not> m_irq m"
    "m_sim m = Sim_idle" "sd_is_sim (m_dev m) = sim" by (rule submitted_run)
  note inv = reachable_inv[OF m(1)]
  have jl: "1 \<in> set (live m)" using m(2) by (simp add: live_def)
  obtain job where job: "sd_jobs (m_dev m) 1 = Some job" "job_ok (sd_objs (m_dev m)) job" by (rule inv_job_ok[OF inv jl])
  have none: "sd_active (m_dev m) = None" using inv_no_run[OF inv m(3)] by simp
  obtain d where d: "strela_run_job 1 (m_dev m) = Some (d, job_hw_fence job)" "quiet_update (m_dev m) d"
    by (rule run_job_result[OF job none])
  have "sd_is_sim d = sim" using d(2) m(8) by (simp add: quiet_update_def)
  then show thesis
    using that[OF reachable.step[OF m(1) step_run[OF m(3,5,2) d(1)]]] m by simp
qed


section \<open>Removal\<close>

lemma fini_pending_result:
  assumes "static_inv d" "distinct js" "\<And>j. j \<in> set js \<Longrightarrow> sd_jobs d j \<noteq> None"
  shows "\<exists>d'. fini_pending js d = Some d' \<and> static_inv d' \<and> (\<forall>j. sd_jobs d' j = (if j \<in> set js then None else sd_jobs d j))
    \<and> (\<forall>f. signaled d' f \<longleftrightarrow> signaled d f \<or> (\<exists>j \<in> set js. \<exists>job. sd_jobs d j = Some job \<and> job_hw_fence job = f))"
  using assms
proof (induction js arbitrary: d)
  case (Cons j js)
  obtain job where job: "sd_jobs d j = Some job" using Cons.prems(3)[of j] by auto
  let ?f = "job_hw_fence job"
  define e where "e = (if signaled d ?f then d else emit [Fence_set_error ?f (- ENODEV), Fence_signal ?f] d)"
  have e: "sd_jobs e = sd_jobs d" "signaled e f \<longleftrightarrow> signaled d f \<or> f = ?f" for f by (auto simp: e_def signaled_def)
  have "static_inv e"
  proof (cases "signaled d ?f")
    case False
    let ?q = "emit [Fence_set_error ?f (- ENODEV)] d"
    have "static_inv ?q" using static_quiet[OF Cons.prems(1), of ?q] by simp
    moreover have "\<not> signaled ?q ?f" using False by (simp add: signaled_def)
    ultimately have "static_inv ((emit [Fence_signal ?f] ?q)\<lparr>sd_active := None\<rparr>)" 
      by (intro static_signal(1)[of _ j]) (simp_all add: job)
    then show ?thesis using False by (simp add: e_def static_inv_def initialised_def signaled_def)
  qed (use Cons.prems(1) in \<open>simp add: e_def\<close>)
  obtain g where g: "strela_free_job j e = Some g" "sd_jobs g = (sd_jobs e)(j := None)" "\<And>f. signaled g f = signaled e f"
    "static_inv e \<Longrightarrow> static_inv g" using free_job_result[of e j job] job e(1) by metis
  have "sd_jobs g i \<noteq> None" if "i \<in> set js" for i using that Cons.prems(2,3) g(2) e(1) by auto
  from Cons.IH[OF g(4)[OF \<open>static_inv e\<close>] _ this] Cons.prems(2) obtain d' where d': "fini_pending js g = Some d'" "static_inv d'"
    "\<forall>i. sd_jobs d' i = (if i \<in> set js then None else sd_jobs g i)"
    "\<forall>f. signaled d' f \<longleftrightarrow> signaled g f \<or> (\<exists>i \<in> set js. \<exists>jb. sd_jobs g i = Some jb \<and> job_hw_fence jb = f)" by auto
  have run: "fini_pending (j # js) d = Some d'" using job g(1) d'(1) by (simp add: e_def Let_def)
  have jobs: "\<forall>i. sd_jobs d' i = (if i \<in> set (j # js) then None else sd_jobs d i)" using d'(3) g(2) e(1) by auto
  have "(\<exists>i \<in> set js. \<exists>jb. sd_jobs g i = Some jb \<and> job_hw_fence jb = f) \<longleftrightarrow>
      (\<exists>i \<in> set js. \<exists>jb. sd_jobs d i = Some jb \<and> job_hw_fence jb = f)" for f
    using g(2) e(1) Cons.prems(2) by (intro bex_cong) auto
  then have "signaled d' f \<longleftrightarrow> signaled d f \<or> (\<exists>i \<in> set (j # js). \<exists>jb. sd_jobs d i = Some jb \<and> job_hw_fence jb = f)" for f
    using d'(4) g(3) e(2) job by auto
  then show ?case using run d'(2) jobs by blast
qed simp



section \<open>A late interrupt\<close>

lemma run_job_irq:
  assumes "strela_run_job j d = Some (d', f)" "\<not> sd_is_sim d" "sd_jobs d j = Some job" "job_ok (sd_objs d) job" "sd_active d = None"
  shows "sd_irq_status d' = sd_irq_status d"
    "sd_jobs d' j = Some (job\<lparr>job_phase := STRELA_JOB_PHASE_CONFIG\<rparr>)"
proof -
  let ?job = "job\<lparr>job_phase := STRELA_JOB_PHASE_CONFIG\<rparr>"
  define g where "g = d\<lparr>sd_jobs := (sd_jobs d)(j \<mapsto> ?job), sd_active := Some j\<rparr>"
  have g: "sd_objs g = sd_objs d" "sd_irq_status g = sd_irq_status d" "sd_jobs g = (sd_jobs d)(j \<mapsto> ?job)" "\<not> sd_is_sim g"
    using assms(2) by (auto simp: g_def)
  have "job_ok (sd_objs g) ?job" using assms(4) g(1) by (simp add: job_ok_def)
  then obtain cs where cs: "strela_hw_program ?job g = Some (emit cs g)" by (rule hw_program_quiet)
  have "d' = emit [Fence_get (job_hw_fence job)] (strela_hw_start STRELA_JOB_PHASE_CONFIG (emit cs g))"
    using assms(1,3,5) cs unfolding strela_run_job_def by (auto simp: Let_def g_def)
  then show "sd_irq_status d' = sd_irq_status d" "sd_jobs d' j = Some ?job"
    using g by (simp_all add: strela_hw_start_def)
qed

text \<open>An interrupt can be taken for the wrong job.  There is a run on the hardware in which job 2 starts and
  the very next step, with no interrupt in between, ends its configuration phase and starts its
  execution: the completion was job 1's, whose interrupt thread ran only after job 1 had timed out.\<close>

theorem late_config_irq_misattributed:
  "\<exists>m m' m'' job. reachable m \<and> \<not> sd_is_sim (m_dev m) \<and> m_run m = None \<and> m_queue m = [2] \<and> m_done m = [1]
    \<and> machine_step m m' \<and> m_run m' = Some 2 \<and> machine_step m' m''
    \<and> sd_jobs (m_dev m') 2 = Some job \<and> job_phase job = STRELA_JOB_PHASE_CONFIG
    \<and> sd_jobs (m_dev m'') 2 = Some (job\<lparr>job_phase := STRELA_JOB_PHASE_EXEC\<rparr>)
    \<and> sd_calls (m_dev m'') = sd_calls (m_dev m') @ [Writel STRELA_REG_CTRL STRELA_CMD_CLEAR_STATE, Writel STRELA_REG_CTRL STRELA_CMD_START_EXEC]"
proof -
  obtain a where a: "reachable a" "m_queue a = [2]" "m_run a = Some 1" "m_done a = []" "m_tdr a = Tdr_idle" "\<not> m_irq a"
    "m_sim a = (if False then Sim_queued else Sim_idle)" "sd_is_sim (m_dev a) = False" by (rule started_run[of False])
  define b where "b = a\<lparr>m_dev := (emit [Writel STRELA_REG_CTRL STRELA_CMD_CLEAR_INT_CONFIG] (m_dev a))\<lparr>sd_irq_status := 4\<rparr>, m_irq := True\<rparr>"
  have "strela_irq_handler 4 (m_dev a) = ((emit [Writel STRELA_REG_CTRL STRELA_CMD_CLEAR_INT_CONFIG] (m_dev a))\<lparr>sd_irq_status := 4\<rparr>, IRQ_WAKE_THREAD)"
    by (simp add: strela_irq_handler_def strela_regs)
  from machine_step.irq[OF _ a(6) this] a(8) have "machine_step a b" by (simp add: b_def)
  then have rb: "reachable b" using a(1) reachable.step by blast
  define m where "m = b\<lparr>m_dev := strela_timedout_job 1 (m_dev b), m_run := None, m_done := m_done b @ [1], m_sim := Sim_idle\<rparr>"
  have rm: "reachable m" unfolding m_def
    by (rule work_reachable[OF timeout_works rb]) (use a in \<open>simp_all add: b_def\<close>)
  have mf: "m_run m = None" "m_queue m = [2]" "m_done m = [1]" "m_tdr m = Tdr_idle" "m_irq m" "\<not> sd_is_sim (m_dev m)" "sd_irq_status (m_dev m) = 4"
    using a by (simp_all add: m_def b_def strela_timedout_job_def strela_job_abort_def abort_locked_def strela_hw_stop_def Let_def)
  note inv = reachable_inv[OF rm]
  have jl: "2 \<in> set (live m)" using mf(2) by (simp add: live_def)
  obtain job0 where job0: "sd_jobs (m_dev m) 2 = Some job0" "job_ok (sd_objs (m_dev m)) job0" by (rule inv_job_ok[OF inv jl])
  have none: "sd_active (m_dev m) = None" using inv_no_run[OF inv mf(1)] by simp
  obtain d where d: "strela_run_job 2 (m_dev m) = Some (d, job_hw_fence job0)" "quiet_update (m_dev m) d" "sd_active d = Some 2"
    by (rule run_job_result[OF job0 none])
  note ri = run_job_irq[OF d(1) mf(6) job0 none]
  have sim: "\<not> sd_is_sim d" using d(2) mf(6) by (simp add: quiet_update_def)
  define m' where "m' = m\<lparr>m_dev := d, m_run := Some 2, m_queue := []\<rparr>"
  have s1: "machine_step m m'" using step_run[OF mf(1,4,2) d(1)] sim by (simp add: m'_def)
  let ?job = "job0\<lparr>job_phase := STRELA_JOB_PHASE_CONFIG\<rparr>"
  let ?d = "strela_hw_start STRELA_JOB_PHASE_EXEC (d\<lparr>sd_irq_status := 0, sd_jobs := (sd_jobs d)(2 \<mapsto> ?job\<lparr>job_phase := STRELA_JOB_PHASE_EXEC\<rparr>)\<rparr>)"
  have "strela_irq_thread_fn d = Some (?d, IRQ_HANDLED)"
    using ri mf(7) d(3) by (simp add: strela_irq_thread_fn_def strela_job_phase_done_def strela_regs)
  then have s2: "machine_step m' (m'\<lparr>m_dev := ?d, m_irq := False\<rparr>)"
    by (intro machine_step.irq_thread) (simp_all add: m'_def mf(5))
  show ?thesis
    by (rule exI[of _ m], rule exI[of _ m'], rule exI[of _ "m'\<lparr>m_dev := ?d, m_irq := False\<rparr>"], rule exI[of _ ?job])
       (use rm mf s1 s2 ri(2) sim in \<open>simp add: m'_def strela_hw_start_def\<close>)
qed

end
