(* ===== verification/Gem.thy ===== *)
theory Gem
  imports Sim
begin

text \<open>
  Buffer objects (\<^verbatim>\<open>src/driver/strela_gem.c\<close>): creating and freeing them, and handing the ownership of a
  range of one back and forth between CPU and device.  What the DRM core and the DMA layer answer is
  an input; the calls that take or release something are recorded, so that the theorems can count
  them.
\<close>

section \<open>Interface\<close>

record drm_strela_gem_new =
  gn_size :: u64
  gn_flags :: u32
  gn_handle :: u32
  gn_offset :: u64

record drm_strela_gem_sync =
  gs_handle :: u32
  gs_flags :: u32
  gs_offset :: u64
  gs_length :: u64

definition DRM_STRELA_SYNC_READ :: u32 where "DRM_STRELA_SYNC_READ = 1"
definition DRM_STRELA_SYNC_WRITE :: u32 where "DRM_STRELA_SYNC_WRITE = 2"
definition DRM_STRELA_SYNC_RW :: u32 where "DRM_STRELA_SYNC_RW = DRM_STRELA_SYNC_READ OR DRM_STRELA_SYNC_WRITE"
definition DRM_STRELA_SYNC_PREP :: u32 where "DRM_STRELA_SYNC_PREP = 0"
definition DRM_STRELA_SYNC_FINI :: u32 where "DRM_STRELA_SYNC_FINI = 4"
definition DRM_STRELA_SYNC_VALID_FLAGS_MASK :: u32 where
  "DRM_STRELA_SYNC_VALID_FLAGS_MASK = DRM_STRELA_SYNC_RW OR DRM_STRELA_SYNC_FINI"

lemmas sync_flags = DRM_STRELA_SYNC_READ_def DRM_STRELA_SYNC_WRITE_def DRM_STRELA_SYNC_RW_def DRM_STRELA_SYNC_PREP_def
  DRM_STRELA_SYNC_FINI_def DRM_STRELA_SYNC_VALID_FLAGS_MASK_def

text \<open>The kernel's \<^verbatim>\<open>IS_ALIGNED\<close> and \<^verbatim>\<open>PAGE_ALIGN\<close>, at the width of their first argument.\<close>

definition IS_ALIGNED :: "u64 \<Rightarrow> u32 \<Rightarrow> bool" where
  "IS_ALIGNED x a \<longleftrightarrow> x AND (ucast a - 1) = 0"

definition PAGE_ALIGN :: "u64 \<Rightarrow> u64" where
  "PAGE_ALIGN x = (x + 4095) AND NOT 4095"

section \<open>Creating and freeing\<close>

datatype gem_call = Obj_kzalloc | Obj_init | Obj_release | Obj_kfree | Dma_alloc u32 | Dma_free u32 | Import_warn
  | Handle_ref | Object_put

text \<open>The answers of the kernel to a creation.  A successful DMA allocation gives the words of the buffer and
  its device address.\<close>

record gem_env =
  env_kzalloc :: bool
  env_object_init :: int
  env_mmap_offset :: int
  env_dma_alloc :: "u32 \<Rightarrow> (u32 list \<times> u32) option"
  env_mapping_error :: bool
  env_handle_create :: "int + u32"
  env_node_offset :: u64

text \<open>\<^verbatim>\<open>import_attach\<close> is set for buffers of other drivers.\<close>

definition strela_gem_free :: "bool \<Rightarrow> gem_obj \<Rightarrow> gem_call list" where
  "strela_gem_free import_attach obj =
     (if import_attach then [Import_warn]
      else (if gem_vaddr obj \<noteq> None then [Dma_free (gem_size obj)] else []) @ [Obj_release, Obj_kfree])"

definition strela_gem_create :: "gem_env \<Rightarrow> u32 \<Rightarrow> gem_call list \<times> (int + gem_obj)" where
  "strela_gem_create env sz =
     (if \<not> env_kzalloc env then ([], Inl (- ENOMEM))
      else if env_object_init env \<noteq> 0 then ([Obj_kzalloc, Obj_kfree], Inl (env_object_init env))
      else if env_mmap_offset env \<noteq> 0 then
        ([Obj_kzalloc, Obj_init, Obj_release, Obj_kfree], Inl (env_mmap_offset env))
      else case env_dma_alloc env sz of
        None \<Rightarrow> ([Obj_kzalloc, Obj_init, Obj_release, Obj_kfree], Inl (- ENOMEM))
      | Some (ws, dma) \<Rightarrow>
          if env_mapping_error env then
            ([Obj_kzalloc, Obj_init, Dma_alloc sz, Dma_free sz, Obj_release, Obj_kfree], Inl (- ENOMEM))
          else ([Obj_kzalloc, Obj_init, Dma_alloc sz], Inr \<lparr>gem_size = sz, gem_dma_addr = dma, gem_vaddr = Some ws\<rparr>))"

text \<open>
  The ioctl.  The new object starts with the reference of its creation; a handle takes another one.
  The last line of the function drops the first, and when no handle took one that is the last
  reference, so the core frees the object with \<^verbatim>\<open>strela_gem_free\<close>.  The rounded size is passed as a
  \<^verbatim>\<open>size_t\<close>, which has 32 bits.  \<open>x\<close> is where the new object is put.
\<close>

definition strela_gem_new_ioctl ::
  "gem_env \<Rightarrow> nat \<Rightarrow> drm_strela_gem_new \<Rightarrow> strela_device \<Rightarrow> strela_device \<times> gem_call list \<times> drm_strela_gem_new \<times> int" where
  "strela_gem_new_ioctl env x args sdev =
     (if gn_flags args \<noteq> 0 then (sdev, [], args, - EINVAL)
      else if gn_size args = 0 \<or> \<not> IS_ALIGNED (gn_size args) STRELA_WORD_SIZE32 then (sdev, [], args, - EINVAL)
      else case strela_gem_create env (ucast (PAGE_ALIGN (gn_size args))) of
        (cs, Inl e) \<Rightarrow> (sdev, cs, args, e)
      | (cs, Inr obj) \<Rightarrow>
          (case env_handle_create env of
             Inl e \<Rightarrow> (sdev, cs @ [Object_put] @ strela_gem_free False obj, args, e)
           | Inr h \<Rightarrow> (sdev\<lparr>sd_objs := (sd_objs sdev)(x := obj)\<rparr>, cs @ [Handle_ref, Object_put],
                        args\<lparr>gn_handle := h, gn_offset := env_node_offset env\<rparr>, 0)))"

section \<open>Synchronisation\<close>

text \<open>\<open>align\<close> is what \<^verbatim>\<open>dma_get_cache_alignment()\<close> returns, \<open>lookup\<close> the client's handle table.\<close>

definition strela_gem_sync_ioctl ::
  "u32 \<Rightarrow> (u32 \<Rightarrow> nat option) \<Rightarrow> drm_strela_gem_sync \<Rightarrow> strela_device \<Rightarrow> strela_device \<times> int" where
  "strela_gem_sync_ioctl align lookup args sdev =
     (if gs_flags args AND NOT DRM_STRELA_SYNC_VALID_FLAGS_MASK \<noteq> 0 then (sdev, - EINVAL)
      else case (if gs_flags args AND DRM_STRELA_SYNC_RW = DRM_STRELA_SYNC_RW then Some DMA_BIDIRECTIONAL
                 else if gs_flags args AND DRM_STRELA_SYNC_WRITE \<noteq> 0 then Some DMA_TO_DEVICE
                 else if gs_flags args AND DRM_STRELA_SYNC_READ \<noteq> 0 then Some DMA_FROM_DEVICE
                 else None) of
        None \<Rightarrow> (sdev, - EINVAL)
      | Some dir \<Rightarrow>
          (case lookup (gs_handle args) of
             None \<Rightarrow> (sdev, - ENOENT)
           | Some obj \<Rightarrow>
               let size = ucast (gem_size (sd_objs sdev obj)) :: u64;
                   sdev = emit [Gem_lookup obj] sdev;
                   addr = gem_dma_addr (sd_objs sdev obj) + ucast (gs_offset args);
                   (sdev, ret) =
                     (if size < gs_offset args \<or> size - gs_offset args < gs_length args then (sdev, - EINVAL)
                      else if \<not> IS_ALIGNED (gs_offset args) align \<or> \<not> IS_ALIGNED (gs_length args) align then (sdev, - EINVAL)
                      else if gs_length args = 0 then (sdev, 0)
                      else if gs_flags args AND DRM_STRELA_SYNC_FINI \<noteq> 0
                      then (emit [Sync_for_device addr (ucast (gs_length args)) dir] sdev, 0)
                      else (emit [Sync_for_cpu addr (ucast (gs_length args)) dir] sdev, 0))
               in (emit [Gem_put (Some obj)] sdev, ret)))"

section \<open>Alignment\<close>

lemma and_low_mask: "x AND (2 ^ k - 1) = (take_bit k x :: u64)"
  by (simp add: take_bit_eq_mask mask_eq_exp_minus_1)

lemma unat_exp_64: "k < 32 \<Longrightarrow> unat ((2 :: u64) ^ k) = 2 ^ k"
  and unat_exp_32: "k < 32 \<Longrightarrow> unat ((2 :: u32) ^ k) = 2 ^ k"
proof -
  assume k: "k < 32"
  then have lt: "(2 :: nat) ^ k < 2 ^ 32" by (intro power_strict_increasing) simp_all
  have w: "(2 :: u64) ^ k = word_of_nat (2 ^ k)" "(2 :: u32) ^ k = word_of_nat (2 ^ k)" by simp_all
  show "unat ((2 :: u64) ^ k) = 2 ^ k" "unat ((2 :: u32) ^ k) = 2 ^ k"
    unfolding w unsigned_of_nat using lt k by (simp_all add: take_bit_nat_eq_self)
qed

lemma IS_ALIGNED_dvd:
  assumes "align = 2 ^ k" "k < 32"
  shows "IS_ALIGNED x align \<longleftrightarrow> unat align dvd unat x"
proof -
  have "unat (ucast align :: u64) = unat ((2 :: u64) ^ k)"
    unfolding unat_ucast_64 assms(1) using unat_exp_64[OF assms(2)] unat_exp_32[OF assms(2)] by simp
  then have "(ucast align :: u64) = 2 ^ k" by (simp only: word_unat_eq_iff)
  then have "IS_ALIGNED x align \<longleftrightarrow> take_bit k x = 0" by (simp add: IS_ALIGNED_def and_low_mask)
  also have "\<dots> \<longleftrightarrow> take_bit k (unat x) = 0" by (metis unat_0 unsigned_take_bit_eq word_unat_eq_iff)
  finally show ?thesis using unat_exp_32[OF assms(2)] by (simp add: assms(1) take_bit_eq_mod dvd_eq_mod_eq_0)
qed

lemma PAGE_ALIGN_round_up:
  assumes "unat x + 4095 < 18446744073709551616"
  shows "unat (PAGE_ALIGN x) = round_up (unat x) 4096"
proof -
  let ?y = "x + 4095"
  have lt: "unat ?y < 2 ^ 64" using assms by (simp add: unat_add_64)
  then have t: "take_bit 64 (unat ?y) = unat ?y" by (rule take_bit_nat_eq_self)
  have m: "(4095 :: u64) = mask 12" by (simp add: mask_eq_exp_minus_1)
  have "PAGE_ALIGN x = push_bit 12 (drop_bit 12 ?y)" unfolding PAGE_ALIGN_def
    by (subst (2) m) (rule bit_word_eqI, auto simp: bit_simps)
  then have "unat (PAGE_ALIGN x) = take_bit 64 (push_bit 12 (drop_bit 12 (unat ?y)))"
    using t by (simp only: unsigned_push_bit_eq unsigned_drop_bit_eq) simp
  also have "push_bit 12 (drop_bit 12 (unat ?y)) = unat ?y div 4096 * 4096"
    by (simp add: push_bit_eq_mult drop_bit_eq_div)
  also have "unat ?y div 4096 * 4096 < 2 ^ 64"
    using lt div_times_less_eq_dividend[of "unat ?y" 4096] by linarith
  then have "take_bit 64 (unat ?y div 4096 * 4096) = unat ?y div 4096 * 4096" by (rule take_bit_nat_eq_self)
  finally show ?thesis using assms by (simp add: unat_add_64 round_up_def)
qed

section \<open>Properties\<close>

text \<open>Everything a creation took and gave back.\<close>

definition gem_leak :: "gem_call list \<Rightarrow> int \<times> int \<times> int" where
  "gem_leak cs = (int (count_list cs Obj_kzalloc) - int (count_list cs Obj_kfree),
     int (count_list cs Obj_init) - int (count_list cs Obj_release),
     int (length (filter (\<lambda>c. \<exists>n. c = Dma_alloc n) cs)) - int (length (filter (\<lambda>c. \<exists>n. c = Dma_free n) cs)))"

lemma gem_create_result:
  assumes "strela_gem_create env sz = (cs, r)"
  shows "case r of Inl e \<Rightarrow> gem_leak cs = (0, 0, 0)
    | Inr obj \<Rightarrow> gem_leak cs = (1, 1, 1) \<and> (\<exists>ws dma. env_dma_alloc env sz = Some (ws, dma)
        \<and> obj = \<lparr>gem_size = sz, gem_dma_addr = dma, gem_vaddr = Some ws\<rparr>)"
  using assms by (auto simp: strela_gem_create_def gem_leak_def split: if_splits option.splits)

lemma gem_create_error:
  assumes "strela_gem_create env n = (cs, Inl e)" "env_object_init env \<le> 0" "env_mmap_offset env \<le> 0"
  shows "e < 0"
  using assms by (auto simp: strela_gem_create_def errnos split: if_splits option.splits)

lemma page_size_exact:
  assumes "unat n \<le> 4294963200"
  shows "unat (ucast (PAGE_ALIGN n) :: u32) = round_up (unat n) 4096"
proof -
  have p: "unat (PAGE_ALIGN n) = round_up (unat n) 4096" using assms by (intro PAGE_ALIGN_round_up) simp
  have "round_up (unat n) 4096 \<le> 4294963200" using assms by (intro round_up_least) simp_all
  then show ?thesis using p by (simp add: unsigned_ucast_eq take_bit_nat_eq_self)
qed


text \<open>A kernel that grants everything.\<close>

definition granting_env :: gem_env where
  "granting_env = \<lparr>env_kzalloc = True, env_object_init = 0, env_mmap_offset = 0,
     env_dma_alloc = (\<lambda>n. Some (replicate (unat n div 4) 0, 0x10000000)), env_mapping_error = False,
     env_handle_create = Inr 1, env_node_offset = 0x100000000\<rparr>"


text \<open>A size past 4 GiB is cut to the 32 bits of \<^verbatim>\<open>size_t\<close> after rounding: a request for 4 GiB and one page
  succeeds with an object of one page.\<close>

theorem gem_new_truncates:
  "\<exists>d' cs args'. strela_gem_new_ioctl granting_env 7 \<lparr>gn_size = 0x100001000, gn_flags = 0, gn_handle = 0, gn_offset = 0\<rparr> d
      = (d', cs, args', 0) \<and> gem_size (sd_objs d' 7) = 4096"
  by (simp add: strela_gem_new_ioctl_def strela_gem_create_def granting_env_def IS_ALIGNED_def PAGE_ALIGN_def)

text \<open>The ranges that may be synchronised, and the accepted flags: at least one of read and write, and
  nothing outside the mask.\<close>

definition sync_ok :: "u32 \<Rightarrow> gem_obj \<Rightarrow> drm_strela_gem_sync \<Rightarrow> bool" where
  "sync_ok align obj args \<longleftrightarrow> unat (gs_offset args) + unat (gs_length args) \<le> unat (gem_size obj)
     \<and> unat align dvd unat (gs_offset args) \<and> unat align dvd unat (gs_length args)"

definition sync_flags_ok :: "u32 \<Rightarrow> bool" where
  "sync_flags_ok f \<longleftrightarrow> f AND NOT 7 = 0 \<and> f AND 3 \<noteq> 0"

definition sync_dir :: "u32 \<Rightarrow> dma_data_direction" where
  "sync_dir f = (if f AND 3 = 3 then DMA_BIDIRECTIONAL else if f AND 2 \<noteq> 0 then DMA_TO_DEVICE else DMA_FROM_DEVICE)"

lemma sync_range:
  "\<not> ((ucast sz :: u64) < ofs \<or> ucast sz - ofs < len) \<longleftrightarrow> unat ofs + unat len \<le> unat (sz :: u32)"
proof (cases "(ucast sz :: u64) < ofs")
  case True
  then show ?thesis by (auto simp: word_less_nat_alt)
next
  case False
  then have "unat (ucast sz - ofs :: u64) = unat sz - unat ofs" by (simp add: unat_sub not_less)
  then show ?thesis using False by (auto simp: word_less_nat_alt not_less)
qed

lemma sync_direction:
  "(if f AND DRM_STRELA_SYNC_RW = DRM_STRELA_SYNC_RW then Some DMA_BIDIRECTIONAL
    else if f AND DRM_STRELA_SYNC_WRITE \<noteq> 0 then Some DMA_TO_DEVICE
    else if f AND DRM_STRELA_SYNC_READ \<noteq> 0 then Some DMA_FROM_DEVICE else None)
   = (if f AND 3 \<noteq> 0 then Some (sync_dir f) else None)"
proof -
  have "f AND 3 = (f AND 1) OR (f AND 2)" by (simp flip: bit.conj_disj_distrib)
  then have "f AND 2 \<noteq> 0 \<Longrightarrow> f AND 3 \<noteq> 0" "f AND 2 = 0 \<Longrightarrow> f AND 3 = f AND 1" by (auto simp: or_eq_0_iff)
  then show ?thesis by (auto simp: sync_flags sync_dir_def)
qed

lemma gem_sync_result:
  assumes "align = 2 ^ k" "k < 32"
  shows "strela_gem_sync_ioctl align lookup args d =
    (if \<not> sync_flags_ok (gs_flags args) then (d, - EINVAL)
     else case lookup (gs_handle args) of None \<Rightarrow> (d, - ENOENT)
     | Some obj \<Rightarrow>
         let addr = gem_dma_addr (sd_objs d obj) + ucast (gs_offset args); len = ucast (gs_length args);
             call = (if gs_flags args AND 4 \<noteq> 0 then Sync_for_device addr len (sync_dir (gs_flags args))
                     else Sync_for_cpu addr len (sync_dir (gs_flags args)))
         in if sync_ok align (sd_objs d obj) args
            then (emit (Gem_lookup obj # (if gs_length args = 0 then [] else [call]) @ [Gem_put (Some obj)]) d, 0)
            else (emit [Gem_lookup obj, Gem_put (Some obj)] d, - EINVAL))"
proof -
  have mask: "DRM_STRELA_SYNC_VALID_FLAGS_MASK = 7" by (simp add: sync_flags)
  show ?thesis
  proof (cases "sync_flags_ok (gs_flags args)")
    case False
    then show ?thesis unfolding strela_gem_sync_ioctl_def sync_direction mask by (auto simp: sync_flags_ok_def)
  next
    case True
    then have fl: "gs_flags args AND NOT 7 = 0" "gs_flags args AND 3 \<noteq> 0" by (auto simp: sync_flags_ok_def)
    show ?thesis
    proof (cases "lookup (gs_handle args)")
      case None
      then show ?thesis unfolding strela_gem_sync_ioctl_def sync_direction mask using True fl by simp
    next
      case (Some obj)
      note rng = sync_range[of "gem_size (sd_objs d obj)" "gs_offset args" "gs_length args"]
      show ?thesis
        unfolding strela_gem_sync_ioctl_def sync_direction mask sync_ok_def
        using True fl Some rng IS_ALIGNED_dvd[OF assms]
        by (auto simp: Let_def sync_flags)
    qed
  qed
qed

lemma gem_sync_accepted:
  assumes "align = 2 ^ k" "k < 32" "sync_flags_ok (gs_flags args)" "lookup (gs_handle args) = Some obj" "sync_ok align (sd_objs d obj) args"
  shows "snd (strela_gem_sync_ioctl align lookup args d) = 0"
  unfolding gem_sync_result[OF assms(1,2)] using assms(3-5) by (simp add: Let_def)

text \<open>C31. A synchronisation does exactly what its arguments say: for acceptable flags, a known handle and a
  cache-aligned range inside the object it makes one call on that range of the device's addresses, in
  the requested direction, to or from the device, and none for an empty range; anything else is
  refused.  On every path the reference taken on the object is given back.\<close>

theorem gem_sync_exact:
  assumes "align = 2 ^ k" "k < 32"
  shows "strela_gem_sync_ioctl align lookup args d =
    (if \<not> sync_flags_ok (gs_flags args) then (d, - EINVAL)
     else case lookup (gs_handle args) of None \<Rightarrow> (d, - ENOENT)
     | Some obj \<Rightarrow>
         let addr = gem_dma_addr (sd_objs d obj) + ucast (gs_offset args); len = ucast (gs_length args);
             call = (if gs_flags args AND 4 \<noteq> 0 then Sync_for_device addr len (sync_dir (gs_flags args))
                     else Sync_for_cpu addr len (sync_dir (gs_flags args)))
         in if sync_ok align (sd_objs d obj) args
            then (emit (Gem_lookup obj # (if gs_length args = 0 then [] else [call]) @ [Gem_put (Some obj)]) d, 0)
            else (emit [Gem_lookup obj, Gem_put (Some obj)] d, - EINVAL))"
  by (rule gem_sync_result[OF assms])

theorem gem_sync_exact_witness:
  "strela_gem_sync_ioctl 64 (\<lambda>h. if h = 1 then Some 7 else None) \<lparr>gs_handle = 1, gs_flags = 6, gs_offset = 64, gs_length = 128\<rparr> (idle_device True)
    = (emit [Gem_lookup 7, Sync_for_device 0x10000040 128 DMA_TO_DEVICE, Gem_put (Some 7)] (idle_device True), 0)"
proof -
  have "(64 :: u32) = 2 ^ 6" by simp
  from gem_sync_exact[OF this, of "\<lambda>h. if h = 1 then Some 7 else None"
      "\<lparr>gs_handle = 1, gs_flags = 6, gs_offset = 64, gs_length = 128\<rparr>" "idle_device True"]
  show ?thesis by (simp add: sync_flags_ok_def sync_dir_def sync_ok_def idle_device_def)
qed

end
