(* ===== verification/Drv.thy ===== *)
theory Drv
  imports MachineProps Gem
begin

text \<open>
  The module (\<^verbatim>\<open>src/driver/strela_drv.c\<close>): clients, probing and removing a device, and loading and unloading
  with the simulated devices.  What the kernel answers is an input.  A managed (\<^verbatim>\<open>devm\<close>) resource is
  released by the core when probing fails or the device goes away, so only the scheduler and the
  registration are the driver's own to undo.
\<close>

section \<open>Clients\<close>

text \<open>Per open file: the driver's private data, and which scheduler entities exist and which private
  structures are allocated.\<close>

record client_state =
  cl_priv :: "nat option"
  cl_entities :: "nat set"
  cl_allocated :: "nat set"

definition strela_open_file :: "nat option \<Rightarrow> int \<Rightarrow> client_state \<Rightarrow> client_state \<times> int" where
  "strela_open_file kzalloc entity_init cl =
     (case kzalloc of None \<Rightarrow> (cl, - ENOMEM)
      | Some p \<Rightarrow>
          let cl = cl\<lparr>cl_allocated := insert p (cl_allocated cl)\<rparr>
          in if entity_init \<noteq> 0 then (cl\<lparr>cl_allocated := cl_allocated cl - {p}\<rparr>, entity_init)
             else (cl\<lparr>cl_entities := insert p (cl_entities cl), cl_priv := Some p\<rparr>, 0))"

text \<open>A client that was never opened has no private data to close (\<open>None\<close>).\<close>

definition strela_postclose :: "client_state \<Rightarrow> client_state option" where
  "strela_postclose cl =
     (case cl_priv cl of None \<Rightarrow> None
      | Some p \<Rightarrow> Some (cl\<lparr>cl_entities := cl_entities cl - {p}, cl_priv := None, cl_allocated := cl_allocated cl - {p}\<rparr>))"

section \<open>Probing\<close>

record probe_env =
  env_dev_alloc :: "int + strela_device"
  env_of_node :: bool
  env_dma_mask :: int
  env_hw_setup :: hw_setup_env
  env_sched_init :: int
  env_dev_register :: int

text \<open>The platform device: the driver data, whether its scheduler runs, whether it is registered.\<close>

record pdev_state =
  pd_drvdata :: "strela_device option"
  pd_sched :: bool
  pd_registered :: bool

definition strela_job_init :: "probe_env \<Rightarrow> int" where
  "strela_job_init env = env_sched_init env"

text \<open>A device that has just been allocated is zeroed.\<close>

definition strela_probe :: "probe_env \<Rightarrow> pdev_state \<Rightarrow> (pdev_state \<times> int) option" where
  "strela_probe env pdev =
     (case env_dev_alloc env of Inl e \<Rightarrow> Some (pdev, e)
      | Inr sdev \<Rightarrow>
          let sdev = sdev\<lparr>sd_is_sim := \<not> env_of_node env\<rparr>;
              pdev = pdev\<lparr>pd_drvdata := Some sdev\<rparr>
          in if env_dma_mask env \<noteq> 0 then Some (pdev, env_dma_mask env)
             else
               let (sdev, ret) = strela_hw_setup (env_hw_setup env) sdev;
                   pdev = pdev\<lparr>pd_drvdata := Some sdev\<rparr>
               in if ret \<noteq> 0 then Some (pdev, ret)
                  else if strela_job_init env \<noteq> 0 then Some (pdev, strela_job_init env)
                  else
                    let pdev = pdev\<lparr>pd_sched := True\<rparr>
                    in if env_dev_register env \<noteq> 0 then do {
                         sdev \<leftarrow> strela_job_fini [] sdev;
                         Some (pdev\<lparr>pd_drvdata := Some sdev, pd_sched := False\<rparr>, env_dev_register env)
                       }
                       else Some (pdev\<lparr>pd_registered := True\<rparr>, 0))"

definition strela_remove :: "nat list \<Rightarrow> pdev_state \<Rightarrow> pdev_state option" where
  "strela_remove pending pdev = do {
     sdev \<leftarrow> pd_drvdata pdev;
     let pdev = pdev\<lparr>pd_registered := False\<rparr>;
     sdev \<leftarrow> strela_job_fini pending sdev;
     Some (pdev\<lparr>pd_drvdata := Some sdev, pd_sched := False\<rparr>)
   }"

section \<open>Loading and unloading\<close>

definition STRELA_MAX_SIM_DEVS :: nat where "STRELA_MAX_SIM_DEVS = 4"

text \<open>The module: whether the platform driver is registered, the array of simulated devices, and the devices
  that the platform bus has.\<close>

record module_state =
  ms_driver :: bool
  strela_sim_pdevs :: "nat option list"
  ms_bus :: "nat set"

definition platform_device_unregister :: "nat option \<Rightarrow> module_state \<Rightarrow> module_state" where
  "platform_device_unregister p ms = (case p of None \<Rightarrow> ms | Some i \<Rightarrow> ms\<lparr>ms_bus := ms_bus ms - {i}\<rparr>)"

primrec sim_unregister_loop :: "nat list \<Rightarrow> module_state \<Rightarrow> module_state" where
  "sim_unregister_loop [] ms = ms"
| "sim_unregister_loop (i # is) ms =
     (let ms = platform_device_unregister (strela_sim_pdevs ms ! i) ms
      in sim_unregister_loop is (ms\<lparr>strela_sim_pdevs := (strela_sim_pdevs ms)[i := None]\<rparr>))"

definition strela_sim_dev_unregister :: "module_state \<Rightarrow> module_state" where
  "strela_sim_dev_unregister ms = sim_unregister_loop [0..<STRELA_MAX_SIM_DEVS] ms"

text \<open>The registration of device \<open>i\<close> answers with an error or with the device.\<close>

primrec sim_register_loop :: "nat list \<Rightarrow> (nat \<Rightarrow> int + nat) \<Rightarrow> module_state \<Rightarrow> module_state \<times> int" where
  "sim_register_loop [] reg ms = (ms, 0)"
| "sim_register_loop (i # is) reg ms =
     (case reg i of
        Inl e \<Rightarrow> (strela_sim_dev_unregister (ms\<lparr>strela_sim_pdevs := (strela_sim_pdevs ms)[i := None]\<rparr>), e)
      | Inr p \<Rightarrow> sim_register_loop is reg
                   (ms\<lparr>strela_sim_pdevs := (strela_sim_pdevs ms)[i := Some p], ms_bus := insert p (ms_bus ms)\<rparr>))"

definition strela_sim_dev_register :: "16 word \<Rightarrow> (nat \<Rightarrow> int + nat) \<Rightarrow> module_state \<Rightarrow> module_state \<times> int" where
  "strela_sim_dev_register sim_dev_count reg ms =
     sim_register_loop [0..<min (unat sim_dev_count) STRELA_MAX_SIM_DEVS] reg ms"

definition strela_init :: "int \<Rightarrow> 16 word \<Rightarrow> (nat \<Rightarrow> int + nat) \<Rightarrow> module_state \<Rightarrow> module_state \<times> int" where
  "strela_init driver_register sim_dev_count reg ms =
     (if driver_register \<noteq> 0 then (ms, driver_register)
      else
        let (ms, ret) = strela_sim_dev_register sim_dev_count reg (ms\<lparr>ms_driver := True\<rparr>)
        in if ret \<noteq> 0 then (ms\<lparr>ms_driver := False\<rparr>, ret) else (ms, 0))"

definition strela_exit :: "module_state \<Rightarrow> module_state" where
  "strela_exit ms = (strela_sim_dev_unregister ms)\<lparr>ms_driver := False\<rparr>"

section \<open>Properties: clients\<close>

text \<open>Opening and closing a client are inverse: nothing is left of it afterwards, and an open that fails
  leaves nothing behind either.\<close>

theorem open_close_roundtrip:
  assumes "strela_open_file p e cl = (cl', ret)" "cl_priv cl = None" "\<forall>q. p = Some q \<longrightarrow> q \<notin> cl_allocated cl \<and> q \<notin> cl_entities cl"
  shows "if ret = 0 then cl_priv cl' \<noteq> None \<and> strela_postclose cl' = Some cl else cl' = cl"
  using assms by (auto simp: strela_open_file_def strela_postclose_def errnos Let_def split: option.splits if_splits)

theorem open_close_roundtrip_witness:
  "\<exists>cl'. strela_open_file (Some 5) 0 \<lparr>cl_priv = None, cl_entities = {}, cl_allocated = {}\<rparr> = (cl', 0)
    \<and> strela_postclose cl' = Some \<lparr>cl_priv = None, cl_entities = {}, cl_allocated = {}\<rparr>"
proof -
  obtain cl' ret where r: "strela_open_file (Some 5) 0 \<lparr>cl_priv = None, cl_entities = {}, cl_allocated = {}\<rparr> = (cl', ret)"
    by (metis surj_pair)
  then have "ret = 0" by (auto simp: strela_open_file_def Let_def)
  then show ?thesis using open_close_roundtrip[OF r] r by simp
qed

section \<open>Properties: probing\<close>

lemma hw_setup_result:
  assumes "strela_hw_setup env d = (d', ret)"
  obtains cs where "d' = emit cs d" "\<forall>c \<in> set cs. \<exists>r v. c = Writel r v"
proof -
  have "d' = emit [] d \<or> d' = emit [Writel STRELA_REG_OPA (env_rand_a env), Writel STRELA_REG_OPB (env_rand_b env)] d"
    using assms unfolding strela_hw_setup_def by (auto simp: Let_def split: if_splits)
  then show thesis using that[of "[]"] that[of "[Writel STRELA_REG_OPA (env_rand_a env), Writel STRELA_REG_OPB (env_rand_b env)]"] by auto
qed


text \<open>A simulated device on a kernel that grants everything.\<close>

definition sim_probe_env :: probe_env where
  "sim_probe_env = \<lparr>env_dev_alloc = Inr (ready_device False), env_of_node = False, env_dma_mask = 0,
     env_hw_setup = \<lparr>env_ioremap = 0, env_rand_a = 3, env_rand_b = 4, env_read_opr = (+), env_get_irq = 30, env_request_irq = 0\<rparr>,
     env_sched_init = 0, env_dev_register = 0\<rparr>"


section \<open>Properties: loading and unloading\<close>

text \<open>The devices of the array are those the module put on the bus.\<close>

definition pdevs_inv :: "nat set \<Rightarrow> module_state \<Rightarrow> bool" where
  "pdevs_inv bus ms \<longleftrightarrow> length (strela_sim_pdevs ms) = STRELA_MAX_SIM_DEVS
     \<and> ms_bus ms = bus \<union> {p. Some p \<in> set (strela_sim_pdevs ms)} \<and> bus \<inter> {p. Some p \<in> set (strela_sim_pdevs ms)} = {}"

lemma unregister_loop_result:
  "\<forall>i \<in> set is. i < length (strela_sim_pdevs ms) \<Longrightarrow>
   ms_bus (sim_unregister_loop is ms) = ms_bus ms - {p. \<exists>i \<in> set is. strela_sim_pdevs ms ! i = Some p}
   \<and> (\<forall>i < length (strela_sim_pdevs ms). strela_sim_pdevs (sim_unregister_loop is ms) ! i =
        (if i \<in> set is then None else strela_sim_pdevs ms ! i))
   \<and> length (strela_sim_pdevs (sim_unregister_loop is ms)) = length (strela_sim_pdevs ms)
   \<and> ms_driver (sim_unregister_loop is ms) = ms_driver ms"
proof (induction "is" arbitrary: ms)
  case (Cons i "is")
  let ?m = "platform_device_unregister (strela_sim_pdevs ms ! i) ms"
  have m: "strela_sim_pdevs ?m = strela_sim_pdevs ms" "ms_driver ?m = ms_driver ms"
    "ms_bus ?m = ms_bus ms - {p. strela_sim_pdevs ms ! i = Some p}"
    by (auto simp: platform_device_unregister_def split: option.splits)
  let ?n = "?m\<lparr>strela_sim_pdevs := (strela_sim_pdevs ms)[i := None]\<rparr>"
  have upd: "(strela_sim_pdevs ms)[i := None] ! k = (if k = i then None else strela_sim_pdevs ms ! k)"
    if "k < length (strela_sim_pdevs ms)" for k using that by (simp add: nth_list_update)
  have run: "sim_unregister_loop (i # is) ms = sim_unregister_loop is ?n" using m(1) by (simp add: Let_def)
  have IH: "ms_bus (sim_unregister_loop is ?n) = ms_bus ?n - {p. \<exists>k \<in> set is. strela_sim_pdevs ?n ! k = Some p}"
    "\<forall>k < length (strela_sim_pdevs ms). strela_sim_pdevs (sim_unregister_loop is ?n) ! k = (if k \<in> set is then None else strela_sim_pdevs ?n ! k)"
    "length (strela_sim_pdevs (sim_unregister_loop is ?n)) = length (strela_sim_pdevs ms)"
    "ms_driver (sim_unregister_loop is ?n) = ms_driver ms"
    using Cons.IH[of ?n] Cons.prems m(2) by auto
  have "ms_bus ?n - {p. \<exists>k \<in> set is. strela_sim_pdevs ?n ! k = Some p} = ms_bus ms - {p. \<exists>k \<in> set (i # is). strela_sim_pdevs ms ! k = Some p}"
    using m(3) upd Cons.prems by (auto split: if_splits)
  then show ?case unfolding run using IH upd by simp
qed simp

lemma sim_unregister_result:
  assumes "pdevs_inv bus ms"
  shows "strela_sim_dev_unregister ms = ms\<lparr>strela_sim_pdevs := replicate STRELA_MAX_SIM_DEVS None, ms_bus := bus\<rparr>"
proof -
  have len: "length (strela_sim_pdevs ms) = STRELA_MAX_SIM_DEVS" using assms by (simp add: pdevs_inv_def)
  then have "\<forall>i \<in> set [0..<STRELA_MAX_SIM_DEVS]. i < length (strela_sim_pdevs ms)" by simp
  note r = unregister_loop_result[OF this]
  have "{p. \<exists>i \<in> set [0..<STRELA_MAX_SIM_DEVS]. strela_sim_pdevs ms ! i = Some p} = {p. Some p \<in> set (strela_sim_pdevs ms)}"
    using len by (auto simp: in_set_conv_nth)
  then have "ms_bus (strela_sim_dev_unregister ms) = bus" using r assms by (auto simp: strela_sim_dev_unregister_def pdevs_inv_def)
  moreover have "strela_sim_pdevs (strela_sim_dev_unregister ms) = replicate STRELA_MAX_SIM_DEVS None"
    using r len by (auto simp: strela_sim_dev_unregister_def intro!: nth_equalityI)
  moreover have "ms_driver (strela_sim_dev_unregister ms) = ms_driver ms" using r by (simp add: strela_sim_dev_unregister_def)
  ultimately show ?thesis by (cases "strela_sim_dev_unregister ms"; cases ms) simp
qed

text \<open>One registration that succeeds.\<close>

lemma register_one:
  assumes inv: "pdevs_inv bus ms" and i: "i < STRELA_MAX_SIM_DEVS" "strela_sim_pdevs ms ! i = None"
    and p: "p \<notin> bus" "Some p \<notin> set (strela_sim_pdevs ms)"
  shows "pdevs_inv bus (ms\<lparr>strela_sim_pdevs := (strela_sim_pdevs ms)[i := Some p], ms_bus := insert p (ms_bus ms)\<rparr>)"
    "Some q \<in> set ((strela_sim_pdevs ms)[i := Some p]) \<longleftrightarrow> q = p \<or> Some q \<in> set (strela_sim_pdevs ms)"
    "k < STRELA_MAX_SIM_DEVS \<Longrightarrow> (strela_sim_pdevs ms)[i := Some p] ! k = (if k = i then Some p else strela_sim_pdevs ms ! k)"
proof -
  let ?xs = "strela_sim_pdevs ms"
  have l: "i < length ?xs" using inv i(1) by (simp add: pdevs_inv_def)
  have st: "{q. Some q \<in> set (?xs[i := Some p])} = insert p {q. Some q \<in> set ?xs}"
    using l i(2) by (auto simp: in_set_conv_nth nth_list_update split: if_splits) (metis option.distinct(1))
  then show "Some q \<in> set (?xs[i := Some p]) \<longleftrightarrow> q = p \<or> Some q \<in> set ?xs" by auto
  show "pdevs_inv bus (ms\<lparr>strela_sim_pdevs := ?xs[i := Some p], ms_bus := insert p (ms_bus ms)\<rparr>)"
    using inv st p by (auto simp: pdevs_inv_def)
  show "?xs[i := Some p] ! k = (if k = i then Some p else ?xs ! k)" if "k < STRELA_MAX_SIM_DEVS"
    using that l inv by (simp add: pdevs_inv_def nth_list_update)
qed

lemma register_loop_result:
  assumes "pdevs_inv bus ms" "sim_register_loop is reg ms = (ms', ret)" "distinct is"
    "\<forall>i \<in> set is. i < STRELA_MAX_SIM_DEVS \<and> strela_sim_pdevs ms ! i = None"
    "\<forall>i \<in> set is. \<forall>p. reg i = Inr p \<longrightarrow> p \<notin> bus \<and> Some p \<notin> set (strela_sim_pdevs ms)"
    "\<forall>i \<in> set is. \<forall>j \<in> set is. \<forall>p. reg i = Inr p \<and> reg j = Inr p \<longrightarrow> i = j" "\<forall>i \<in> set is. \<forall>e. reg i = Inl e \<longrightarrow> e \<noteq> 0"
  shows "if ret = 0 then pdevs_inv bus ms' \<and> ms_driver ms' = ms_driver ms
       \<and> (\<forall>i < STRELA_MAX_SIM_DEVS. strela_sim_pdevs ms' ! i \<noteq> None \<longleftrightarrow> i \<in> set is \<or> strela_sim_pdevs ms ! i \<noteq> None)
     else ms' = ms\<lparr>strela_sim_pdevs := replicate STRELA_MAX_SIM_DEVS None, ms_bus := bus\<rparr>"
  using assms
proof (induction "is" arbitrary: ms)
  case Nil
  then show ?case by auto
next
  case (Cons i "is")
  let ?xs = "strela_sim_pdevs ms"
  have i: "i < length ?xs" "?xs ! i = None" using Cons.prems(1,4) by (auto simp: pdevs_inv_def)
  show ?case
  proof (cases "reg i")
    case (Inl e)
    have "ms\<lparr>strela_sim_pdevs := ?xs[i := None]\<rparr> = ms" using i list_update_id[of ?xs i] by simp
    then have "ms' = strela_sim_dev_unregister ms" "ret = e" using Cons.prems(2) Inl by auto
    then show ?thesis using sim_unregister_result[OF Cons.prems(1)] Cons.prems(7) Inl by auto
  next
    case (Inr p)
    let ?n = "ms\<lparr>strela_sim_pdevs := ?xs[i := Some p], ms_bus := insert p (ms_bus ms)\<rparr>"
    have p: "p \<notin> bus" "Some p \<notin> set ?xs" using Cons.prems(5) Inr by auto
    have iM: "i < STRELA_MAX_SIM_DEVS" using Cons.prems(4) by simp
    note one = register_one[OF Cons.prems(1) iM i(2) p]
    have fresh: "\<forall>k \<in> set is. \<forall>q. reg k = Inr q \<longrightarrow> q \<notin> bus \<and> Some q \<notin> set (?xs[i := Some p])"
    proof (intro ballI allI impI)
      fix k q assume k: "k \<in> set is" "reg k = Inr q"
      have "q \<noteq> p" using Cons.prems(3,6) Inr k by (metis distinct.simps(2) list.set_intros)
      then show "q \<notin> bus \<and> Some q \<notin> set (?xs[i := Some p])" using Cons.prems(5) k one(2)[of q] by auto
    qed
    have run: "sim_register_loop is reg ?n = (ms', ret)" using Cons.prems(2) Inr by simp
    have sl: "\<forall>k \<in> set is. k < STRELA_MAX_SIM_DEVS \<and> strela_sim_pdevs ?n ! k = None"
    proof
      fix k assume k: "k \<in> set is"
      then have "k \<noteq> i" using Cons.prems(3) by auto
      then show "k < STRELA_MAX_SIM_DEVS \<and> strela_sim_pdevs ?n ! k = None" using Cons.prems(4) k one(3) by auto
    qed
    have "distinct is" "\<forall>k \<in> set is. \<forall>q. reg k = Inr q \<longrightarrow> q \<notin> bus \<and> Some q \<notin> set (strela_sim_pdevs ?n)"
      "\<forall>k \<in> set is. \<forall>j \<in> set is. \<forall>q. reg k = Inr q \<and> reg j = Inr q \<longrightarrow> k = j" "\<forall>k \<in> set is. \<forall>e. reg k = Inl e \<longrightarrow> e \<noteq> 0"
      using Cons.prems(3,6,7) fresh by auto
    note IH = Cons.IH[OF one(1) run this(1) sl this(2-4)]
    show ?thesis
    proof (cases "ret = 0")
      case True
      then have "\<forall>k < STRELA_MAX_SIM_DEVS. strela_sim_pdevs ms' ! k \<noteq> None \<longleftrightarrow> k \<in> set is \<or> ?xs[i := Some p] ! k \<noteq> None" using IH by simp
      then have "\<forall>k < STRELA_MAX_SIM_DEVS. strela_sim_pdevs ms' ! k \<noteq> None \<longleftrightarrow> k \<in> set (i # is) \<or> ?xs ! k \<noteq> None" using one(3) by auto
      then show ?thesis using True IH by simp
    next
      case False
      then show ?thesis using IH by simp
    qed
  qed
qed

text \<open>C36. Loading the module either registers the driver and exactly the first \<^verbatim>\<open>min(sim_dev_count, 4)\<close> simulated
  devices, and unloading it then restores the state before; or it fails and has already restored it.\<close>

theorem init_exit_roundtrip:
  assumes "strela_init e n reg ms = (ms', ret)" "\<not> ms_driver ms" "strela_sim_pdevs ms = replicate STRELA_MAX_SIM_DEVS None"
    "\<And>i p. reg i = Inr p \<Longrightarrow> p \<notin> ms_bus ms" "\<And>i j p. reg i = Inr p \<Longrightarrow> reg j = Inr p \<Longrightarrow> i = j" "\<And>i e. reg i = Inl e \<Longrightarrow> e \<noteq> 0"
  shows "if ret = 0 then ms_driver ms' \<and> strela_exit ms' = ms
      \<and> (\<forall>i < STRELA_MAX_SIM_DEVS. strela_sim_pdevs ms' ! i \<noteq> None \<longleftrightarrow> i < unat n)
    else ms' = ms"
proof (cases "e = 0")
  case False
  then show ?thesis using assms(1) by (simp add: strela_init_def)
next
  case True
  let ?ms = "ms\<lparr>ms_driver := True\<rparr>"
  obtain m1 r where run: "sim_register_loop [0..<min (unat n) STRELA_MAX_SIM_DEVS] reg ?ms = (m1, r)" by (metis surj_pair)
  have inv: "pdevs_inv (ms_bus ms) ?ms" using assms(3) by (auto simp: pdevs_inv_def)
  have "if r = 0 then pdevs_inv (ms_bus ms) m1 \<and> ms_driver m1 = ms_driver ?ms
       \<and> (\<forall>i < STRELA_MAX_SIM_DEVS. strela_sim_pdevs m1 ! i \<noteq> None \<longleftrightarrow>
            i \<in> set [0..<min (unat n) STRELA_MAX_SIM_DEVS] \<or> strela_sim_pdevs ?ms ! i \<noteq> None)
     else m1 = ?ms\<lparr>strela_sim_pdevs := replicate STRELA_MAX_SIM_DEVS None, ms_bus := ms_bus ms\<rparr>"
    by (rule register_loop_result[OF inv run]) (use assms(3-6) in auto)
  moreover have "strela_exit m1 = m1\<lparr>ms_driver := False, strela_sim_pdevs := replicate STRELA_MAX_SIM_DEVS None, ms_bus := ms_bus ms\<rparr>"
    if "pdevs_inv (ms_bus ms) m1" using sim_unregister_result[OF that] by (simp add: strela_exit_def)
  moreover have "ms' = (if r = 0 then m1 else m1\<lparr>ms_driver := False\<rparr>)" "ret = r"
    using assms(1) run True by (auto simp: strela_init_def strela_sim_dev_register_def split: if_splits)
  moreover have "m\<lparr>ms_driver := False, strela_sim_pdevs := replicate STRELA_MAX_SIM_DEVS None, ms_bus := ms_bus ms\<rparr> = ms" for m
    using assms(2,3) by (cases ms; cases m) simp
  ultimately show ?thesis using assms(2,3) by (cases "r = 0") auto
qed

theorem init_exit_roundtrip_witness:
  "\<exists>ms'. strela_init 0 2 Inr \<lparr>ms_driver = False, strela_sim_pdevs = replicate STRELA_MAX_SIM_DEVS None, ms_bus = {}\<rparr> = (ms', 0)
    \<and> strela_exit ms' = \<lparr>ms_driver = False, strela_sim_pdevs = replicate STRELA_MAX_SIM_DEVS None, ms_bus = {}\<rparr>"
proof -
  let ?ms = "\<lparr>ms_driver = False, strela_sim_pdevs = replicate STRELA_MAX_SIM_DEVS None, ms_bus = {}\<rparr>"
  obtain ms' ret where r: "strela_init 0 2 Inr ?ms = (ms', ret)" by (metis surj_pair)
  have "ret = 0" using r
    by (auto simp: strela_init_def strela_sim_dev_register_def STRELA_MAX_SIM_DEVS_def upt_rec)
  moreover have "if ret = 0 then ms_driver ms' \<and> strela_exit ms' = ?ms
      \<and> (\<forall>i < STRELA_MAX_SIM_DEVS. strela_sim_pdevs ms' ! i \<noteq> None \<longleftrightarrow> i < unat (2 :: 16 word)) else ms' = ?ms"
    by (rule init_exit_roundtrip[OF r]) auto
  ultimately show ?thesis using r by auto
qed

end
