(* ===== verification/MachineRefs.thy ===== *)
theory MachineRefs
  imports MachineProps "HOL-Library.Multiset"
begin

text \<open>
  The references that the driver holds, in every run.  A ledger assigns a weight to each call and a
  share to each job; when a submit that succeeds adds the share of its job, a release takes it away, and
  nothing else counts, the calls made so far add up to the shares of the jobs that are left.  The
  references on buffer objects and those on hardware fences are ledgers.
\<close>

section \<open>Ledgers\<close>

definition tally :: "(kcall \<Rightarrow> int) \<Rightarrow> kcall list \<Rightarrow> int" where
  "tally w cs = sum_list (map w cs)"

definition shares :: "(strela_job \<Rightarrow> int) \<Rightarrow> strela_device \<Rightarrow> nat list \<Rightarrow> int" where
  "shares share d js = (\<Sum>j\<leftarrow>js. case sd_jobs d j of None \<Rightarrow> 0 | Some job \<Rightarrow> share job)"

lemma tally_simps [simp]:
  "tally w [] = 0" "tally w (c # cs) = w c + tally w cs" "tally w (xs @ ys) = tally w xs + tally w ys"
  by (simp_all add: tally_def)

lemma tally_zero: "\<forall>c \<in> set cs. w c = 0 \<Longrightarrow> tally w cs = 0"
  by (induction cs) auto

lemma shares_simps [simp]:
  "shares g d [] = 0" "shares g d (xs @ ys) = shares g d xs + shares g d ys"
  "shares g d (j # js) = (case sd_jobs d j of None \<Rightarrow> 0 | Some job \<Rightarrow> g job) + shares g d js"
  by (simp_all add: shares_def)

lemma shares_cong: "(\<And>j. j \<in> set js \<Longrightarrow> map_option g (sd_jobs d' j) = map_option g (sd_jobs d j)) \<Longrightarrow> shares g d' js = shares g d js"
proof (induction js)
  case (Cons j js)
  have "map_option g (sd_jobs d' j) = map_option g (sd_jobs d j)" using Cons.prems by simp
  then have "(case sd_jobs d' j of None \<Rightarrow> 0 | Some job \<Rightarrow> g job) = (case sd_jobs d j of None \<Rightarrow> 0 | Some job \<Rightarrow> g job)"
    by (cases "sd_jobs d' j"; cases "sd_jobs d j") auto
  then show ?case using Cons by simp
qed simp

text \<open>Steps of a device that count in no ledger.\<close>

definition neutral :: "strela_device \<Rightarrow> strela_device \<Rightarrow> bool" where
  "neutral d d' \<longleftrightarrow> (\<exists>cs. sd_calls d' = sd_calls d @ cs \<and> (\<forall>c \<in> set cs. quiet_call c \<or> (\<exists>f. c = Fence_signal f)))
     \<and> (\<forall>j. map_option job_core (sd_jobs d' j) = map_option job_core (sd_jobs d j))"

lemma neutral_quiet: "quiet_update d d' \<Longrightarrow> neutral d d'"
  by (auto simp: quiet_update_def neutral_def list_all_iff)

lemma neutral_trans: "neutral a b \<Longrightarrow> neutral b c \<Longrightarrow> neutral a c"
  unfolding neutral_def by (metis UnE append.assoc set_append)

lemma phase_done_neutral:
  assumes "strela_job_phase_done ph d = Some d'" "\<And>j. sd_active d = Some j \<Longrightarrow> sd_jobs d j \<noteq> None"
  shows "neutral d d'"
proof (cases rule: phase_done_cases[of d ph, OF assms(2)])
  case (2 d1)
  then show ?thesis using assms(1) neutral_quiet by simp
next
  case (3 j job)
  then show ?thesis using assms(1) by (auto simp: neutral_def)
qed simp

lemma irq_thread_neutral:
  assumes "strela_irq_thread_fn d = Some (d', r)" "\<And>j. sd_active d = Some j \<Longrightarrow> sd_jobs d j \<noteq> None"
  shows "neutral d d'"
proof -
  let ?n = "d\<lparr>sd_irq_status := 0\<rparr>"
  have q: "neutral d ?n" by (rule neutral_quiet) simp
  have "neutral ?n d1" if "strela_job_phase_done ph ?n = Some d1" for ph d1
    using phase_done_neutral[OF that] assms(2) by simp
  then show ?thesis using assms(1) q neutral_trans
    by (auto simp: strela_irq_thread_fn_def Let_def split: if_splits bind_splits)
qed

lemma sim_work_neutral:
  assumes inv: "machine_inv m" and run: "strela_sim_work (m_sim m) (m_dev m) = Some (d, pc)"
  shows "neutral (m_dev m) d"
proof (cases "m_sim m")
  case (Sim_col j i fed)
  obtain d1 job ok where c: "sd_jobs (m_dev m) j = Some job" "quiet_update (m_dev m) d1"
    "strela_sim_bypass_column (job_inputs job ! i) (job_input_strides job ! i) (job_outputs job ! i) (m_dev m) = Some (d1, ok)"
    by (rule inv_column[OF inv Sim_col])
  then have "d = d1" using run Sim_col by (simp add: Let_def)
  then show ?thesis using c(2) neutral_quiet by simp
qed (use run phase_done_neutral[OF _ inv_active_alloc[OF inv]] neutral_quiet[OF quiet_refl] in \<open>auto split: bind_splits\<close>)

text \<open>What a step does to the ledgers: a submit, a release, or nothing.\<close>

lemma step_ledger:
  assumes "machine_step m m'" "machine_inv m"
  obtains (submit) env args ret where "fresh_alloc env (m_dev m)" "strela_submit_ioctl env args (m_dev m) = (m_dev m', ret)"
      "mset (live m') = mset (live m) + (if ret = 0 then {#the (env_job env)#} else {#})"
    | (free) j where "strela_free_job j (m_dev m) = Some (m_dev m')" "mset (live m) = add_mset j (mset (live m'))"
    | (other) "neutral (m_dev m) (m_dev m')" "mset (live m') = mset (live m)"
  using assms(1)
proof (cases rule: machine_step.cases)
  case (submit env args d ret q cl c)
  then show ?thesis by (intro that(1)[of env args ret]) (auto simp: live_def split: option.splits)
next
  case (run p j q d f)
  have jl: "j \<in> set (live m)" using run(4) by (simp add: live_def)
  obtain job where job: "sd_jobs (m_dev m) j = Some job" "job_ok (sd_objs (m_dev m)) job" by (rule inv_job_ok[OF assms(2) jl])
  have "sd_active (m_dev m) = None" using inv_no_run[OF assms(2) run(2)] by simp
  from run_job_result[OF job this] have "quiet_update (m_dev m) d" using run(6) by auto
  then show ?thesis using run neutral_quiet by (intro that(3)) (auto simp: live_def)
next
  case (free j js d)
  then show ?thesis by (intro that(2)[of j]) (auto simp: live_def split: option.splits)
next
  case (kill p j q d)
  then show ?thesis by (intro that(2)[of j]) (auto simp: live_def split: option.splits)
next
  case tdr_hw_stop
  have "sd_active (m_dev m) = None" using assms(2) tdr_hw_stop by (simp add: machine_inv_def phase_inv_def)
  then show ?thesis using tdr_hw_stop neutral_quiet[OF hw_stop_quiet] by (intro that(3)) simp_all
next
  case (irq status d r)
  have "quiet_update (m_dev m) d" using irq(4) by (auto simp: strela_irq_handler_def split: if_splits)
  then show ?thesis using irq(1) neutral_quiet by (intro that(3)) simp_all
next
  case (irq_thread d r)
  then show ?thesis using irq_thread_neutral[OF _ inv_active_alloc[OF assms(2)]] by (intro that(3)) simp_all
next
  case (sim d pc)
  then show ?thesis using sim_work_neutral[OF assms(2)] by (intro that(3)) simp_all
qed (use that(3) neutral_quiet in \<open>auto simp: live_def abort_locked_def split: option.splits\<close>)

locale ledger =
  fixes weight :: "kcall \<Rightarrow> int"
    and share :: "strela_job \<Rightarrow> int"
  assumes weight_quiet: "quiet_call c \<Longrightarrow> weight c = 0"
    and weight_signal: "weight (Fence_signal f) = 0"
    and share_phase: "share (job\<lparr>job_phase := p\<rparr>) = share job"
    and submit_adds: "strela_submit_ioctl env args d = (d', ret) \<Longrightarrow> \<exists>cs. sd_calls d' = sd_calls d @ cs
      \<and> tally weight cs = (if ret = 0 then share (the (sd_jobs d' (the (env_job env)))) else 0)"
    and free_takes: "sd_jobs d j = Some job \<Longrightarrow> job_shape job \<Longrightarrow> strela_free_job j d = Some d' \<Longrightarrow> \<exists>cs. sd_calls d' = sd_calls d @ cs
      \<and> tally weight cs = - share job"
begin

lemma share_core: "job_core a = job_core b \<Longrightarrow> share a = share b"
  using share_phase unfolding job_core_def by metis

lemma neutral_keeps:
  assumes "neutral d d'"
  shows "tally weight (sd_calls d') = tally weight (sd_calls d)" "shares share d' js = shares share d js"
proof -
  obtain cs where cs: "sd_calls d' = sd_calls d @ cs" "\<forall>c \<in> set cs. quiet_call c \<or> (\<exists>f. c = Fence_signal f)"
    using assms unfolding neutral_def by blast
  have "\<forall>c \<in> set cs. weight c = 0" using cs(2) weight_quiet weight_signal by blast
  then have "tally weight cs = 0" by (rule tally_zero)
  then show "tally weight (sd_calls d') = tally weight (sd_calls d)" using cs(1) by simp
  show "shares share d' js = shares share d js"
  proof (rule shares_cong)
    fix j
    have "map_option job_core (sd_jobs d' j) = map_option job_core (sd_jobs d j)" using assms unfolding neutral_def by blast
    then show "map_option share (sd_jobs d' j) = map_option share (sd_jobs d j)"
      using share_core[of "the (sd_jobs d' j)" "the (sd_jobs d j)"] by (cases "sd_jobs d' j"; cases "sd_jobs d j") simp_all
  qed
qed

lemma shares_mset: "mset xs = mset ys \<Longrightarrow> shares share d xs = shares share d ys"
  unfolding shares_def by (metis mset_map sum_mset_sum_list)

text \<open>The calls add up to the shares of the jobs in the driver.\<close>

lemma step_balanced:
  assumes "machine_step m m'" "machine_inv m" "tally weight (sd_calls (m_dev m)) = shares share (m_dev m) (live m)"
  shows "tally weight (sd_calls (m_dev m')) = shares share (m_dev m') (live m')"
  using assms(1,2)
proof (cases rule: step_ledger)
  case (submit env args ret)
  obtain cs where cs: "sd_calls (m_dev m') = sd_calls (m_dev m) @ cs"
    "tally weight cs = (if ret = 0 then share (the (sd_jobs (m_dev m') (the (env_job env)))) else 0)"
    using submit_adds[OF submit(2)] by blast
  have eff: "submit_effect env (m_dev m) (m_dev m') ret" by (rule submit_machine[OF inv_facts(1)[OF assms(2)] submit(1,2)])
  show ?thesis
  proof (cases "ret = 0")
    case False
    then have "sd_jobs (m_dev m') = sd_jobs (m_dev m)" using eff by (simp add: submit_effect_def)
    then have "shares share (m_dev m') (live m') = shares share (m_dev m) (live m)"
      using shares_mset[of "live m'" "live m"] shares_cong[of "live m" share "m_dev m'" "m_dev m"] submit(3) False by simp
    then show ?thesis using cs False assms(3) by simp
  next
    case True
    then obtain j job where j: "env_job env = Some j" "sd_jobs (m_dev m) j = None" "sd_jobs (m_dev m') = (sd_jobs (m_dev m))(j \<mapsto> job)"
      using eff by (auto simp: submit_effect_def)
    have "mset (live m') = mset (j # live m)" using submit(3) True j(1) by simp
    then have "shares share (m_dev m') (live m') = share job + shares share (m_dev m') (live m)" using j(3) by (simp add: shares_mset[of "live m'" "j # live m"])
    moreover have "j \<notin> set (live m)" using inv_facts(3)[OF assms(2)] j(2) by blast
    then have "shares share (m_dev m') (live m) = shares share (m_dev m) (live m)" using j(3) by (intro shares_cong) auto
    ultimately show ?thesis using cs True assms(3) j(1,3) by simp
  qed
next
  case (free j)
  have lv: "j \<in> set (live m)" using free(2) by (metis set_mset_mset union_single_eq_member)
  have nj: "j \<notin> set (live m')" using free(2) inv_facts(2)[OF assms(2)] by (metis distinct.simps(2) mset.simps(2) mset_eq_imp_distinct_iff)
  obtain job where job: "sd_jobs (m_dev m) j = Some job" "job_ok (sd_objs (m_dev m)) job" by (rule inv_job_ok[OF assms(2) lv])
  have "job_shape job" using job(2) by (auto simp: job_ok_def job_bound_def)
  then obtain cs where cs: "sd_calls (m_dev m') = sd_calls (m_dev m) @ cs" "tally weight cs = - share job" using free_takes[OF job(1) _ free(1)] by blast
  have "sd_jobs (m_dev m') = (sd_jobs (m_dev m))(j := None)" using free_job_result[OF job(1)] free(1) by (metis option.inject)
  then have "shares share (m_dev m') (live m') = shares share (m_dev m) (live m')" using nj by (intro shares_cong) auto
  moreover have "shares share (m_dev m) (live m) = share job + shares share (m_dev m) (live m')"
    using shares_mset[of "live m" "j # live m'"] free(2) job(1) by simp
  ultimately show ?thesis using cs assms(3) by simp
next
  case other
  then show ?thesis using neutral_keeps assms(3) shares_mset by metis
qed

lemma balanced: "reachable m \<Longrightarrow> tally weight (sd_calls (m_dev m)) = shares share (m_dev m) (live m)"
proof (induction rule: reachable.induct)
  case (init sdev)
  have "\<forall>c \<in> set (sd_calls sdev). weight c = 0"
    using init by (auto simp: fresh_device_def intro!: weight_quiet)
  then have "tally weight (sd_calls sdev) = 0" by (rule tally_zero)
  then show ?case by (simp add: machine_init_def live_def)
next
  case (step m m')
  then show ?case using step_balanced reachable_inv by blast
qed

end

section \<open>The two ledgers\<close>

definition gem_weight :: "nat \<Rightarrow> kcall \<Rightarrow> int" where
  "gem_weight x c = (case c of Gem_lookup y \<Rightarrow> of_bool (y = x) | Gem_put z \<Rightarrow> - of_bool (z = Some x) | _ \<Rightarrow> 0)"

definition gem_share :: "nat \<Rightarrow> strela_job \<Rightarrow> int" where
  "gem_share x job = int (count_list (job_objs job) (Some x))"

text \<open>The reference that \<^verbatim>\<open>run_job\<close> takes for the scheduler is the scheduler's to give back, and not counted.\<close>

definition fence_weight :: "nat \<Rightarrow> kcall \<Rightarrow> int" where
  "fence_weight f c = (case c of Fence_init g _ \<Rightarrow> of_bool (g = f) | Fence_put g \<Rightarrow> - of_bool (g = f) | _ \<Rightarrow> 0)"

definition fence_share :: "nat \<Rightarrow> strela_job \<Rightarrow> int" where
  "fence_share f job = of_bool (job_hw_fence job = f)"

lemma gem_tally: "tally (gem_weight x) cs = gem_refs cs x"
proof (induction cs)
  case (Cons c cs)
  then show ?case by (cases c) (simp_all add: gem_weight_def gem_refs_other)
qed simp

lemma fence_tally: "\<forall>g. Fence_get g \<notin> set cs \<Longrightarrow> tally (fence_weight f) cs = fence_refs cs f"
proof (induction cs)
  case (Cons c cs)
  then show ?case by (cases c) (auto simp: fence_weight_def)
qed simp

lemma submit_totals:
  assumes "strela_submit_ioctl env args d = (d', ret)"
  shows "\<exists>cs. sd_calls d' = sd_calls d @ cs
    \<and> tally (gem_weight x) cs = (if ret = 0 then gem_share x (the (sd_jobs d' (the (env_job env)))) else 0)
    \<and> tally (fence_weight f) cs = (if ret = 0 then fence_share f (the (sd_jobs d' (the (env_job env)))) else 0)"
proof (cases "ret = 0")
  case False
  then show ?thesis using submit_failure[OF assms False] fence_tally gem_tally by metis
next
  case True
  then obtain j where j: "env_job env = Some j"
    using assms by (cases "env_job env") (auto simp: strela_submit_ioctl_def errnos split: if_splits)
  have r0: "strela_submit_ioctl env args d = (d', 0)" using assms True by simp
  obtain g where g: "env_fence env = Some g" using submit_success(2)[OF r0 j] by blast
  obtain cs job so where c: "list_all resolve_call cs" "job_hw_fence job = g" "\<And>x. gem_refs cs x = int (count_list (job_objs job) (Some x))"
    "sd_calls d' = sd_calls d @ [Fence_init g (sd_fence_seqno d + 1), Sched_job_init j] @ cs
       @ [Sched_job_arm j, Syncobj_replace_fence so j, Syncobj_put so, Sched_push_job j]" "sd_jobs d' = (sd_jobs d)(j \<mapsto> job)"
    by (rule submit_allocated[OF submit_success(1)[OF r0 j] j g submit_success(3)[OF r0 j] r0]) auto
  have "tally (fence_weight f) cs = 0" using fence_tally[of cs f] resolve_calls_quiet[OF c(1)] by simp
  then show ?thesis using c(2-5) j True
    by (intro exI[of _ "[Fence_init g (sd_fence_seqno d + 1), Sched_job_init j] @ cs
       @ [Sched_job_arm j, Syncobj_replace_fence so j, Syncobj_put so, Sched_push_job j]"])
       (simp add: gem_tally gem_weight_def fence_weight_def gem_share_def fence_share_def)
qed

lemma free_totals:
  assumes "sd_jobs d j = Some job" "job_shape job" "strela_free_job j d = Some d'"
  shows "\<exists>cs. sd_calls d' = sd_calls d @ cs \<and> tally (gem_weight x) cs = - gem_share x job \<and> tally (fence_weight f) cs = - fence_share f job"
proof -
  note pb = put_bindings_refs[OF assms(2)]
  have "\<forall>g. Fence_get g \<notin> set (put_bindings_calls job)" by (auto simp: put_bindings_calls_def)
  then have "tally (fence_weight f) (put_bindings_calls job) = 0" using fence_tally pb(2) by simp
  then show ?thesis using assms(1,3) pb(1)
    by (intro exI[of _ "Sched_job_cleanup j # put_bindings_calls job @ [Fence_put (job_hw_fence job), Kfree_job j]"])
       (auto simp: strela_free_job_def strela_job_put_bindings_def Let_def gem_tally gem_weight_def fence_weight_def gem_share_def fence_share_def)
qed

interpretation gem_ledger: ledger "gem_weight x" "gem_share x" for x
proof
  show "quiet_call c \<Longrightarrow> gem_weight x c = 0" for c by (cases c) (simp_all add: gem_weight_def)
  show "gem_weight x (Fence_signal f) = 0" for f by (simp add: gem_weight_def)
  show "gem_share x (job\<lparr>job_phase := p\<rparr>) = gem_share x job" for job p by (simp add: gem_share_def job_objs_def)
qed (use submit_totals free_totals in blast)+

interpretation fence_ledger: ledger "fence_weight f" "fence_share f" for f
proof
  show "quiet_call c \<Longrightarrow> fence_weight f c = 0" for c by (cases c) (simp_all add: fence_weight_def)
  show "fence_weight f (Fence_signal g) = 0" for g by (simp add: fence_weight_def)
  show "fence_share f (job\<lparr>job_phase := p\<rparr>) = fence_share f job" for job p by (simp add: fence_share_def)
qed (use submit_totals free_totals in blast)+

text \<open>Among distinct jobs at most one has a given fence.\<close>

lemma fence_shares:
  assumes "distinct js" "\<And>i j ji jj. sd_jobs d i = Some ji \<Longrightarrow> sd_jobs d j = Some jj \<Longrightarrow> job_hw_fence ji = job_hw_fence jj \<Longrightarrow> i = j"
  shows "shares (fence_share f) d js = of_bool (\<exists>j \<in> set js. \<exists>job. sd_jobs d j = Some job \<and> job_hw_fence job = f)"
  using assms(1)
proof (induction js)
  case (Cons j js)
  then show ?case using assms(2) by (cases "sd_jobs d j") (auto simp: fence_share_def)
qed simp

text \<open>C5. In every run of the driver, the references it holds on a buffer object are those of the bindings of
  the jobs that are queued, running or waiting to be freed, one for each binding that names the
  object; and on each hardware fence it holds one reference while the job of that fence is
  allocated, and none before and after.  So nothing is leaked and nothing given back twice on any path.\<close>

theorem driver_references:
  assumes "reachable m"
  shows "gem_refs (sd_calls (m_dev m)) x
      = (\<Sum>j\<leftarrow>live m. case sd_jobs (m_dev m) j of None \<Rightarrow> 0 | Some job \<Rightarrow> int (count_list (job_objs job) (Some x)))
    \<and> tally (fence_weight f) (sd_calls (m_dev m)) = of_bool (\<exists>j job. sd_jobs (m_dev m) j = Some job \<and> job_hw_fence job = f)"
proof
  show "gem_refs (sd_calls (m_dev m)) x
      = (\<Sum>j\<leftarrow>live m. case sd_jobs (m_dev m) j of None \<Rightarrow> 0 | Some job \<Rightarrow> int (count_list (job_objs job) (Some x)))"
    using gem_ledger.balanced[OF assms, of x] by (simp add: gem_tally shares_def gem_share_def[abs_def])
  note inv = reachable_inv[OF assms]
  have "shares (fence_share f) (m_dev m) (live m) = of_bool (\<exists>j \<in> set (live m). \<exists>job. sd_jobs (m_dev m) j = Some job \<and> job_hw_fence job = f)"
    using inv_facts(1)[OF inv] by (intro fence_shares[OF inv_facts(2)[OF inv]]) (auto simp: static_inv_def)
  moreover have "(\<exists>j \<in> set (live m). \<exists>job. sd_jobs (m_dev m) j = Some job \<and> job_hw_fence job = f)
      \<longleftrightarrow> (\<exists>j job. sd_jobs (m_dev m) j = Some job \<and> job_hw_fence job = f)"
    using inv_facts(3)[OF inv] by (metis option.distinct(1))
  ultimately show "tally (fence_weight f) (sd_calls (m_dev m)) = of_bool (\<exists>j job. sd_jobs (m_dev m) j = Some job \<and> job_hw_fence job = f)"
    using fence_ledger.balanced[OF assms, of f] by simp
qed

theorem driver_references_witness:
  "\<exists>m job f. reachable m \<and> m_queue m = [1, 2] \<and> sd_jobs (m_dev m) 1 = Some job \<and> tally (fence_weight f) (sd_calls (m_dev m)) = 1
    \<and> (\<forall>x. int (count_list (job_objs job) (Some x)) \<le> gem_refs (sd_calls (m_dev m)) x)"
proof -
  obtain m where m: "reachable m" "m_queue m = [1, 2]" "m_run m = None" "m_done m = []" by (rule submitted_run)
  have lv: "live m = [1, 2]" using m by (simp add: live_def)
  obtain job where job: "sd_jobs (m_dev m) 1 = Some job" using inv_job_ok[OF reachable_inv[OF m(1)], of 1] lv by auto
  have "tally (fence_weight (job_hw_fence job)) (sd_calls (m_dev m)) = 1" using driver_references[OF m(1)] job by auto
  moreover have "int (count_list (job_objs job) (Some x)) \<le> gem_refs (sd_calls (m_dev m)) x" for x
    using driver_references[OF m(1), of x] job by (simp add: lv split: option.splits)
  ultimately show ?thesis using m(1,2) job by blast
qed

section \<open>Draining\<close>

text \<open>The worker of a simulated device comes to an end from wherever it is.\<close>

fun sim_left :: "sim_pc \<Rightarrow> nat" where
  "sim_left Sim_idle = 0"
| "sim_left (Sim_finish j) = 1"
| "sim_left (Sim_col j i fed) = 2 + 2 * (STRELA_NUM_IO_COLS - i)"
| "sim_left (Sim_col_wait j i fed) = 3 + 2 * (STRELA_NUM_IO_COLS - i)"
| "sim_left (Sim_config_done j) = 4 + 2 * STRELA_NUM_IO_COLS"
| "sim_left (Sim_config_wait j) = 5 + 2 * STRELA_NUM_IO_COLS"
| "sim_left Sim_queued = 6 + 2 * STRELA_NUM_IO_COLS"

lemma sim_work_left:
  assumes "strela_sim_work pc d = Some (d', pc')" "pc \<noteq> Sim_idle"
  shows "sim_left pc' < sim_left pc"
  using assms by (cases pc) (auto simp: Let_def split: bind_splits option.splits if_splits)

lemma worker_ends:
  assumes "reachable m"
  shows "\<exists>d. work\<^sup>*\<^sup>* m (m\<lparr>m_dev := d, m_sim := Sim_idle\<rparr>)"
  using assms
proof (induction "sim_left (m_sim m)" arbitrary: m rule: less_induct)
  case less
  show ?case
  proof (cases "m_sim m = Sim_idle")
    case True
    then have "m\<lparr>m_dev := m_dev m, m_sim := Sim_idle\<rparr> = m" by simp
    then show ?thesis by (metis rtranclp.rtrancl_refl)
  next
    case False
    obtain d pc where w: "strela_sim_work (m_sim m) (m_dev m) = Some (d, pc)" using inv_sim[OF reachable_inv[OF less.prems]] by blast
    let ?m = "m\<lparr>m_dev := d, m_sim := pc\<rparr>"
    have st: "machine_step m ?m" using w by (rule machine_step.sim)
    then have wk: "work m ?m" by (rule work_keep) simp
    have "sim_left (m_sim ?m) < sim_left (m_sim m)" using sim_work_left[OF w False] by simp
    then obtain d' where "work\<^sup>*\<^sup>* ?m (?m\<lparr>m_dev := d', m_sim := Sim_idle\<rparr>)"
      using less.hyps reachable.step[OF less.prems st] by blast
    then show ?thesis using wk by (auto intro: converse_rtranclp_into_rtranclp)
  qed
qed

text \<open>At rest: no timeout handler is under way and the worker is idle.\<close>

definition at_rest :: "machine \<Rightarrow> bool" where
  "at_rest m \<longleftrightarrow> m_tdr m = Tdr_idle \<and> m_sim m = Sim_idle"

fun tdr_left :: "tdr \<Rightarrow> nat" where
  "tdr_left Tdr_idle = 0"
| "tdr_left Tdr_reset = 1"
| "tdr_left Tdr_stopping = 2"
| "tdr_left Tdr_aborted = 3"
| "tdr_left Tdr_stopped = 4"

lemma handler_step:
  assumes "reachable m" "m_tdr m \<noteq> Tdr_idle"
  shows "\<exists>m'. work\<^sup>*\<^sup>* m m' \<and> tdr_left (m_tdr m') < tdr_left (m_tdr m) \<and> m_queue m' = m_queue m"
proof (cases "m_tdr m")
  case Tdr_stopped
  from work_keep[OF machine_step.tdr_abort[OF this], simplified] show ?thesis using Tdr_stopped by (intro exI conjI) (erule r_into_rtranclp, simp_all)
next
  case Tdr_aborted
  from work_keep[OF machine_step.tdr_hw_stop[OF this], simplified] show ?thesis using Tdr_aborted by (intro exI conjI) (erule r_into_rtranclp, simp_all)
next
  case Tdr_stopping
  obtain d where w: "work\<^sup>*\<^sup>* m (m\<lparr>m_dev := d, m_sim := Sim_idle\<rparr>)" using worker_ends[OF assms(1)] by blast
  let ?m = "m\<lparr>m_dev := d, m_sim := Sim_idle\<rparr>"
  have "work ?m (?m\<lparr>m_tdr := Tdr_reset, m_sim := Sim_idle\<rparr>)" by (rule work_keep[OF machine_step.tdr_settled]) (use Tdr_stopping in simp_all)
  with w show ?thesis using Tdr_stopping by (intro exI conjI) (erule rtranclp.rtrancl_into_rtrancl, assumption, simp_all)
next
  case Tdr_reset
  from work_keep[OF machine_step.tdr_start[OF this], simplified] show ?thesis using Tdr_reset by (intro exI conjI) (erule r_into_rtranclp, simp_all)
qed (use assms(2) in simp)

lemma handler_ends:
  assumes "reachable m"
  shows "\<exists>m'. work\<^sup>*\<^sup>* m m' \<and> at_rest m' \<and> m_queue m' = m_queue m"
  using assms
proof (induction "tdr_left (m_tdr m)" arbitrary: m rule: less_induct)
  case less
  show ?case
  proof (cases "m_tdr m = Tdr_idle")
    case True
    then show ?thesis using worker_ends[OF less.prems] by (fastforce simp: at_rest_def)
  next
    case False
    obtain m1 where m1: "work\<^sup>*\<^sup>* m m1" "tdr_left (m_tdr m1) < tdr_left (m_tdr m)" "m_queue m1 = m_queue m"
      using handler_step[OF less.prems False] by blast
    then show ?thesis using less.hyps[OF m1(2) work_reachable[OF m1(1) less.prems]] by (metis rtranclp_trans)
  qed
qed

text \<open>The job that runs leaves, by a timeout if nothing else, and the jobs that have left are freed.\<close>

lemma running_ends:
  assumes "reachable m" "at_rest m"
  shows "\<exists>m'. work\<^sup>*\<^sup>* m m' \<and> at_rest m' \<and> m_run m' = None \<and> m_queue m' = m_queue m"
proof (cases "m_run m")
  case None
  then show ?thesis using assms(2) by blast
next
  case (Some k)
  then show ?thesis using timeout_works[of m k] assms(2) by (fastforce simp: at_rest_def)
qed

lemma done_freed:
  assumes "reachable m" "at_rest m" "m_run m = None"
  shows "\<exists>m'. work\<^sup>*\<^sup>* m m' \<and> at_rest m' \<and> m_run m' = None \<and> m_done m' = [] \<and> m_queue m' = m_queue m"
  using assms
proof (induction "m_done m" arbitrary: m)
  case Nil
  then show ?case by (metis rtranclp.rtrancl_refl)
next
  case (Cons j js)
  have dn: "m_done m = j # js" using Cons.hyps(2) by simp
  obtain d where d: "strela_free_job j (m_dev m) = Some d" using inv_free[OF reachable_inv[OF Cons.prems(1)] dn] by blast
  let ?m = "m\<lparr>m_dev := d, m_done := js\<rparr>"
  have st: "machine_step m ?m" using Cons.prems(2) dn d by (intro machine_step.free) (simp_all add: at_rest_def)
  then have wk: "work m ?m" by (rule work_keep) simp
  have "\<exists>m'. work\<^sup>*\<^sup>* ?m m' \<and> at_rest m' \<and> m_run m' = None \<and> m_done m' = [] \<and> m_queue m' = m_queue ?m"
    using Cons.prems by (intro Cons.hyps(1) reachable.step[OF _ st]) (simp_all add: at_rest_def)
  then show ?case using wk by (auto intro: converse_rtranclp_into_rtranclp)
qed

lemma settles:
  assumes "reachable m"
  shows "\<exists>m'. work\<^sup>*\<^sup>* m m' \<and> at_rest m' \<and> m_run m' = None \<and> m_done m' = [] \<and> m_queue m' = m_queue m"
proof -
  obtain m1 where m1: "work\<^sup>*\<^sup>* m m1" "at_rest m1" "m_queue m1 = m_queue m" using handler_ends[OF assms] by blast
  note r1 = work_reachable[OF m1(1) assms]
  obtain m2 where m2: "work\<^sup>*\<^sup>* m1 m2" "at_rest m2" "m_run m2 = None" "m_queue m2 = m_queue m1" using running_ends[OF r1 m1(2)] by blast
  show ?thesis using done_freed[OF work_reachable[OF m2(1) r1] m2(2,3)] m1 m2 by (metis rtranclp_trans)
qed

lemma drains:
  assumes "reachable m"
  shows "\<exists>m'. work\<^sup>*\<^sup>* m m' \<and> at_rest m' \<and> live m' = []"
  using assms
proof (induction "length (m_queue m)" arbitrary: m)
  case 0
  then show ?case using settles[OF 0(2)] by (auto simp: live_def)
next
  case (Suc n)
  obtain m1 where m1: "work\<^sup>*\<^sup>* m m1" "at_rest m1" "m_run m1 = None" "m_queue m1 = m_queue m" using settles[OF Suc.prems] by blast
  note r1 = work_reachable[OF m1(1) Suc.prems]
  obtain j q where q: "m_queue m1 = j # q" "length q = n" using Suc.hyps(2) m1(4) by (metis length_Suc_conv)
  have idle: "m_tdr m1 = Tdr_idle" using m1(2) by (simp add: at_rest_def)
  obtain d f where d: "strela_run_job j (m_dev m1) = Some (d, f)" by (rule inv_run[OF reachable_inv[OF r1] m1(3) idle, of "[]" j q]) (use q(1) in simp_all)
  let ?m = "m1\<lparr>m_dev := d, m_run := Some j, m_queue := q, m_sim := (if sd_is_sim d then Sim_queued else m_sim m1)\<rparr>"
  have st: "machine_step m1 ?m" by (rule step_run[OF m1(3) idle q(1) d])
  then have wk: "work m1 ?m" using m1(3) q(1) by (simp add: work_def)
  have "\<exists>m'. work\<^sup>*\<^sup>* ?m m' \<and> at_rest m' \<and> live m' = []" using q(2) by (intro Suc.hyps(1) reachable.step[OF r1 st]) simp
  then show ?case using m1(1) wk by (meson converse_rtranclp_into_rtranclp rtranclp_trans)
qed

text \<open>C22. The driver never wedges: from every state of every run, whatever is queued, running, hung or in
  the middle of a timeout, there are steps that start every queued job in turn (the fences that jobs wait
  for having signalled), with nothing cancelled, to a state in which no job is left, the device is idle,
  and every reference on a buffer object or a fence has been given back.\<close>

theorem driver_drains:
  assumes "reachable m"
  shows "\<exists>m'. work\<^sup>*\<^sup>* m m' \<and> live m' = [] \<and> m_tdr m' = Tdr_idle \<and> m_sim m' = Sim_idle
    \<and> sd_active (m_dev m') = None \<and> (\<forall>j. sd_jobs (m_dev m') j = None)
    \<and> (\<forall>x. gem_refs (sd_calls (m_dev m')) x = 0) \<and> (\<forall>f. tally (fence_weight f) (sd_calls (m_dev m')) = 0)"
proof -
  obtain m' where m': "work\<^sup>*\<^sup>* m m'" "at_rest m'" "live m' = []" using drains[OF assms] by blast
  note r = work_reachable[OF m'(1) assms]
  have "m_run m' = None" using m'(3) by (simp add: live_def split: option.splits)
  then have "sd_active (m_dev m') = None" using inv_no_run[OF reachable_inv[OF r]] by simp
  moreover have "\<forall>j. sd_jobs (m_dev m') j = None" using inv_facts(3)[OF reachable_inv[OF r]] m'(3) by simp
  moreover have "gem_refs (sd_calls (m_dev m')) x = 0" "tally (fence_weight f) (sd_calls (m_dev m')) = 0" for x f
    using gem_ledger.balanced[OF r, of x] fence_ledger.balanced[OF r, of f] m'(3) by (simp_all add: gem_tally)
  ultimately show ?thesis using m' by (auto simp: at_rest_def)
qed

theorem driver_drains_witness:
  "\<exists>m m'. m_queue m = [1, 2] \<and> work\<^sup>*\<^sup>* m m' \<and> live m' = [] \<and> (\<forall>x. gem_refs (sd_calls (m_dev m')) x = 0)"
proof -
  obtain m where m: "reachable m" "m_queue m = [1, 2]" by (rule submitted_run)
  then show ?thesis using driver_drains[OF m(1)] by blast
qed

end
