(* ===== verification/Server.thy ===== *)
theory Server
  imports MachineRefs
begin

text \<open>
  What the driver promises its clients, apart from registers, references and fences: it is a server for
  jobs.  The specification is a queue and the state of every job; the driver of \<^verbatim>\<open>Machine\<close>, with
  interrupts, timeouts and the simulated worker in any interleaving, implements it step by step.
\<close>

section \<open>Simulations\<close>

text \<open>Every step of the implementation that starts where the invariant holds is a step of the specification, or is
  not seen by it.\<close>

locale simulation =
  fixes impl :: "'c \<Rightarrow> 'c \<Rightarrow> bool"
    and spec :: "'a \<Rightarrow> 'a \<Rightarrow> bool"
    and good :: "'c \<Rightarrow> bool"
    and view :: "'c \<Rightarrow> 'a"
  assumes good_step: "good c \<Longrightarrow> impl c c' \<Longrightarrow> good c'"
    and simulates: "good c \<Longrightarrow> impl c c' \<Longrightarrow> view c' = view c \<or> spec (view c) (view c')"
begin

lemma run_simulated: "impl\<^sup>*\<^sup>* c c' \<Longrightarrow> good c \<Longrightarrow> good c' \<and> spec\<^sup>*\<^sup>* (view c) (view c')"
proof (induction rule: rtranclp_induct)
  case (step c' c'')
  then have g: "good c'" and s: "spec\<^sup>*\<^sup>* (view c) (view c')" by simp_all
  have "spec\<^sup>*\<^sup>* (view c) (view c'')" using simulates[OF g step(2)] s by (metis rtranclp.rtrancl_into_rtrancl)
  then show ?case using good_step[OF g step(2)] by simp
qed simp

end

section \<open>The specification\<close>

text \<open>A job waits, is configured, executes, and has finished or was taken off the device; then it is forgotten.  A job that waits
  can be cancelled.\<close>

datatype job_state = Waiting | Configuring | Executing | Finished | Aborted

record server =
  sv_queue :: "nat list"
  sv_client :: "nat \<Rightarrow> nat"
  sv_jobs :: "nat \<rightharpoonup> job_state"

definition on_device :: "job_state option \<Rightarrow> bool" where
  "on_device s \<longleftrightarrow> s = Some Configuring \<or> s = Some Executing"

text \<open>Jobs go on the device one at a time, those of one client in the order of their submission, and finish
  only by executing.\<close>

inductive serve :: "server \<Rightarrow> server \<Rightarrow> bool" where
  enqueue: "sv_jobs s j = None \<Longrightarrow> 
    serve s \<lparr>sv_queue = sv_queue s @ [j], sv_client = (sv_client s)(j := c), sv_jobs = (sv_jobs s)(j \<mapsto> Waiting)\<rparr>"
| start: "sv_queue s = p @ j # q \<Longrightarrow> \<forall>i \<in> set p. sv_client s i \<noteq> sv_client s j \<Longrightarrow> \<forall>i. \<not> on_device (sv_jobs s i) \<Longrightarrow>
    serve s (s\<lparr>sv_queue := p @ q, sv_jobs := (sv_jobs s)(j \<mapsto> Configuring)\<rparr>)"
| configured: "sv_jobs s j = Some Configuring \<Longrightarrow> serve s (s\<lparr>sv_jobs := (sv_jobs s)(j \<mapsto> Executing)\<rparr>)"
| finish: "sv_jobs s j = Some Executing \<Longrightarrow> serve s (s\<lparr>sv_jobs := (sv_jobs s)(j \<mapsto> Finished)\<rparr>)"
| abort: "on_device (sv_jobs s j) \<Longrightarrow> serve s (s\<lparr>sv_jobs := (sv_jobs s)(j \<mapsto> Aborted)\<rparr>)"
| retire: "sv_jobs s j = Some Finished \<or> sv_jobs s j = Some Aborted \<Longrightarrow> serve s (s\<lparr>sv_jobs := (sv_jobs s)(j := None)\<rparr>)"
| cancel: "sv_queue s = p @ j # q \<Longrightarrow> serve s (s\<lparr>sv_queue := p @ q, sv_jobs := (sv_jobs s)(j := None)\<rparr>)"

definition server_init :: server where
  "server_init = \<lparr>sv_queue = [], sv_client = (\<lambda>_. 0), sv_jobs = (\<lambda>_. None)\<rparr>"

text \<open>The invariant of the specification: the queue is the jobs that wait, each once, and at most one job is
  on the device.\<close>

definition server_inv :: "server \<Rightarrow> bool" where
  "server_inv s \<longleftrightarrow> distinct (sv_queue s) \<and> (\<forall>j. j \<in> set (sv_queue s) \<longleftrightarrow> sv_jobs s j = Some Waiting)
     \<and> (\<forall>i j. on_device (sv_jobs s i) \<and> on_device (sv_jobs s j) \<longrightarrow> i = j)"

lemma on_device_simps [simp]:
  "on_device (Some Configuring)" "on_device (Some Executing)" "\<not> on_device (Some Waiting)" "\<not> on_device (Some Finished)"
  "\<not> on_device (Some Aborted)" "\<not> on_device None"
  by (simp_all add: on_device_def)

lemma server_inv_update:
  assumes "server_inv s" "sv_jobs s j \<noteq> Some Waiting" "st \<noteq> Some Waiting" "on_device st \<Longrightarrow> on_device (sv_jobs s j)"
  shows "server_inv (s\<lparr>sv_jobs := (sv_jobs s)(j := st)\<rparr>)"
  using assms unfolding server_inv_def by (auto split: if_splits)

lemma serve_inv:
  assumes "serve s s'" "server_inv s"
  shows "server_inv s'"
  using assms
proof (induction rule: serve.induct)
  case (enqueue s j c)
  then show ?case by (auto simp: server_inv_def)
next
  case (start s p j q)
  have "j \<notin> set p" "j \<notin> set q" using start by (simp_all add: server_inv_def)
  then show ?case using start unfolding server_inv_def by (auto split: if_splits)
next
  case (cancel s p j q)
  have "j \<notin> set p" "j \<notin> set q" "sv_jobs s j = Some Waiting" using cancel by (auto simp: server_inv_def)
  then show ?case using cancel unfolding server_inv_def by (auto split: if_splits)
qed (auto intro!: server_inv_update simp: on_device_def)

lemma server_inv_run: "serve\<^sup>*\<^sup>* server_init s \<Longrightarrow> server_inv s"
proof (induction rule: rtranclp_induct)
  case base
  then show ?case by (simp add: server_inv_def server_init_def)
qed (rule serve_inv)

section \<open>The driver as a server\<close>

text \<open>What a job shows of itself: whether its hardware fence is signalled, and its phase.\<close>

definition job_view :: "strela_device \<Rightarrow> nat \<Rightarrow> (bool \<times> strela_job_phase) option" where
  "job_view d j = map_option (\<lambda>job. (signaled d (job_hw_fence job), job_phase job)) (sd_jobs d j)"

definition running_state :: "strela_job_phase \<Rightarrow> job_state" where
  "running_state ph = (case ph of STRELA_JOB_PHASE_CONFIG \<Rightarrow> Configuring | STRELA_JOB_PHASE_EXEC \<Rightarrow> Executing)"

fun state_of :: "bool \<Rightarrow> bool \<Rightarrow> bool \<times> strela_job_phase \<Rightarrow> job_state" where
  "state_of queued active (sig, ph) =
     (if queued then Waiting else if active then running_state ph else if sig then Finished else Aborted)"

definition job_state_of :: "machine \<Rightarrow> nat \<Rightarrow> job_state option" where
  "job_state_of m j = map_option (state_of (j \<in> set (m_queue m)) (sd_active (m_dev m) = Some j)) (job_view (m_dev m) j)"

definition server_of :: "machine \<Rightarrow> server" where
  "server_of m = \<lparr>sv_queue = m_queue m, sv_client = m_client m, sv_jobs = job_state_of m\<rparr>"

definition served :: "machine \<Rightarrow> machine \<Rightarrow> bool" where
  "served m m' \<longleftrightarrow> server_of m' = server_of m \<or> serve (server_of m) (server_of m')"

lemma server_of_sel [simp]: "sv_queue (server_of m) = m_queue m" "sv_client (server_of m) = m_client m" "sv_jobs (server_of m) = job_state_of m"
  by (simp_all add: server_of_def)

lemma server_eqI: "sv_queue s = sv_queue t \<Longrightarrow> sv_client s = sv_client t \<Longrightarrow> (\<And>i. sv_jobs s i = sv_jobs t i) \<Longrightarrow> s = (t :: server)"
  by (cases s; cases t) auto

lemma running_state_on_device [simp]: "on_device (Some (running_state ph))"
  by (cases ph) (simp_all add: running_state_def on_device_def)

text \<open>Most steps leave the queue alone; they change what a server shows of at most one job.\<close>

abbreviation same_queue :: "machine \<Rightarrow> machine \<Rightarrow> bool" where
  "same_queue m m' \<equiv> m_queue m' = m_queue m \<and> m_client m' = m_client m"

lemma server_of_change:
  assumes "same_queue m m'" "job_state_of m' j = s"
    "\<And>i. i \<noteq> j \<Longrightarrow> job_view (m_dev m') i = job_view (m_dev m) i \<and> (sd_active (m_dev m') = Some i \<longleftrightarrow> sd_active (m_dev m) = Some i)"
  shows "server_of m' = (server_of m)\<lparr>sv_jobs := (job_state_of m)(j := s)\<rparr>"
  by (rule server_eqI) (use assms in \<open>auto simp: job_state_of_def\<close>)

lemma served_same:
  assumes "same_queue m m'" "\<And>i. job_view (m_dev m') i = job_view (m_dev m) i" "sd_active (m_dev m') = sd_active (m_dev m)"
  shows "served m m'"
  by (simp add: served_def server_of_def job_state_of_def[abs_def] assms)

lemma job_view_quiet: "quiet_update d d' \<Longrightarrow> sd_jobs d' i = sd_jobs d i \<Longrightarrow> job_view d' i = job_view d i"
  by (simp add: job_view_def quiet_fences(1))

lemma served_quiet:
  assumes "same_queue m m'" "quiet_update (m_dev m) (m_dev m')" "sd_jobs (m_dev m') = sd_jobs (m_dev m)"
    "sd_active (m_dev m') = sd_active (m_dev m)"
  shows "served m m'"
  using assms by (intro served_same job_view_quiet) simp_all

text \<open>The active job is on the device, in its phase; a job that is not active is not.\<close>

lemma active_state:
  assumes "machine_inv m" "sd_active (m_dev m) = Some j" "sd_jobs (m_dev m) j = Some job"
  shows "job_state_of m j = Some (running_state (job_phase job))"
proof -
  have "m_run m = Some j" by (rule inv_facts(4)[OF assms(1,2)])
  then have "j \<notin> set (m_queue m)" using inv_facts(2)[OF assms(1)] by (auto simp: live_def)
  then show ?thesis using assms(2,3) by (simp add: job_state_of_def job_view_def)
qed

lemma idle_state: "sd_active (m_dev m) \<noteq> Some j \<Longrightarrow> \<not> on_device (job_state_of m j)"
  by (auto simp: job_state_of_def on_device_def)

section \<open>The steps\<close>

lemma config_served:
  assumes inv: "machine_inv m" and run: "strela_job_phase_done STRELA_JOB_PHASE_CONFIG (m_dev m) = Some (m_dev m')"
    and queue: "same_queue m m'" and nq: "j \<notin> set (m_queue m)"
    and j: "sd_active (m_dev m) = Some j" "sd_jobs (m_dev m) j = Some job" "job_phase job = STRELA_JOB_PHASE_CONFIG"
  shows "served m m'"
proof -
  let ?d = "(m_dev m)\<lparr>sd_jobs := (sd_jobs (m_dev m))(j \<mapsto> job\<lparr>job_phase := STRELA_JOB_PHASE_EXEC\<rparr>)\<rparr>"
  have d: "m_dev m' = strela_hw_start STRELA_JOB_PHASE_EXEC ?d" using run j by (simp add: strela_job_phase_done_def)
  have sg: "signaled (m_dev m') f = signaled (m_dev m) f" for f
    using quiet_fences(1)[OF hw_start_quiet, of STRELA_JOB_PHASE_EXEC ?d f] d by (simp add: signaled_def)
  have "job_state_of m' j = Some Executing"
    using d queue nq j(1) by (simp add: job_state_of_def job_view_def running_state_def)
  moreover have "job_view (m_dev m') i = job_view (m_dev m) i" if "i \<noteq> j" for i using that d sg by (simp add: job_view_def)
  ultimately have "server_of m' = (server_of m)\<lparr>sv_jobs := (job_state_of m)(j \<mapsto> Executing)\<rparr>"
    using d queue by (intro server_of_change) simp_all
  moreover have "sv_jobs (server_of m) j = Some Configuring" using active_state[OF inv j(1,2)] j(3) by (simp add: running_state_def)
  ultimately show ?thesis using serve.configured[of "server_of m" j] by (simp add: served_def)
qed

lemma exec_served:
  assumes inv: "machine_inv m" and run: "strela_job_phase_done STRELA_JOB_PHASE_EXEC (m_dev m) = Some (m_dev m')"
    and queue: "same_queue m m'" and nq: "j \<notin> set (m_queue m)"
    and j: "sd_active (m_dev m) = Some j" "sd_jobs (m_dev m) j = Some job" "job_phase job = STRELA_JOB_PHASE_EXEC"
  shows "served m m'"
proof -
  have d: "m_dev m' = (emit [Fence_signal (job_hw_fence job)] (m_dev m))\<lparr>sd_active := None\<rparr>"
    using run j by (simp add: strela_job_phase_done_def)
  have "job_state_of m' j = Some Finished"
    using d queue nq j(2) by (simp add: job_state_of_def job_view_def signaled_def)
  moreover have "job_view (m_dev m') i = job_view (m_dev m) i" if "i \<noteq> j" for i
  proof -
    have "job_hw_fence ji \<noteq> job_hw_fence job" if "sd_jobs (m_dev m) i = Some ji" for ji
      using inv_facts(1)[OF inv] that j(2) \<open>i \<noteq> j\<close> unfolding static_inv_def by blast
    then show ?thesis using d by (cases "sd_jobs (m_dev m) i") (simp_all add: job_view_def signaled_def)
  qed
  ultimately have "server_of m' = (server_of m)\<lparr>sv_jobs := (job_state_of m)(j \<mapsto> Finished)\<rparr>"
    using d queue j(1) by (intro server_of_change) auto
  moreover have "sv_jobs (server_of m) j = Some Executing" using active_state[OF inv j(1,2)] j(3) by (simp add: running_state_def)
  ultimately show ?thesis using serve.finish[of "server_of m" j] by (simp add: served_def)
qed

lemma phase_done_served:
  assumes inv: "machine_inv m" and run: "strela_job_phase_done ph (m_dev m) = Some (m_dev m')" and queue: "same_queue m m'"
  shows "served m m'"
proof (cases "\<exists>j job. sd_active (m_dev m) = Some j \<and> sd_jobs (m_dev m) j = Some job \<and> job_phase job = ph")
  case False
  then have "m_dev m' = m_dev m" using run by (auto simp: strela_job_phase_done_def split: option.splits if_splits)
  then show ?thesis using queue by (intro served_quiet) simp_all
next
  case True
  then obtain j job where j: "sd_active (m_dev m) = Some j" "sd_jobs (m_dev m) j = Some job" "job_phase job = ph" by blast
  have nq: "j \<notin> set (m_queue m)" using inv_facts(2,4)[OF inv] j(1) by (auto simp: live_def)
  note served = config_served[OF inv _ queue nq j(1,2)] exec_served[OF inv _ queue nq j(1,2)]
  show ?thesis using served run j(3) by (cases ph) simp_all
qed

lemma submit_served:
  assumes inv: "machine_inv m" and fa: "fresh_alloc env (m_dev m)" and run: "strela_submit_ioctl env args (m_dev m) = (d, ret)"
  shows "served m (m\<lparr>m_dev := d, m_queue := (if ret = 0 then m_queue m @ [the (env_job env)] else m_queue m),
      m_client := (if ret = 0 then (m_client m)(the (env_job env) := c) else m_client m)\<rparr>)"
proof -
  have eff: "submit_effect env (m_dev m) d ret" by (rule submit_machine[OF inv_facts(1)[OF inv] fa run])
  then have keep: "sd_active d = sd_active (m_dev m)" "signaled d f = signaled (m_dev m) f" for f by (simp_all add: submit_effect_def)
  show ?thesis
  proof (cases "ret = 0")
    case False
    then have "sd_jobs d = sd_jobs (m_dev m)" using eff by (simp add: submit_effect_def)
    then show ?thesis using False keep by (intro served_same) (simp_all add: job_view_def)
  next
    case True
    then obtain j job where j: "env_job env = Some j" "sd_jobs (m_dev m) j = None" "sd_jobs d = (sd_jobs (m_dev m))(j \<mapsto> job)"
      using eff by (auto simp: submit_effect_def)
    let ?m = "m\<lparr>m_dev := d, m_queue := m_queue m @ [j], m_client := (m_client m)(j := c)\<rparr>" and ?s = "server_of m"
    have "job_state_of ?m i = ((job_state_of m)(j \<mapsto> Waiting)) i" for i
      using j(3) keep by (simp add: job_state_of_def job_view_def)
    then have "server_of ?m = \<lparr>sv_queue = sv_queue ?s @ [j], sv_client = (sv_client ?s)(j := c), sv_jobs = (sv_jobs ?s)(j \<mapsto> Waiting)\<rparr>"
      by (intro server_eqI) simp_all
    moreover have "sv_jobs (server_of m) j = None" using j(2) by (simp add: job_state_of_def job_view_def)
    ultimately show ?thesis using serve.enqueue[of ?s j c] True j(1) by (simp add: served_def)
  qed
qed

lemma run_job_jobs:
  assumes "static_inv d" "sd_jobs d j = Some job" "sd_active d = None" "strela_run_job j d = Some (d', f)"
  shows "sd_jobs d' = (sd_jobs d)(j \<mapsto> job\<lparr>job_phase := STRELA_JOB_PHASE_CONFIG\<rparr>)"
proof -
  let ?job = "job\<lparr>job_phase := STRELA_JOB_PHASE_CONFIG\<rparr>"
  let ?d1 = "d\<lparr>sd_jobs := (sd_jobs d)(j \<mapsto> ?job), sd_active := Some j\<rparr>"
  have "job_ok (sd_objs d) job" using assms(1,2) unfolding static_inv_def by blast
  then have "job_ok (sd_objs ?d1) ?job" by (simp add: job_ok_def)
  then obtain cs where "strela_hw_program ?job ?d1 = Some (emit cs ?d1)" by (rule hw_program_quiet)
  then show ?thesis using assms by (auto simp: strela_run_job_def Let_def)
qed

lemma run_served:
  assumes inv: "machine_inv m" and none: "m_run m = None" and queue: "m_queue m = p @ j # q" "\<forall>i \<in> set p. m_client m i \<noteq> m_client m j"
    and run: "strela_run_job j (m_dev m) = Some (d, f)"
    and m': "m_dev m' = d" "m_queue m' = p @ q" "m_client m' = m_client m"
  shows "served m m'"
proof -
  have act: "sd_active (m_dev m) = None" using inv_no_run[OF inv none] by simp
  have jl: "j \<in> set (live m)" using queue by (simp add: live_def)
  obtain job where job: "sd_jobs (m_dev m) j = Some job" "job_ok (sd_objs (m_dev m)) job" by (rule inv_job_ok[OF inv jl])
  obtain d' where d': "strela_run_job j (m_dev m) = Some (d', job_hw_fence job)" "quiet_update (m_dev m) d'" "sd_active d' = Some j"
    by (rule run_job_result[OF job act])
  note jobs = run_job_jobs[OF inv_facts(1)[OF inv] job(1) act run]
  have dd: "d' = d" using d'(1) run by simp
  have nq: "j \<notin> set p" "j \<notin> set q" using inv_facts(2)[OF inv] queue by (simp_all add: live_def)
  have "job_state_of m' i = ((job_state_of m)(j \<mapsto> Configuring)) i" for i
    using jobs m' nq queue act d'(2,3) dd
    by (simp add: job_state_of_def job_view_def running_state_def quiet_fences(1) cong: map_option_cong)
  then have "server_of m' = (server_of m)\<lparr>sv_queue := p @ q, sv_jobs := (sv_jobs (server_of m))(j \<mapsto> Configuring)\<rparr>"
    using m' by (intro server_eqI) simp_all
  moreover have "\<forall>i. \<not> on_device (sv_jobs (server_of m) i)" using idle_state act by simp
  ultimately show ?thesis using serve.start[of "server_of m" p j q] queue by (simp add: served_def)
qed

lemma free_served:
  assumes inv: "machine_inv m" and fin: "m_done m = j # js" and run: "strela_free_job j (m_dev m) = Some d"
  shows "served m (m\<lparr>m_dev := d, m_done := js\<rparr>)"
proof -
  have jl: "j \<in> set (live m)" and nq: "j \<notin> set (m_queue m)" and na: "m_run m \<noteq> Some j"
    using fin inv_facts(2)[OF inv] by (auto simp: live_def)
  obtain job where job: "sd_jobs (m_dev m) j = Some job" by (rule inv_job_ok[OF inv jl])
  have act: "sd_active (m_dev m) \<noteq> Some j" using inv_facts(4)[OF inv] na by blast
  obtain d' where d': "strela_free_job j (m_dev m) = Some d'" "sd_jobs d' = (sd_jobs (m_dev m))(j := None)"
    "sd_active d' = sd_active (m_dev m)" "\<And>f. signaled d' f = signaled (m_dev m) f" by (rule free_job_result[OF job]) blast
  have "server_of (m\<lparr>m_dev := d, m_done := js\<rparr>) = (server_of m)\<lparr>sv_jobs := (job_state_of m)(j := None)\<rparr>"
    using d' run by (intro server_of_change) (simp_all add: job_state_of_def job_view_def)
  moreover have "sv_jobs (server_of m) j = Some Finished \<or> sv_jobs (server_of m) j = Some Aborted"
    using nq act job by (simp add: job_state_of_def job_view_def)
  ultimately show ?thesis using serve.retire[of "server_of m" j] by (simp add: served_def)
qed

lemma kill_served:
  assumes inv: "machine_inv m" and queue: "m_queue m = p @ j # q" and run: "strela_free_job j (m_dev m) = Some d"
  shows "served m (m\<lparr>m_dev := d, m_queue := p @ q\<rparr>)"
proof -
  let ?m = "m\<lparr>m_dev := d, m_queue := p @ q\<rparr>"
  have jl: "j \<in> set (live m)" using queue by (simp add: live_def)
  have nq: "j \<notin> set p" "j \<notin> set q" using inv_facts(2)[OF inv] queue by (simp_all add: live_def)
  obtain job where job: "sd_jobs (m_dev m) j = Some job" by (rule inv_job_ok[OF inv jl])
  obtain d' where d': "strela_free_job j (m_dev m) = Some d'" "sd_jobs d' = (sd_jobs (m_dev m))(j := None)"
    "sd_active d' = sd_active (m_dev m)" "\<And>f. signaled d' f = signaled (m_dev m) f" by (rule free_job_result[OF job]) blast
  have "job_state_of ?m i = ((job_state_of m)(j := None)) i" for i
    using d' run queue by (simp add: job_state_of_def job_view_def)
  then have "server_of ?m = (server_of m)\<lparr>sv_queue := p @ q, sv_jobs := (sv_jobs (server_of m))(j := None)\<rparr>"
    by (intro server_eqI) simp_all
  then show ?thesis using serve.cancel[of "server_of m" p j q] queue by (simp add: served_def)
qed

lemma abort_served:
  assumes inv: "machine_inv m" and m': "m_dev m' = abort_locked (m_dev m)" "same_queue m m'"
  shows "served m m'"
proof (cases "sd_active (m_dev m)")
  case None
  then show ?thesis using m' by (intro served_quiet) (simp_all add: abort_locked_def)
next
  case (Some j)
  then obtain job where job: "sd_jobs (m_dev m) j = Some job" using inv_active_alloc[OF inv] by auto
  have nq: "j \<notin> set (m_queue m)" using inv_facts(2,4)[OF inv] Some by (auto simp: live_def)
  have "\<not> signaled (m_dev m) (job_hw_fence job)" using inv_unsignaled[OF inv job] Some by blast
  then have "job_state_of m' j = Some Aborted"
    using m' nq job by (simp add: job_state_of_def job_view_def abort_locked_def signaled_def)
  then have "server_of m' = (server_of m)\<lparr>sv_jobs := (job_state_of m)(j \<mapsto> Aborted)\<rparr>"
    using m' Some by (intro server_of_change) (auto simp: job_view_def abort_locked_def signaled_def)
  moreover have "on_device (sv_jobs (server_of m) j)" using active_state[OF inv Some job] by simp
  ultimately show ?thesis using serve.abort[of "server_of m" j] by (simp add: served_def)
qed

lemma irq_thread_served:
  assumes inv: "machine_inv m" and run: "strela_irq_thread_fn (m_dev m) = Some (m_dev m', r)" and queue: "same_queue m m'"
  shows "served m m'"
proof -
  let ?n = "m\<lparr>m_dev := (m_dev m)\<lparr>sd_irq_status := 0\<rparr>\<rparr>"
  have inv': "machine_inv ?n" by (rule inv_quiet[OF inv]) simp_all
  have same: "server_of ?n = server_of m" by (rule server_eqI) (simp_all add: job_state_of_def job_view_def signaled_def)
  have "served ?n m'" if "strela_job_phase_done ph (m_dev ?n) = Some (m_dev m')" for ph
    using phase_done_served[OF inv' that] queue by simp
  moreover have "served ?n m'" if "m_dev m' = m_dev ?n" using that queue by (intro served_quiet) simp_all
  ultimately have "served ?n m'" using run by (auto simp: strela_irq_thread_fn_def Let_def split: if_splits)
  then show ?thesis using same by (simp add: served_def)
qed

lemma bypass_column_keeps:
  assumes "strela_sim_bypass_column inp stride out d = Some (d', ok)"
  shows "sd_jobs d' = sd_jobs d" "sd_active d' = sd_active d"
  using assms by (auto simp: strela_sim_bypass_column_def Let_def split: if_splits bind_splits)

lemma sim_served:
  assumes inv: "machine_inv m" and run: "strela_sim_work (m_sim m) (m_dev m) = Some (m_dev m', pc)" and queue: "same_queue m m'"
  shows "served m m'"
proof -
  have same: "served m m'" if "m_dev m' = m_dev m" using that queue by (intro served_quiet) simp_all
  note phase = phase_done_served[OF inv _ queue]
  show ?thesis
  proof (cases "m_sim m")
    case (Sim_col j i fed)
    obtain d job ok where c: "sd_jobs (m_dev m) j = Some job" "quiet_update (m_dev m) d"
      "strela_sim_bypass_column (job_inputs job ! i) (job_input_strides job ! i) (job_outputs job ! i) (m_dev m) = Some (d, ok)"
      by (rule inv_column[OF inv Sim_col])
    then have "m_dev m' = d" using run Sim_col by (simp add: Let_def)
    moreover have "sd_jobs d = sd_jobs (m_dev m)" "sd_active d = sd_active (m_dev m)" using bypass_column_keeps[OF c(3)] by simp_all
    ultimately show ?thesis using c(2) queue by (intro served_quiet) simp_all
  qed (use run same phase in \<open>auto split: bind_splits\<close>)
qed

text \<open>Every step of the driver is a step of the server, or none.\<close>

lemma step_served:
  assumes "machine_inv m" "machine_step m m'"
  shows "served m m'"
  using assms(2)
proof (cases rule: machine_step.cases)
  case (submit env args d ret q cl c)
  then show ?thesis using submit_served[OF assms(1) submit(2,3), of c] by simp
next
  case (run p j q d f)
  show ?thesis by (rule run_served[OF assms(1) run(2,4,5,6)]) (simp_all add: run(1))
next
  case (free j js d)
  then show ?thesis using free_served[OF assms(1)] by simp
next
  case (kill p j q d)
  then show ?thesis using kill_served[OF assms(1)] by simp
next
  case tdr_abort
  then show ?thesis using abort_served[OF assms(1)] by simp
next
  case tdr_hw_stop
  have "sd_active (m_dev m) = None" using assms(1) tdr_hw_stop by (simp add: machine_inv_def phase_inv_def)
  then show ?thesis using tdr_hw_stop hw_stop_quiet by (intro served_quiet) simp_all
next
  case (irq status d r)
  then show ?thesis by (intro served_quiet) (auto simp: strela_irq_handler_def split: if_splits)
next
  case (irq_thread d r)
  then show ?thesis using irq_thread_served[OF assms(1)] by simp
next
  case (sim d pc)
  then show ?thesis using sim_served[OF assms(1)] by simp
qed (auto intro!: served_quiet)

interpretation serving: simulation machine_step serve machine_inv server_of
  using inv_step step_served by unfold_locales (auto simp: served_def)

lemma server_of_init: "fresh_device d \<Longrightarrow> server_of (machine_init d) = server_init"
  by (rule server_eqI) (simp_all add: server_init_def machine_init_def job_state_of_def job_view_def fresh_device_def)

lemma reachable_served: "reachable m \<Longrightarrow> serve\<^sup>*\<^sup>* server_init (server_of m)"
proof (induction rule: reachable.induct)
  case (init sdev)
  then show ?case by (simp add: server_of_init)
next
  case (step m m')
  then show ?case using serving.simulates[OF reachable_inv[OF step(1)] step(2)] by (metis rtranclp.rtrancl_into_rtrancl)
qed

text \<open>C6. The driver is a server for jobs: in every run, whatever interrupts, timeouts and simulated completions
  come in between, each step is a step of the specification or leaves its state alone.  So jobs go on the device one at a
  time, those of one client in the order of their submission, each is configured before it executes, its fence signals
  only by completing its execution, and it is freed only after it finished, was taken off by a timeout, or was cancelled in the queue.\<close>

theorem driver_serves:
  assumes "reachable m" "machine_step\<^sup>*\<^sup>* m m'"
  shows "serve\<^sup>*\<^sup>* server_init (server_of m) \<and> serve\<^sup>*\<^sup>* (server_of m) (server_of m') \<and> server_inv (server_of m')
    \<and> (\<forall>m''. machine_step m' m'' \<longrightarrow> server_of m'' = server_of m' \<or> serve (server_of m') (server_of m''))"
proof -
  note inv = reachable_inv[OF assms(1)]
  note run = serving.run_simulated[OF assms(2) inv]
  have "serve\<^sup>*\<^sup>* server_init (server_of m)" by (rule reachable_served[OF assms(1)])
  moreover from this have "server_inv (server_of m')" using run server_inv_run by (meson rtranclp_trans)
  ultimately show ?thesis using run serving.simulates by blast
qed

theorem driver_serves_witness:
  "\<exists>s s'. serve\<^sup>*\<^sup>* server_init s \<and> sv_queue s = [1, 2] \<and> serve s s' \<and> sv_queue s' = [1] \<and> server_inv s"
proof -
  obtain m where m: "reachable m" "m_queue m = [1, 2]" "m_run m = None" "m_tdr m = Tdr_idle" "m_client m 1 = 0" "m_client m 2 = 1"
    by (rule submitted_run)
  have q: "m_queue m = [1] @ 2 # []" "\<forall>i \<in> set [1]. m_client m i \<noteq> m_client m 2" using m by simp_all
  obtain d f where "strela_run_job 2 (m_dev m) = Some (d, f)" by (rule inv_run[OF reachable_inv[OF m(1)] m(3,4) q(1)])
  note st = machine_step.run[OF m(3,4) q this]
  let ?m = "m\<lparr>m_dev := d, m_run := Some 2, m_queue := [1] @ [], m_sim := (if sd_is_sim d then Sim_queued else m_sim m)\<rparr>"
  have q: "sv_queue (server_of m) = [1, 2]" "sv_queue (server_of ?m) = [1]" using m(2) by simp_all
  then have "server_of ?m \<noteq> server_of m" by (metis list.inject not_Cons_self2)
  then show ?thesis using driver_serves[OF m(1) rtranclp.rtrancl_refl] st q by blast
qed

section \<open>Across clients\<close>

text \<open>An interrupt that finds its phase: the handler and its thread, with nobody in between.\<close>

definition int_bits :: "strela_job_phase \<Rightarrow> u32 \<times> u32" where
  "int_bits ph = (case ph of STRELA_JOB_PHASE_CONFIG \<Rightarrow> (STRELA_CMD_PENDING_INT_CONFIG, STRELA_CMD_CLEAR_INT_CONFIG)
     | STRELA_JOB_PHASE_EXEC \<Rightarrow> (STRELA_CMD_PENDING_INT_EXEC, STRELA_CMD_CLEAR_INT_EXEC))"

lemma interrupt_steps:
  assumes "\<not> sd_is_sim (m_dev m)" "\<not> m_irq m"
    "strela_job_phase_done ph ((emit [Writel STRELA_REG_CTRL (snd (int_bits ph))] (m_dev m))\<lparr>sd_irq_status := 0\<rparr>) = Some d"
  shows "machine_step\<^sup>*\<^sup>* m (m\<lparr>m_dev := d\<rparr>)"
proof -
  let ?d = "(emit [Writel STRELA_REG_CTRL (snd (int_bits ph))] (m_dev m))\<lparr>sd_irq_status := fst (int_bits ph)\<rparr>"
  let ?m = "m\<lparr>m_dev := ?d, m_irq := True\<rparr>"
  have "strela_irq_handler (fst (int_bits ph)) (m_dev m) = (?d, IRQ_WAKE_THREAD)"
    by (cases ph) (simp_all add: strela_irq_handler_def int_bits_def strela_regs)
  from machine_step.irq[OF assms(1,2) this] have "machine_step m ?m" by simp
  moreover have "strela_irq_thread_fn ?d = Some (d, IRQ_HANDLED)"
    using assms(3) by (cases ph) (simp_all add: strela_irq_thread_fn_def int_bits_def strela_regs)
  then have "machine_step ?m (?m\<lparr>m_dev := d, m_irq := False\<rparr>)" by (intro machine_step.irq_thread) simp_all
  moreover have "?m\<lparr>m_dev := d, m_irq := False\<rparr> = m\<lparr>m_dev := d\<rparr>" using assms(2) by (cases m) simp
  ultimately show ?thesis by (metis converse_rtranclp_into_rtranclp r_into_rtranclp)
qed

text \<open>A job on the hardware finishes after its two interrupts.\<close>

lemma interrupts_finish:
  assumes "\<not> sd_is_sim (m_dev m)" "\<not> m_irq m" "sd_active (m_dev m) = Some j" "sd_jobs (m_dev m) j = Some job"
    "job_phase job = STRELA_JOB_PHASE_CONFIG"
  obtains d where "machine_step\<^sup>*\<^sup>* m (m\<lparr>m_dev := d\<rparr>)" "signaled d (job_hw_fence job)" "set (sd_calls (m_dev m)) \<subseteq> set (sd_calls d)"
    "\<And>i. i \<noteq> j \<Longrightarrow> sd_jobs d i = sd_jobs (m_dev m) i"
proof -
  let ?c = "(emit [Writel STRELA_REG_CTRL (snd (int_bits STRELA_JOB_PHASE_CONFIG))] (m_dev m))\<lparr>sd_irq_status := 0\<rparr>"
  let ?d1 = "strela_hw_start STRELA_JOB_PHASE_EXEC (?c\<lparr>sd_jobs := (sd_jobs ?c)(j \<mapsto> job\<lparr>job_phase := STRELA_JOB_PHASE_EXEC\<rparr>)\<rparr>)"
  let ?e = "(emit [Writel STRELA_REG_CTRL (snd (int_bits STRELA_JOB_PHASE_EXEC))] ?d1)\<lparr>sd_irq_status := 0\<rparr>"
  let ?d2 = "(emit [Fence_signal (job_hw_fence job)] ?e)\<lparr>sd_active := None\<rparr>"
  have "strela_job_phase_done STRELA_JOB_PHASE_CONFIG ?c = Some ?d1" using assms by (simp add: strela_job_phase_done_def)
  note s1 = interrupt_steps[OF assms(1,2) this]
  have "strela_job_phase_done STRELA_JOB_PHASE_EXEC ?e = Some ?d2" using assms by (simp add: strela_job_phase_done_def)
  then have "machine_step\<^sup>*\<^sup>* (m\<lparr>m_dev := ?d1\<rparr>) (m\<lparr>m_dev := ?d2\<rparr>)"
    using interrupt_steps[of "m\<lparr>m_dev := ?d1\<rparr>" STRELA_JOB_PHASE_EXEC ?d2] assms(1,2) by simp
  then have "machine_step\<^sup>*\<^sup>* m (m\<lparr>m_dev := ?d2\<rparr>)" using s1 by (rule rtranclp_trans[rotated])
  then show thesis by (rule that) (use assms(1) in \<open>auto simp: signaled_def strela_hw_start_def\<close>)
qed

text \<open>
  All hardware fences of a device are numbered in one context, at submission.  Between clients this is not the
  order in which they signal: here a client's job with the fence number 2 has finished, and another
  client's job with the number 1 has not started.
\<close>

theorem fences_signal_out_of_order:
  "\<exists>m f g. reachable m \<and> Fence_init f 1 \<in> set (sd_calls (m_dev m)) \<and> Fence_init g 2 \<in> set (sd_calls (m_dev m))
    \<and> signaled (m_dev m) g \<and> \<not> signaled (m_dev m) f \<and> m_queue m = [1]"
proof -
  obtain m where m: "reachable m" "m_queue m = [1, 2]" "m_run m = None" "m_tdr m = Tdr_idle" "m_client m 1 = 0" "m_client m 2 = 1"
    "\<not> m_irq m" "sd_is_sim (m_dev m) = False" "Fence_init 101 1 \<in> set (sd_calls (m_dev m))" "Fence_init 102 2 \<in> set (sd_calls (m_dev m))"
    "\<exists>job. sd_jobs (m_dev m) 1 = Some job \<and> job_hw_fence job = 101" "\<exists>job. sd_jobs (m_dev m) 2 = Some job \<and> job_hw_fence job = 102"
    by (rule submitted_run) blast
  note inv = reachable_inv[OF m(1)]
  have q: "m_queue m = [1] @ 2 # []" "\<forall>i \<in> set [1]. m_client m i \<noteq> m_client m 2" using m by simp_all
  obtain job where job: "sd_jobs (m_dev m) 2 = Some job" "job_hw_fence job = 102" using m(12) by blast
  have ok: "job_ok (sd_objs (m_dev m)) job" using inv_facts(1)[OF inv] job(1) by (auto simp: static_inv_def)
  have none: "sd_active (m_dev m) = None" using inv_no_run[OF inv m(3)] by simp
  obtain d where d: "strela_run_job 2 (m_dev m) = Some (d, job_hw_fence job)" "quiet_update (m_dev m) d" "sd_active d = Some 2"
    by (rule run_job_result[OF job(1) ok none])
  let ?m = "m\<lparr>m_dev := d, m_run := Some 2, m_queue := [1] @ [], m_sim := (if sd_is_sim d then Sim_queued else m_sim m)\<rparr>"
  have r: "reachable ?m" by (rule reachable.step[OF m(1) machine_step.run[OF m(3,4) q d(1)]])
  note jobs = run_job_jobs[OF inv_facts(1)[OF inv] job(1) none d(1)]
  have sim: "\<not> sd_is_sim d" and calls: "set (sd_calls (m_dev m)) \<subseteq> set (sd_calls d)" using d(2) m(8) by (auto simp: quiet_update_def)
  obtain d' where d': "machine_step\<^sup>*\<^sup>* ?m (?m\<lparr>m_dev := d'\<rparr>)" "signaled d' 102" "set (sd_calls d) \<subseteq> set (sd_calls d')"
    "\<And>i. i \<noteq> 2 \<Longrightarrow> sd_jobs d' i = sd_jobs d i"
    by (rule interrupts_finish[of ?m 2 "job\<lparr>job_phase := STRELA_JOB_PHASE_CONFIG\<rparr>"]) (use sim m(7) d(3) jobs job(2) in simp_all)
  note r' = reachable_steps[OF d'(1) r]
  obtain job1 where "sd_jobs d' 1 = Some job1" "job_hw_fence job1 = 101" using m(11) d'(4)[of 1] jobs by auto
  then have "\<not> signaled d' 101" using inv_unsignaled[OF reachable_inv[OF r'], of 1 job1] by simp
  then show ?thesis using r' d'(2,3) calls m(9,10) by (intro exI[of _ "?m\<lparr>m_dev := d'\<rparr>"] exI[of _ 101] exI[of _ 102]) auto
qed

end
