(* ===== verification/Pool.thy ===== *)
theory Pool
  imports Align
begin

text \<open>
  The pool allocator of \<^verbatim>\<open>src/lib/allocators.c\<close> (\<^verbatim>\<open>struct Pool\<close>, \<^verbatim>\<open>pool_init\<close>, \<^verbatim>\<open>pool_alloc\<close>,
  \<^verbatim>\<open>pool_free\<close>, \<^verbatim>\<open>pool_free_all\<close>): chunks of one size, the free ones linked through their own
  first word.  The invariant relates the linked list in memory to a list of chunk numbers; the
  locale \<open>chunk_pool\<close> is what a client of the pool may rely on, and the pool's own operations
  are its interpretation.
\<close>

section \<open>State and operations\<close>

record Pool =
  p_buf :: addr
  p_buf_len :: u32
  p_chunk_size :: u32
  p_head :: addr

text \<open>\<^verbatim>\<open>sizeof(Pool_Free_Node)\<close>: one pointer.\<close>

definition sizeof_Pool_Free_Node :: u32 where
  "sizeof_Pool_Free_Node = 4"

text \<open>The loop of \<^verbatim>\<open>pool_free_all\<close>: chunks \<open>0 \<dots> n - 1\<close> are pushed in that order.\<close>

primrec pool_push_chunks :: "mem \<Rightarrow> addr \<Rightarrow> u32 \<Rightarrow> addr \<Rightarrow> nat \<Rightarrow> mem \<times> addr" where
  "pool_push_chunks m buf cs head 0 = (m, head)"
| "pool_push_chunks m buf cs head (Suc i) =
     (let (m', head') = pool_push_chunks m buf cs head i;
          ptr = buf + word_of_nat i * cs
      in (store32 m' ptr head', ptr))"

definition pool_free_all :: "mem \<Rightarrow> Pool \<Rightarrow> mem \<times> Pool" where
  "pool_free_all m p =
     (let chunk_count = p_buf_len p div p_chunk_size p;
          (m', head') = pool_push_chunks m (p_buf p) (p_chunk_size p) 0 (unat chunk_count)
      in (m', p\<lparr>p_head := head'\<rparr>))"

definition pool_init :: "mem \<Rightarrow> addr \<Rightarrow> u32 \<Rightarrow> u32 \<Rightarrow> u32 \<Rightarrow> (mem \<times> Pool) option" where
  "pool_init m backing_buffer backing_buffer_length chunk_size chunk_alignment = do {
     let initial_start = backing_buffer;
     start \<leftarrow> align_forward_uintptr initial_start chunk_alignment;
     let backing_buffer_length = backing_buffer_length - (start - initial_start);
     chunk_size \<leftarrow> align_forward_size chunk_size chunk_alignment;
     assert_c (sizeof_Pool_Free_Node \<le> chunk_size);
     assert_c (chunk_size \<le> backing_buffer_length);
     Some (pool_free_all m
       \<lparr>p_buf = start, p_buf_len = backing_buffer_length, p_chunk_size = chunk_size, p_head = 0\<rparr>)
   }"

definition pool_alloc :: "mem \<Rightarrow> Pool \<Rightarrow> mem \<times> Pool \<times> addr" where
  "pool_alloc m p =
     (let node = p_head p in
      if node = 0 then (m, p, 0)
      else (let p' = p\<lparr>p_head := load32 m node\<rparr>
            in (memset_n m node 0 (unat (p_chunk_size p')), p', node)))"

definition pool_free :: "mem \<Rightarrow> Pool \<Rightarrow> addr \<Rightarrow> (mem \<times> Pool) option" where
  "pool_free m p ptr =
     (let start = p_buf p; pend = p_buf p + p_buf_len p in
      if ptr = 0 then Some (m, p)
      else if \<not> (start \<le> ptr \<and> ptr < pend) then None
      else if (ptr - start) mod p_chunk_size p \<noteq> 0 then None
      else Some (store32 m ptr (p_head p), p\<lparr>p_head := ptr\<rparr>))"

section \<open>The invariant\<close>

definition pool_count :: "Pool \<Rightarrow> nat" where
  "pool_count p = unat (p_buf_len p) div unat (p_chunk_size p)"

definition chunk_addr :: "Pool \<Rightarrow> nat \<Rightarrow> addr" where
  "chunk_addr p i = p_buf p + word_of_nat i * p_chunk_size p"

definition pool_geom :: "Pool \<Rightarrow> bool" where
  "pool_geom p \<longleftrightarrow> 0 < unat (p_buf p) \<and> 4 dvd unat (p_buf p) \<and> 4 dvd unat (p_chunk_size p)
     \<and> 4 \<le> unat (p_chunk_size p) \<and> unat (p_buf p) + unat (p_buf_len p) < 4294967296"

primrec pool_chain :: "mem \<Rightarrow> Pool \<Rightarrow> addr \<Rightarrow> nat list \<Rightarrow> bool" where
  "pool_chain m p h [] \<longleftrightarrow> h = 0"
| "pool_chain m p h (i # is) \<longleftrightarrow> h = chunk_addr p i \<and> pool_chain m p (load32 m h) is"

definition pool_inv :: "mem \<Rightarrow> Pool \<Rightarrow> nat list \<Rightarrow> bool" where
  "pool_inv m p fs \<longleftrightarrow> pool_geom p \<and> pool_chain m p (p_head p) fs \<and> distinct fs
     \<and> (\<forall>i \<in> set fs. i < pool_count p)"

section \<open>Chunks\<close>

lemma pool_geom_head [simp]: "pool_geom (p\<lparr>p_head := h\<rparr>) = pool_geom p"
  by (simp add: pool_geom_def)

lemma chunk_addr_head [simp]: "chunk_addr (p\<lparr>p_head := h\<rparr>) = chunk_addr p"
  by (simp add: chunk_addr_def fun_eq_iff)

lemma pool_count_head [simp]: "pool_count (p\<lparr>p_head := h\<rparr>) = pool_count p"
  by (simp add: pool_count_def)

lemma pool_chain_head [simp]: "pool_chain m (p\<lparr>p_head := h\<rparr>) = pool_chain m p"
proof (intro ext)
  fix x fs show "pool_chain m (p\<lparr>p_head := h\<rparr>) x fs = pool_chain m p x fs"
    by (induction fs arbitrary: x) auto
qed

text \<open>A chunk of the pool lies inside the buffer, below the top of the address space.\<close>

lemma chunk_bounds:
  assumes "pool_geom p" "i < pool_count p"
  shows "unat (chunk_addr p i) = unat (p_buf p) + i * unat (p_chunk_size p)"
    and "unat (p_buf p) + i * unat (p_chunk_size p) + unat (p_chunk_size p)
           \<le> unat (p_buf p) + unat (p_buf_len p)"
proof -
  let ?c = "unat (p_chunk_size p)"
  have "(i + 1) * ?c \<le> pool_count p * ?c" using assms(2) by (intro mult_right_mono) auto
  also have "\<dots> \<le> unat (p_buf_len p)" by (simp add: pool_count_def)
  finally have le: "i * ?c + ?c \<le> unat (p_buf_len p)" by (simp add: algebra_simps)
  then show "unat (p_buf p) + i * ?c + ?c \<le> unat (p_buf p) + unat (p_buf_len p)" by simp
  have lt: "i * ?c + unat (p_buf p) < 4294967296" using le assms(1) by (simp add: pool_geom_def)
  have c: "4 \<le> ?c" using assms(1) by (simp add: pool_geom_def)
  then have "i \<le> i * ?c" by simp
  then have "i < 4294967296" using lt by linarith
  then have "unat (word_of_nat i :: u32) = i" by (rule unat_of_nat_32)
  then show "unat (chunk_addr p i) = unat (p_buf p) + i * ?c"
    using lt by (simp add: chunk_addr_def unat_add_nowrap unat_mult_nowrap)
qed

lemma chunk_aligned: "pool_geom p \<Longrightarrow> i < pool_count p \<Longrightarrow> aligned4 (chunk_addr p i)"
  by (simp add: aligned4_def chunk_bounds pool_geom_def)

lemma chunk_nonnull: "pool_geom p \<Longrightarrow> i < pool_count p \<Longrightarrow> chunk_addr p i \<noteq> 0"
  using chunk_bounds(1)[of p i] by (auto simp: pool_geom_def)

lemma chunk_disjoint:
  assumes "pool_geom p" "i < pool_count p" "j < pool_count p" "i \<noteq> j"
  shows "unat (chunk_addr p i) + unat (p_chunk_size p) \<le> unat (chunk_addr p j)
    \<or> unat (chunk_addr p j) + unat (p_chunk_size p) \<le> unat (chunk_addr p i)"
proof -
  let ?c = "unat (p_chunk_size p)"
  have "(i + 1) * ?c \<le> j * ?c \<or> (j + 1) * ?c \<le> i * ?c"
    using assms(4) by (metis Suc_eq_plus1 Suc_leI mult_le_mono1 nat_neq_iff)
  then show ?thesis using assms by (auto simp: chunk_bounds)
qed

lemma chunk_inj:
  assumes "pool_geom p" "i < pool_count p" "j < pool_count p" "chunk_addr p i = chunk_addr p j"
  shows "i = j"
proof (rule ccontr)
  assume "i \<noteq> j"
  with chunk_disjoint[OF assms(1-3)] assms(4) have "unat (p_chunk_size p) = 0" by auto
  with assms(1) show False by (simp add: pool_geom_def)
qed

text \<open>The chain only depends on the first words of the chunks it runs through.\<close>

lemma pool_chain_cong:
  "(\<And>i. i \<in> set fs \<Longrightarrow> load32 m' (chunk_addr p i) = load32 m (chunk_addr p i)) \<Longrightarrow>
   pool_chain m' p h fs = pool_chain m p h fs"
  by (induction fs arbitrary: h) auto

lemma pool_chain_store:
  assumes "pool_geom p" "\<forall>i \<in> set fs. i < pool_count p" "j < pool_count p" "j \<notin> set fs"
  shows "pool_chain (store32 m (chunk_addr p j) v) p h fs = pool_chain m p h fs"
proof (rule pool_chain_cong)
  fix i assume i: "i \<in> set fs"
  with assms(2) have ic: "i < pool_count p" by simp
  have "chunk_addr p j \<noteq> chunk_addr p i" using chunk_inj[OF assms(1,3) ic] i assms(4) by blast
  then show "load32 (store32 m (chunk_addr p j) v) (chunk_addr p i) = load32 m (chunk_addr p i)"
    using assms(1,3) ic by (intro bm.ld_st_other chunk_aligned)
qed

lemma load32_memset_other:
  assumes "aligned4 a" "unat p + n \<le> 4294967296" "unat a + 4 \<le> unat p \<or> unat p + n \<le> unat a"
  shows "load32 (memset_n m p c n) a = load32 m a"
proof -
  have "memset_n m p c n x = m x" if x: "x \<in> {a, a + 1, a + 2, a + 3}" for x
    using aligned4_byte_index[OF x assms(1)] assms(3) memset_n_apply[OF assms(2)] by auto
  then show ?thesis by (simp add: load32_def)
qed

section \<open>Operations\<close>

lemma pool_push_chunks_chain:
  assumes "pool_geom p" "n \<le> pool_count p"
    "pool_push_chunks m (p_buf p) (p_chunk_size p) 0 n = (m', h)"
  shows "pool_chain m' p h (rev [0..<n])"
  using assms(2,3)
proof (induction n arbitrary: m' h)
  case 0
  then show ?case by simp
next
  case (Suc n)
  obtain m1 h1 where r: "pool_push_chunks m (p_buf p) (p_chunk_size p) 0 n = (m1, h1)"
    by (metis surj_pair)
  have "pool_chain m1 p h1 (rev [0..<n])" using Suc.IH[OF _ r] Suc.prems(1) by simp
  then have "pool_chain (store32 m1 (chunk_addr p n) h1) p h1 (rev [0..<n])"
    using assms(1) Suc.prems(1) by (subst pool_chain_store) auto
  moreover have "m' = store32 m1 (chunk_addr p n) h1" "h = chunk_addr p n"
    using Suc.prems(2) r by (auto simp: chunk_addr_def Let_def)
  ultimately show ?case by (simp add: bm.ld_st_same)
qed

lemma pool_free_all_inv:
  assumes "pool_geom p" "pool_free_all m p = (m', p')"
  shows "pool_inv m' p' (rev [0..<pool_count p])"
    and "p_buf p' = p_buf p" "p_buf_len p' = p_buf_len p" "p_chunk_size p' = p_chunk_size p"
proof -
  have c: "unat (p_buf_len p div p_chunk_size p) = pool_count p"
    by (simp add: pool_count_def unat_div_distrib)
  obtain h where r: "pool_push_chunks m (p_buf p) (p_chunk_size p) 0 (pool_count p) = (m', h)"
    and p': "p' = p\<lparr>p_head := h\<rparr>"
    using assms(2) c by (auto simp: pool_free_all_def Let_def split: prod.splits)
  show "pool_inv m' p' (rev [0..<pool_count p])"
    using pool_push_chunks_chain[OF assms(1) _ r] assms(1) by (simp add: pool_inv_def p')
  show "p_buf p' = p_buf p" "p_buf_len p' = p_buf_len p" "p_chunk_size p' = p_chunk_size p"
    by (simp_all add: p')
qed

lemma pool_alloc_empty: "pool_inv m p [] \<Longrightarrow> pool_alloc m p = (m, p, 0)"
  by (simp add: pool_inv_def pool_alloc_def)

lemma pool_alloc_cons:
  assumes "pool_inv m p (i # fs)"
  shows "\<exists>m' h. pool_alloc m p = (m', p\<lparr>p_head := h\<rparr>, chunk_addr p i)
    \<and> pool_inv m' (p\<lparr>p_head := h\<rparr>) fs
    \<and> (\<forall>x. m' x = (if unat (chunk_addr p i) \<le> unat x
                     \<and> unat x < unat (chunk_addr p i) + unat (p_chunk_size p) then 0 else m x))"
proof -
  let ?a = "chunk_addr p i" and ?n = "unat (p_chunk_size p)"
  have g: "pool_geom p" and i: "i < pool_count p" and h: "p_head p = ?a"
    and ch: "pool_chain m p (load32 m ?a) fs" and d: "i \<notin> set fs" "distinct fs"
    and fs: "\<forall>j \<in> set fs. j < pool_count p"
    using assms by (auto simp: pool_inv_def)
  have b: "unat ?a + ?n \<le> 4294967296"
    using chunk_bounds[OF g i] g by (simp add: pool_geom_def)
  let ?m = "memset_n m ?a 0 ?n" and ?p = "p\<lparr>p_head := load32 m ?a\<rparr>"
  have "pool_chain ?m p (load32 m ?a) fs = pool_chain m p (load32 m ?a) fs"
  proof (rule pool_chain_cong)
    fix j assume j: "j \<in> set fs"
    with fs d have jc: "j < pool_count p" and "i \<noteq> j" by auto
    then have "unat (chunk_addr p j) + 4 \<le> unat ?a \<or> unat ?a + ?n \<le> unat (chunk_addr p j)"
      using chunk_disjoint[OF g i jc] g by (auto simp: pool_geom_def)
    then show "load32 ?m (chunk_addr p j) = load32 m (chunk_addr p j)"
      using chunk_aligned[OF g jc] b by (intro load32_memset_other)
  qed
  then have "pool_inv ?m ?p fs" using ch g d fs by (simp add: pool_inv_def)
  moreover have "pool_alloc m p = (?m, ?p, ?a)"
    using h chunk_nonnull[OF g i] by (simp add: pool_alloc_def Let_def)
  ultimately show ?thesis using memset_n_apply[OF b] by blast
qed

lemma pool_free_ok:
  assumes "pool_inv m p fs" "i < pool_count p" "i \<notin> set fs"
  shows "pool_free m p (chunk_addr p i) =
      Some (store32 m (chunk_addr p i) (p_head p), p\<lparr>p_head := chunk_addr p i\<rparr>)"
    and "pool_inv (store32 m (chunk_addr p i) (p_head p)) (p\<lparr>p_head := chunk_addr p i\<rparr>) (i # fs)"
proof -
  let ?a = "chunk_addr p i"
  have g: "pool_geom p" using assms(1) by (simp add: pool_inv_def)
  have b: "unat ?a = unat (p_buf p) + i * unat (p_chunk_size p)"
    "unat ?a + unat (p_chunk_size p) \<le> unat (p_buf p) + unat (p_buf_len p)"
    using chunk_bounds[OF g assms(2)] by simp_all
  have e: "unat (p_buf p + p_buf_len p) = unat (p_buf p) + unat (p_buf_len p)"
    using g by (simp add: pool_geom_def unat_add_nowrap)
  have "p_buf p \<le> ?a" "?a < p_buf p + p_buf_len p"
    using b e g by (simp_all add: word_le_nat_alt word_less_nat_alt pool_geom_def)
  moreover have "unat ((?a - p_buf p) mod p_chunk_size p) = 0"
    using b by (simp add: unat_mod_distrib unat_sub_nowrap)
  then have "(?a - p_buf p) mod p_chunk_size p = 0" by (simp only: unat_eq_0)
  ultimately show "pool_free m p ?a = Some (store32 m ?a (p_head p), p\<lparr>p_head := ?a\<rparr>)"
    using chunk_nonnull[OF g assms(2)] by (simp add: pool_free_def)
  show "pool_inv (store32 m ?a (p_head p)) (p\<lparr>p_head := ?a\<rparr>) (i # fs)"
    using assms g by (auto simp: pool_inv_def bm.ld_st_same pool_chain_store)
qed

lemma pool_init_inv:
  assumes al: "is_power_of_two al" "4 \<le> unat al"
    and buf: "0 < unat buf" "unat buf + unat len < 4294967296"
    and cs: "0 < unat cs"
    and fit: "round_up (unat buf) (unat al) + round_up (unat cs) (unat al) \<le> unat buf + unat len"
  shows "\<exists>m' p. pool_init m buf len cs al = Some (m', p) \<and> pool_inv m' p (rev [0..<pool_count p])
    \<and> unat (p_buf p) = round_up (unat buf) (unat al)
    \<and> unat (p_chunk_size p) = round_up (unat cs) (unat al)
    \<and> unat (p_buf p) + unat (p_buf_len p) = unat buf + unat len"
proof -
  have a0: "0 < unat al" by (rule power_of_two_pos[OF al(1)])
  have "is_power_of_two (4 :: u32)" by (simp add: is_power_of_two_def)
  then have four: "4 dvd unat al" using is_power_of_two_dvd[of 4 al] al by simp
  note rb = round_up_bounds[OF a0]
  have small: "round_up (unat buf) (unat al) < 4294967296" "round_up (unat cs) (unat al) < 4294967296"
    using fit buf(2) by linarith+
  obtain st where st: "align_forward_uintptr buf al = Some st" "unat st = round_up (unat buf) (unat al)"
    using align_forward_size_eq[OF al(1), of buf] small
    by (metis align_forward_uintptr_eq_size mod_less)
  obtain c where c: "align_forward_size cs al = Some c" "unat c = round_up (unat cs) (unat al)"
    using align_forward_size_eq[OF al(1), of cs] small by (metis mod_less)
  have c4: "4 \<le> unat c"
    using rb(1)[of "unat cs"] cs c(2) four round_up_dvd[of "unat al" "unat cs"]
    by (metis dvd_imp_le dvd_trans leD not_gr_zero)
  let ?len = "len - (st - buf)"
  have d: "unat (st - buf) = unat st - unat buf" using st(2) rb(1)[of "unat buf"] by (simp add: unat_sub_nowrap)
  have le: "unat (st - buf) \<le> unat len" using d st(2) fit by linarith
  have l: "unat st + unat ?len = unat buf + unat len"
    using d le st(2) rb(1)[of "unat buf"] by (simp add: unat_sub_nowrap)
  define p where "p = \<lparr>p_buf = st, p_buf_len = ?len, p_chunk_size = c, p_head = 0\<rparr>"
  have g: "pool_geom p"
    using buf l st(2) c(2) c4 rb(1)[of "unat buf"] four
    by (auto simp: pool_geom_def p_def intro: dvd_trans[OF four])
  obtain m' p' where fa: "pool_free_all m p = (m', p')" by (metis surj_pair)
  have "sizeof_Pool_Free_Node \<le> c" "c \<le> ?len"
    using c4 l c(2) st(2) fit by (simp_all add: sizeof_Pool_Free_Node_def word_le_nat_alt)
  then have "pool_init m buf len cs al = Some (m', p')"
    using st(1) c(1) fa by (simp add: pool_init_def Let_def p_def)
  moreover have "pool_count p' = pool_count p"
    using pool_free_all_inv(2-4)[OF g fa] by (simp add: pool_count_def)
  ultimately show ?thesis
    using pool_free_all_inv[OF g fa] st(2) c(2) l by (auto simp: p_def)
qed

section \<open>What a client of a pool relies on\<close>

text \<open>A run of allocations, as a client makes them: the pointers, oldest first, and the last state.\<close>

primrec alloc_seq :: "('s \<Rightarrow> 's \<times> addr) \<Rightarrow> nat \<Rightarrow> 's \<Rightarrow> addr list \<times> 's" where
  "alloc_seq alloc 0 s = ([], s)"
| "alloc_seq alloc (Suc n) s =
     (let (s', p) = alloc s; (ps, s'') = alloc_seq alloc n s' in (p # ps, s''))"

locale chunk_pool =
  fixes inv :: "'s \<Rightarrow> nat list \<Rightarrow> bool"
    and alloc :: "'s \<Rightarrow> 's \<times> addr"
    and chunk :: "'s \<Rightarrow> nat \<Rightarrow> addr"
  assumes alloc_none: "inv s [] \<Longrightarrow> alloc s = (s, 0)"
    and alloc_some: "inv s (i # fs) \<Longrightarrow> \<exists>s'. alloc s = (s', chunk s i) \<and> inv s' fs \<and> chunk s' = chunk s"
    and free_distinct: "inv s fs \<Longrightarrow> distinct fs"
    and free_inj: "inv s fs \<Longrightarrow> inj_on (chunk s) (set fs)"
    and free_nonnull: "inv s fs \<Longrightarrow> i \<in> set fs \<Longrightarrow> chunk s i \<noteq> 0"
begin

lemma alloc_seq_take:
  "inv s fs \<Longrightarrow> n \<le> length fs \<Longrightarrow>
   \<exists>s'. alloc_seq alloc n s = (map (chunk s) (take n fs), s') \<and> inv s' (drop n fs) \<and> chunk s' = chunk s"
proof (induction n arbitrary: s fs)
  case 0
  then show ?case by simp
next
  case (Suc n)
  then obtain i fs' where fs: "fs = i # fs'" by (cases fs) auto
  obtain s1 where s1: "alloc s = (s1, chunk s i)" "inv s1 fs'" "chunk s1 = chunk s"
    using alloc_some Suc.prems(1) fs by blast
  obtain s2 where "alloc_seq alloc n s1 = (map (chunk s1) (take n fs'), s2)"
    "inv s2 (drop n fs')" "chunk s2 = chunk s1"
    using Suc.IH[OF s1(2)] Suc.prems(2) fs by auto
  then show ?case using s1 fs by simp
qed

text \<open>
  Allocating as often as there are free chunks hands out every chunk once, never null, and the
  next allocation is refused.
\<close>

lemma alloc_seq_exhausts:
  assumes "inv s fs"
  shows "\<exists>s'. alloc_seq alloc (length fs) s = (map (chunk s) fs, s') \<and> alloc s' = (s', 0)
    \<and> distinct (map (chunk s) fs) \<and> 0 \<notin> set (map (chunk s) fs)"
proof -
  obtain s' where s': "alloc_seq alloc (length fs) s = (map (chunk s) fs, s')" "inv s' []"
    using alloc_seq_take[OF assms, of "length fs"] by auto
  have "distinct (map (chunk s) fs)"
    using free_distinct[OF assms] free_inj[OF assms] by (simp add: distinct_map)
  moreover have "0 \<notin> set (map (chunk s) fs)" using free_nonnull[OF assms] by force
  ultimately show ?thesis using s' alloc_none by auto
qed

end

text \<open>The pool's state as the client sees it: the memory together with the \<^verbatim>\<open>Pool\<close>.\<close>

definition pool_st_alloc :: "mem \<times> Pool \<Rightarrow> (mem \<times> Pool) \<times> addr" where
  "pool_st_alloc s = (let (m', p', a) = pool_alloc (fst s) (snd s) in ((m', p'), a))"

lemma pool_inv_chunks:
  assumes "pool_inv m p fs"
  shows "inj_on (chunk_addr p) (set fs)" "i \<in> set fs \<Longrightarrow> chunk_addr p i \<noteq> 0" "distinct fs"
  using assms chunk_inj chunk_nonnull by (auto simp: pool_inv_def inj_on_def)

interpretation pool: chunk_pool "\<lambda>s. pool_inv (fst s) (snd s)" pool_st_alloc "\<lambda>s. chunk_addr (snd s)"
proof unfold_locales
  fix s :: "mem \<times> Pool" and i fs
  show "pool_inv (fst s) (snd s) [] \<Longrightarrow> pool_st_alloc s = (s, 0)"
    using pool_alloc_empty[of "fst s" "snd s"] by (cases s) (simp add: pool_st_alloc_def)
  assume "pool_inv (fst s) (snd s) (i # fs)"
  then obtain m' h where "pool_alloc (fst s) (snd s) = (m', snd s\<lparr>p_head := h\<rparr>, chunk_addr (snd s) i)"
    "pool_inv m' (snd s\<lparr>p_head := h\<rparr>) fs"
    using pool_alloc_cons by blast
  then show "\<exists>s'. pool_st_alloc s = (s', chunk_addr (snd s) i) \<and> pool_inv (fst s') (snd s') fs
      \<and> chunk_addr (snd s') = chunk_addr (snd s)"
    by (intro exI[of _ "(m', snd s\<lparr>p_head := h\<rparr>)"]) (simp add: pool_st_alloc_def)
qed (use pool_inv_chunks in blast)+

section \<open>Properties\<close>

text \<open>\<^verbatim>\<open>pool_init\<close> returns for every buffer that can hold at least one
  rounded chunk, rounds start and chunk size up to the alignment, and leaves every chunk of the
  buffer free, the last one in front.
\<close>

theorem pool_init_spec:
  assumes "is_power_of_two al" "4 \<le> unat al" "0 < unat buf" "unat buf + unat len < 4294967296"
    "0 < unat cs"
    "round_up (unat buf) (unat al) + round_up (unat cs) (unat al) \<le> unat buf + unat len"
  shows "\<exists>m' p. pool_init m buf len cs al = Some (m', p) \<and> pool_inv m' p (rev [0..<pool_count p])
    \<and> unat (p_buf p) = round_up (unat buf) (unat al)
    \<and> unat (p_chunk_size p) = round_up (unat cs) (unat al)
    \<and> pool_count p = (unat buf + unat len - round_up (unat buf) (unat al)) div round_up (unat cs) (unat al)"
proof -
  obtain m' p where "pool_init m buf len cs al = Some (m', p)" "pool_inv m' p (rev [0..<pool_count p])"
    "unat (p_buf p) = round_up (unat buf) (unat al)" "unat (p_chunk_size p) = round_up (unat cs) (unat al)"
    and e: "unat (p_buf p) + unat (p_buf_len p) = unat buf + unat len"
    using pool_init_inv[OF assms] by blast
  moreover from e have "unat (p_buf_len p) = unat buf + unat len - unat (p_buf p)" by linarith
  ultimately show ?thesis by (auto simp: pool_count_def)
qed

theorem pool_init_spec_witness:
  "\<exists>m' p. pool_init (\<lambda>_. 0) 4096 40960 320 4 = Some (m', p) \<and> pool_inv m' p (rev [0..<pool_count p])
     \<and> pool_count p = 128"
proof -
  have "is_power_of_two (4 :: u32)" by (simp add: is_power_of_two_def)
  from pool_init_spec[OF this, of 4096 40960 320 "\<lambda>_. 0"] show ?thesis by (auto simp: round_up_def)
qed

text \<open>With free chunks \<open>i # fs'\<close>, \<^verbatim>\<open>pool_alloc\<close> returns chunk \<open>i\<close> zeroed,
  leaves every other byte of memory alone and keeps the free list \<open>fs'\<close>; with no free chunk it
  returns a null pointer and changes nothing.
\<close>

theorem pool_alloc_spec:
  assumes "pool_inv m p fs"
  shows "case fs of
      [] \<Rightarrow> pool_alloc m p = (m, p, 0)
    | i # fs' \<Rightarrow> (\<exists>m' p'. pool_alloc m p = (m', p', chunk_addr p i) \<and> chunk_addr p i \<noteq> 0
        \<and> i \<notin> set fs' \<and> pool_inv m' p' fs'
        \<and> (\<forall>x. m' x = (if unat (chunk_addr p i) \<le> unat x
              \<and> unat x < unat (chunk_addr p i) + unat (p_chunk_size p) then 0 else m x)))"
proof (cases fs)
  case Nil
  then show ?thesis using assms pool_alloc_empty by simp
next
  case (Cons i fs')
  then show ?thesis
    using pool_alloc_cons[of m p i fs'] pool_inv_chunks[OF assms] assms by fastforce
qed

theorem pool_alloc_spec_witness:
  "pool_inv (\<lambda>_. 0) \<lparr>p_buf = 16, p_buf_len = 16, p_chunk_size = 8, p_head = 16\<rparr> [0]
   \<and> (\<exists>m' p'. pool_alloc (\<lambda>_. 0) \<lparr>p_buf = 16, p_buf_len = 16, p_chunk_size = 8, p_head = 16\<rparr> = (m', p', 16)
        \<and> pool_inv m' p' [])"
proof -
  let ?p = "\<lparr>p_buf = 16, p_buf_len = 16, p_chunk_size = 8, p_head = 16\<rparr>"
  have i: "pool_inv (\<lambda>_. 0) ?p [0]"
    by (simp add: pool_inv_def pool_geom_def chunk_addr_def pool_count_def load32_def)
  have "chunk_addr ?p 0 = 16" by (simp add: chunk_addr_def)
  with i pool_alloc_spec[OF i] show ?thesis by auto
qed

text \<open>From any state of the pool, as many allocations as there are free chunks return
  pairwise different, non-null chunks, and the allocation after that returns null.
\<close>

theorem pool_alloc_exhausts:
  assumes "pool_inv m p fs"
  shows "\<exists>s'. alloc_seq pool_st_alloc (length fs) (m, p) = (map (chunk_addr p) fs, s')
    \<and> pool_st_alloc s' = (s', 0)
    \<and> distinct (map (chunk_addr p) fs) \<and> 0 \<notin> set (map (chunk_addr p) fs)"
  using pool.alloc_seq_exhausts[of "(m, p)" fs] assms by simp

theorem pool_alloc_exhausts_witness:
  "\<exists>s'. alloc_seq pool_st_alloc 1 (\<lambda>_. 0, \<lparr>p_buf = 16, p_buf_len = 16, p_chunk_size = 8, p_head = 16\<rparr>)
      = ([16], s') \<and> pool_st_alloc s' = (s', 0)"
proof -
  let ?p = "\<lparr>p_buf = 16, p_buf_len = 16, p_chunk_size = 8, p_head = 16\<rparr>"
  have i: "pool_inv (\<lambda>_. 0) ?p [0]"
    by (simp add: pool_inv_def pool_geom_def chunk_addr_def pool_count_def load32_def)
  have "chunk_addr ?p 0 = 16" by (simp add: chunk_addr_def)
  with pool_alloc_exhausts[OF i] show ?thesis by auto
qed

text \<open>\<^verbatim>\<open>pool_free\<close> of a chunk that is not free returns, puts it in front of the
  free list and changes only its first word; the next \<^verbatim>\<open>pool_alloc\<close> hands out the same chunk.
\<close>

theorem pool_free_alloc_roundtrip:
  assumes "pool_inv m p fs" "i < pool_count p" "i \<notin> set fs"
  shows "\<exists>m' p'. pool_free m p (chunk_addr p i) = Some (m', p') \<and> pool_inv m' p' (i # fs)
    \<and> snd (snd (pool_alloc m' p')) = chunk_addr p i
    \<and> (\<forall>x. unat x < unat (chunk_addr p i) \<or> unat (chunk_addr p i) + 4 \<le> unat x \<longrightarrow> m' x = m x)"
proof -
  let ?m = "store32 m (chunk_addr p i) (p_head p)" and ?p = "p\<lparr>p_head := chunk_addr p i\<rparr>"
  have inv: "pool_inv ?m ?p (i # fs)" by (rule pool_free_ok(2)[OF assms])
  have "snd (snd (pool_alloc ?m ?p)) = chunk_addr p i"
    using pool_alloc_cons[OF inv] by auto
  moreover have "?m x = m x"
    if "unat x < unat (chunk_addr p i) \<or> unat (chunk_addr p i) + 4 \<le> unat x" for x
    using that assms chunk_aligned by (intro store32_frame) (auto simp: pool_inv_def)
  ultimately show ?thesis using pool_free_ok(1)[OF assms] inv by blast
qed

theorem pool_free_alloc_roundtrip_witness:
  "\<exists>m' p'. pool_free (\<lambda>_. 0) \<lparr>p_buf = 16, p_buf_len = 16, p_chunk_size = 8, p_head = 16\<rparr> 24 = Some (m', p')
      \<and> pool_inv m' p' [1, 0] \<and> snd (snd (pool_alloc m' p')) = 24"
proof -
  let ?p = "\<lparr>p_buf = 16, p_buf_len = 16, p_chunk_size = 8, p_head = 16\<rparr>"
  have i: "pool_inv (\<lambda>_. 0) ?p [0]"
    by (simp add: pool_inv_def pool_geom_def chunk_addr_def pool_count_def load32_def)
  have "chunk_addr ?p 1 = 24" "pool_count ?p = 2" by (simp_all add: chunk_addr_def pool_count_def)
  with pool_free_alloc_roundtrip[OF i, of 1] show ?thesis by auto
qed

end
