(* ===== verification/LibDev.thy ===== *)
theory LibDev
  imports Pool Heap Gem
begin

text \<open>
  The user library (\<^verbatim>\<open>src/lib/strela.c\<close>, \<^verbatim>\<open>src/include/strela.h\<close>): the device structure with its sticky error,
  kernels and buffers.  The library's memory is the byte memory of the allocators; the calls it
  makes to the kernel are recorded in order, and what they return is an input (0, or the \<^verbatim>\<open>errno\<close> of
  a call that returned -1).  A call of \<^verbatim>\<open>abort\<close> or a failed \<^verbatim>\<open>assert\<close> is \<open>None\<close>.

  The library's names that the driver has as well carry the suffix \<open>_lib\<close>.
\<close>

section \<open>Data\<close>

definition STRELA_DEVICE_MAX :: nat where "STRELA_DEVICE_MAX = 8"
definition STRELA_JOBS_MAX :: nat where "STRELA_JOBS_MAX = 16"
definition STRELA_KERNEL_SIZE :: u32 where "STRELA_KERNEL_SIZE = 80"
definition STRELA_KERNEL_MEMORY_SIZE :: u32 where "STRELA_KERNEL_MEMORY_SIZE = 4 * STRELA_KERNEL_SIZE * 128"
definition STRELA_TENSOR_MEMORY_SIZE :: u32 where "STRELA_TENSOR_MEMORY_SIZE = 1024 * 1024 * 50"
definition CACHELINE_SIZE :: u32 where "CACHELINE_SIZE = 64"

lemmas lib_sizes = STRELA_JOBS_MAX_def STRELA_KERNEL_SIZE_def STRELA_KERNEL_MEMORY_SIZE_def STRELA_TENSOR_MEMORY_SIZE_def CACHELINE_SIZE_def

definition STRELA_ERR_OK :: int where "STRELA_ERR_OK = 0"
definition STRELA_ERR_BAD_ARG :: int where "STRELA_ERR_BAD_ARG = 1"
definition STRELA_ERR_NO_MEM :: int where "STRELA_ERR_NO_MEM = 2"

lemmas strela_err = STRELA_ERR_OK_def STRELA_ERR_BAD_ARG_def STRELA_ERR_NO_MEM_def

datatype strela_job_phase_lib = STRELA_JOB_FREE | STRELA_JOB_CONFIGURED | STRELA_JOB_SUBMITTED | STRELA_JOB_DONE

record strela_kernel =
  kernel_valid :: bool
  kernel_handle :: u32

record strela_buffer =
  buffer_valid :: bool
  offset_words_from_base :: u32
  size_words :: u32

record strela_job_lib =
  job_valid :: bool
  job_handle :: u32

record strela_job_slot =
  slot_phase :: strela_job_phase_lib
  slot_submit :: drm_strela_submit
  slot_fence_fd :: int
  slot_status :: int

datatype lcall =
    Ioctl_gem_sync drm_strela_gem_sync
  | Ioctl_submit drm_strela_submit
  | Syncobj_created u32 | Syncobj_destroyed u32
  | Fd_opened int | Fd_closed int
  | Waited_fence int | Waited_syncobj u32
  | Mapped addr | Unmapped addr
  | Dir_opened | Dir_closed

record strela_dev =
  dev_fd :: int
  tensors_bo_handle :: u32
  tensors_bo_map :: addr
  kernels_bo_handle :: u32
  kernels_bo_map :: addr
  backward_compat_job :: strela_job_lib
  dev_initialized :: bool
  dev_errnum :: int
  kernel_pool :: Pool
  buffer_free_list :: Free_List
  dev_jobs :: "strela_job_slot list"
  dev_mem :: mem
  dev_calls :: "lcall list"

definition log_calls :: "lcall list \<Rightarrow> strela_dev \<Rightarrow> strela_dev" where
  "log_calls cs dev = dev\<lparr>dev_calls := dev_calls dev @ cs\<rparr>"

lemma log_calls_simps [simp]:
  "dev_fd (log_calls cs d) = dev_fd d" "tensors_bo_handle (log_calls cs d) = tensors_bo_handle d"
  "tensors_bo_map (log_calls cs d) = tensors_bo_map d" "kernels_bo_handle (log_calls cs d) = kernels_bo_handle d"
  "kernels_bo_map (log_calls cs d) = kernels_bo_map d" "backward_compat_job (log_calls cs d) = backward_compat_job d"
  "dev_initialized (log_calls cs d) = dev_initialized d" "dev_errnum (log_calls cs d) = dev_errnum d"
  "kernel_pool (log_calls cs d) = kernel_pool d" "buffer_free_list (log_calls cs d) = buffer_free_list d"
  "dev_jobs (log_calls cs d) = dev_jobs d" "dev_mem (log_calls cs d) = dev_mem d" "dev_calls (log_calls cs d) = dev_calls d @ cs"
  by (simp_all add: log_calls_def)

section \<open>The sticky error\<close>

definition strela_dev_reset_err :: "strela_dev \<Rightarrow> strela_dev" where
  "strela_dev_reset_err dev = (if dev_initialized dev then dev\<lparr>dev_errnum := STRELA_ERR_OK\<rparr> else dev)"

definition strela_dev_get_err :: "strela_dev \<Rightarrow> int" where
  "strela_dev_get_err dev = dev_errnum dev"

definition strela_dev_initialized :: "strela_dev \<Rightarrow> bool" where
  "strela_dev_initialized dev = dev_initialized dev"

definition strela_dev_ok :: "strela_dev \<Rightarrow> bool" where
  "strela_dev_ok dev \<longleftrightarrow> dev_initialized dev \<and> dev_errnum dev = STRELA_ERR_OK"

lemma strela_dev_ok_upd [simp]:
  "strela_dev_ok (log_calls cs d) = strela_dev_ok d" "strela_dev_ok (d\<lparr>dev_mem := m\<rparr>) = strela_dev_ok d"
  "strela_dev_ok (d\<lparr>kernel_pool := p\<rparr>) = strela_dev_ok d" "strela_dev_ok (d\<lparr>buffer_free_list := fl\<rparr>) = strela_dev_ok d"
  "strela_dev_ok (d\<lparr>dev_jobs := js\<rparr>) = strela_dev_ok d" "strela_dev_ok (d\<lparr>backward_compat_job := j\<rparr>) = strela_dev_ok d"
  "strela_dev_ok (d\<lparr>dev_errnum := e\<rparr>) \<longleftrightarrow> dev_initialized d \<and> e = 0"
  by (simp_all add: strela_dev_ok_def strela_err)

section \<open>Kernels\<close>

definition strela_kernel_alloc :: "strela_dev \<Rightarrow> (strela_dev \<times> strela_kernel) option" where
  "strela_kernel_alloc dev =
     (let res = \<lparr>kernel_valid = False, kernel_handle = 0\<rparr> in
      if strela_dev_ok dev then
        (let (m, p, ptr) = pool_alloc (dev_mem dev) (kernel_pool dev);
             dev = dev\<lparr>dev_mem := m, kernel_pool := p\<rparr>
         in if ptr \<noteq> 0 then
              (let handle = (ptr - p_buf (kernel_pool dev)) div (STRELA_KERNEL_SIZE * 4) in do {
                 assert_c (handle < 128);
                 Some (dev, \<lparr>kernel_valid = True, kernel_handle = handle\<rparr>)
               })
            else Some (dev\<lparr>dev_errnum := - STRELA_ERR_NO_MEM\<rparr>, res))
      else Some (dev, res))"

text \<open>\<open>ret\<close> is the outcome of the ioctl.\<close>

definition strela_sync :: "int \<Rightarrow> strela_dev \<Rightarrow> u32 \<Rightarrow> u32 \<Rightarrow> u32 \<Rightarrow> u32 \<Rightarrow> strela_dev" where
  "strela_sync ret dev handle flags offset_words words =
     (if strela_dev_ok dev \<and> words \<noteq> 0 then
        (let args = \<lparr>gs_handle = handle, gs_flags = flags, gs_offset = ucast (offset_words * 4), gs_length = ucast (words * 4)\<rparr>;
             dev = log_calls [Ioctl_gem_sync args] dev
         in if ret \<noteq> 0 then dev\<lparr>dev_errnum := ret\<rparr> else dev)
      else dev)"

definition strela_kernel_set :: "int \<Rightarrow> strela_dev \<Rightarrow> strela_kernel \<Rightarrow> addr \<Rightarrow> strela_dev" where
  "strela_kernel_set ret dev krn data =
     (let dev = (if strela_dev_ok dev \<and> (\<not> kernel_valid krn \<or> 128 \<le> kernel_handle krn)
                 then dev\<lparr>dev_errnum := - STRELA_ERR_BAD_ARG\<rparr> else dev)
      in if strela_dev_ok dev then
           (let ptr = p_buf (kernel_pool dev) + kernel_handle krn * STRELA_KERNEL_SIZE * 4;
                dev = dev\<lparr>dev_mem := memmove_n (dev_mem dev) ptr data (unat (STRELA_KERNEL_SIZE * 4))\<rparr>
            in strela_sync ret dev (kernels_bo_handle dev) (DRM_STRELA_SYNC_FINI OR DRM_STRELA_SYNC_WRITE)
                 (kernel_handle krn * STRELA_KERNEL_SIZE) STRELA_KERNEL_SIZE)
         else dev)"

text \<open>Freeing a single kernel is switched off in the code: a valid handle is accepted and only a message is
  printed.\<close>

definition strela_kernel_free :: "strela_dev \<Rightarrow> strela_kernel \<Rightarrow> strela_dev" where
  "strela_kernel_free dev krn =
     (if strela_dev_ok dev \<and> (\<not> kernel_valid krn \<or> 128 \<le> kernel_handle krn)
      then dev\<lparr>dev_errnum := - STRELA_ERR_BAD_ARG\<rparr> else dev)"

definition strela_kernel_free_all :: "strela_dev \<Rightarrow> strela_dev" where
  "strela_kernel_free_all dev =
     (if strela_dev_ok dev then
        (let (m, p) = pool_free_all (dev_mem dev) (kernel_pool dev) in dev\<lparr>dev_mem := m, kernel_pool := p\<rparr>)
      else dev)"

section \<open>Buffers\<close>

definition internal_ptr_to_buffer_offset :: "strela_dev \<Rightarrow> addr \<Rightarrow> u32 option" where
  "internal_ptr_to_buffer_offset dev ptr = do {
     assert_c (strela_dev_ok dev);
     Some ((ptr - tensors_bo_map dev) div 4)
   }"

definition null_buffer :: strela_buffer where
  "null_buffer = \<lparr>buffer_valid = False, offset_words_from_base = 0, size_words = 0\<rparr>"

definition strela_buffer_alloc :: "strela_dev \<Rightarrow> u32 \<Rightarrow> (strela_dev \<times> strela_buffer) option" where
  "strela_buffer_alloc dev words =
     (if strela_dev_ok dev then
        (let size_bytes = words * 4 in
         if words \<le> size_bytes then do {
           (m, fl, ptr) \<leftarrow> free_list_alloc (dev_mem dev) (buffer_free_list dev) size_bytes 64;
           let dev = dev\<lparr>dev_mem := m, buffer_free_list := fl\<rparr>;
           if ptr \<noteq> 0 then do {
             ofs \<leftarrow> internal_ptr_to_buffer_offset dev ptr;
             Some (dev, \<lparr>buffer_valid = True, offset_words_from_base = ofs, size_words = words\<rparr>)
           }
           else Some (dev\<lparr>dev_errnum := - STRELA_ERR_NO_MEM\<rparr>, null_buffer)
         }
         else Some (dev\<lparr>dev_errnum := - STRELA_ERR_BAD_ARG\<rparr>, null_buffer))
      else Some (dev, null_buffer))"

definition strela_buffer_to_ptr :: "strela_dev \<Rightarrow> strela_buffer \<Rightarrow> addr option" where
  "strela_buffer_to_ptr dev buffer = do {
     assert_c (buffer_valid buffer \<and> strela_dev_ok dev);
     Some (tensors_bo_map dev + offset_words_from_base buffer * 4)
   }"

definition strela_buffer_from_ptr :: "strela_dev \<Rightarrow> addr \<Rightarrow> strela_buffer option" where
  "strela_buffer_from_ptr dev ptr =
     (if strela_dev_ok dev \<and> tensors_bo_map dev \<le> ptr \<and> ptr < tensors_bo_map dev + STRELA_TENSOR_MEMORY_SIZE then do {
        ofs \<leftarrow> internal_ptr_to_buffer_offset dev ptr;
        let orig = header_orig_size (dev_mem dev) (ptr - sizeof_Free_List_Allocation_Header);
        assert_c (orig mod 4 = 0);
        Some \<lparr>buffer_valid = True, offset_words_from_base = ofs, size_words = orig div 4\<rparr>
      }
      else Some null_buffer)"

definition strela_buffer_set_data :: "strela_dev \<Rightarrow> strela_buffer \<Rightarrow> addr \<Rightarrow> strela_dev option" where
  "strela_buffer_set_data dev buffer ptr =
     (if strela_dev_ok dev then
        (if \<not> buffer_valid buffer then Some (dev\<lparr>dev_errnum := - STRELA_ERR_BAD_ARG\<rparr>)
         else do {
           strela_buf \<leftarrow> strela_buffer_to_ptr dev buffer;
           Some (dev\<lparr>dev_mem := memmove_n (dev_mem dev) strela_buf ptr (unat (size_words buffer * 4))\<rparr>)
         })
      else Some dev)"

definition strela_buffer_get_data :: "strela_dev \<Rightarrow> strela_buffer \<Rightarrow> addr \<Rightarrow> strela_dev option" where
  "strela_buffer_get_data dev buffer ptr =
     (if strela_dev_ok dev then
        (if \<not> buffer_valid buffer then Some (dev\<lparr>dev_errnum := - STRELA_ERR_BAD_ARG\<rparr>)
         else do {
           strela_buf \<leftarrow> strela_buffer_to_ptr dev buffer;
           Some (dev\<lparr>dev_mem := memmove_n (dev_mem dev) ptr strela_buf (unat (size_words buffer * 4))\<rparr>)
         })
      else Some dev)"

definition strela_buffer_free :: "strela_dev \<Rightarrow> strela_buffer \<Rightarrow> strela_dev option" where
  "strela_buffer_free dev buffer =
     (if strela_dev_ok dev then
        (if \<not> buffer_valid buffer then Some (dev\<lparr>dev_errnum := - STRELA_ERR_BAD_ARG\<rparr>)
         else do {
           ptr \<leftarrow> strela_buffer_to_ptr dev buffer;
           (m, fl) \<leftarrow> free_list_free (dev_mem dev) (buffer_free_list dev) ptr;
           Some (dev\<lparr>dev_mem := m, buffer_free_list := fl\<rparr>)
         })
      else Some dev)"

definition strela_buffer_free_all :: "strela_dev \<Rightarrow> strela_dev" where
  "strela_buffer_free_all dev =
     (if strela_dev_ok dev then
        (let (m, fl) = free_list_free_all (dev_mem dev) (buffer_free_list dev) in dev\<lparr>dev_mem := m, buffer_free_list := fl\<rparr>)
      else dev)"

definition strela_buffer_sync :: "int \<Rightarrow> strela_dev \<Rightarrow> strela_buffer \<Rightarrow> u32 \<Rightarrow> u32 \<Rightarrow> u32 \<Rightarrow> strela_dev" where
  "strela_buffer_sync ret dev buffer flags offset count =
     (let total = STRELA_TENSOR_MEMORY_SIZE div 4;
          dev = (if strela_dev_ok dev \<and> (\<not> buffer_valid buffer
                    \<or> size_words buffer < offset
                    \<or> size_words buffer - offset < count
                    \<or> total < offset_words_from_base buffer
                    \<or> total - offset_words_from_base buffer < size_words buffer)
                 then dev\<lparr>dev_errnum := - STRELA_ERR_BAD_ARG\<rparr> else dev)
      in if strela_dev_ok dev
         then strela_sync ret dev (tensors_bo_handle dev) flags (offset_words_from_base buffer + offset) count
         else dev)"

definition strela_buffer_flush :: "int \<Rightarrow> strela_dev \<Rightarrow> strela_buffer \<Rightarrow> u32 \<Rightarrow> u32 \<Rightarrow> strela_dev" where
  "strela_buffer_flush ret dev buffer offset count =
     (let CACHELINE_WORDS = CACHELINE_SIZE div 4;
          mask = NOT (CACHELINE_WORDS - 1);
          start = offset AND mask;
          stop = (offset + count + CACHELINE_WORDS - 1) AND mask
      in if count \<noteq> 0
         then strela_buffer_sync ret dev buffer (DRM_STRELA_SYNC_FINI OR DRM_STRELA_SYNC_WRITE) start (stop - start)
         else dev)"

definition is_aligned :: "u32 \<Rightarrow> u32 \<Rightarrow> bool" where
  "is_aligned ptr align \<longleftrightarrow> ptr mod align = 0"

definition strela_buffer_inval :: "int \<Rightarrow> strela_dev \<Rightarrow> strela_buffer \<Rightarrow> u32 \<Rightarrow> u32 \<Rightarrow> strela_dev" where
  "strela_buffer_inval ret dev buffer offset count =
     (let dev = (if \<not> is_aligned (offset * 4) CACHELINE_SIZE \<or> \<not> is_aligned (count * 4) CACHELINE_SIZE
                 then dev\<lparr>dev_errnum := - STRELA_ERR_BAD_ARG\<rparr> else dev)
      in strela_buffer_sync ret dev buffer (DRM_STRELA_SYNC_PREP OR DRM_STRELA_SYNC_READ) offset count)"

end
