(* ===== verification/LibJob.thy ===== *)
theory LibJob
  imports LibDev
begin

text \<open>
  The jobs of the user library: sixteen slots per device, each free, configured, submitted or done.
  A configured slot owns a sync object, a submitted one usually the descriptor of its fence.  The
  outcomes of the system calls are inputs; waiting for ever for a fence is a call that returns when
  it has signalled.
\<close>

section \<open>Operations\<close>

definition zero_submit :: drm_strela_submit where
  "zero_submit = \<lparr>sub_config = \<lparr>bd_handle = 0, bd_offset = 0, bd_count = 0\<rparr>,
     sub_inputs = replicate STRELA_NUM_IO_COLS \<lparr>bd_handle = 0, bd_offset = 0, bd_count = 0, bd_stride = 0\<rparr>,
     sub_outputs = replicate STRELA_NUM_IO_COLS \<lparr>bd_handle = 0, bd_offset = 0, bd_count = 0\<rparr>,
     sub_out_syncobj = 0, sub_flags = 0, sub_in_syncobj = 0, sub_pad = 0\<rparr>"

definition zero_slot :: strela_job_slot where
  "zero_slot = \<lparr>slot_phase = STRELA_JOB_FREE, slot_submit = zero_submit, slot_fence_fd = 0, slot_status = 0\<rparr>"

definition set_slot :: "nat \<Rightarrow> strela_job_slot \<Rightarrow> strela_dev \<Rightarrow> strela_dev" where
  "set_slot i slot dev = dev\<lparr>dev_jobs := (dev_jobs dev)[i := slot]\<rparr>"

text \<open>Whether the calls of a release succeed: the wait, the close and the destruction of the sync object.
  The library aborts when one does not.\<close>

record release_env =
  rel_wait :: bool
  rel_close :: bool
  rel_destroy :: bool

definition strela_job_slot_finish :: "release_env \<Rightarrow> strela_dev \<Rightarrow> nat \<Rightarrow> strela_dev option" where
  "strela_job_slot_finish env dev i =
     (let slot = dev_jobs dev ! i in
      if slot_phase slot \<noteq> STRELA_JOB_SUBMITTED then Some dev
      else do {
        assert_c (rel_wait env);
        let dev = log_calls [if slot_fence_fd slot \<noteq> - 1 then Waited_fence (slot_fence_fd slot)
                             else Waited_syncobj (sub_out_syncobj (slot_submit slot))] dev;
        Some (set_slot i (slot\<lparr>slot_phase := STRELA_JOB_DONE\<rparr>) dev)
      })"

definition strela_job_slot_release :: "release_env \<Rightarrow> strela_dev \<Rightarrow> nat \<Rightarrow> strela_dev option" where
  "strela_job_slot_release env dev i = do {
     assert_c (strela_dev_initialized dev);
     dev \<leftarrow> strela_job_slot_finish env dev i;
     let slot = dev_jobs dev ! i;
     if slot_phase slot \<noteq> STRELA_JOB_FREE then do {
       dev \<leftarrow> (if slot_fence_fd slot \<noteq> - 1 then do {
                  assert_c (rel_close env);
                  Some (log_calls [Fd_closed (slot_fence_fd slot)] dev)
                } else Some dev);
       dev \<leftarrow> (if sub_out_syncobj (slot_submit slot) \<noteq> 0 then do {
                  assert_c (rel_destroy env);
                  Some (log_calls [Syncobj_destroyed (sub_out_syncobj (slot_submit slot))] dev)
                } else Some dev);
       Some (set_slot i (zero_slot\<lparr>slot_fence_fd := - 1\<rparr>) dev)
     } else Some dev
   }"

primrec release_all :: "(nat \<Rightarrow> release_env) \<Rightarrow> nat list \<Rightarrow> strela_dev \<Rightarrow> strela_dev option" where
  "release_all env [] dev = Some dev"
| "release_all env (i # is) dev = Option.bind (strela_job_slot_release (env i) dev i) (release_all env is)"

definition strela_job_free_all :: "(nat \<Rightarrow> release_env) \<Rightarrow> strela_dev \<Rightarrow> strela_dev option" where
  "strela_job_free_all env dev =
     (if strela_dev_ok dev then release_all env [0..<length (dev_jobs dev)] dev else Some dev)"

record strela_conf =
  inp0_offset :: u32
  inp0_count :: u32
  inp0_stride :: u32
  inp1_offset :: u32
  inp1_count :: u32
  inp1_stride :: u32
  inp2_offset :: u32
  inp2_count :: u32
  inp2_stride :: u32
  inp3_offset :: u32
  inp3_count :: u32
  inp3_stride :: u32
  out0_offset :: u32
  out0_count :: u32
  out1_offset :: u32
  out1_count :: u32
  out2_offset :: u32
  out2_count :: u32
  out3_offset :: u32
  out3_count :: u32

text \<open>The first free slot.\<close>

primrec find_free_slot :: "nat \<Rightarrow> strela_job_slot list \<Rightarrow> nat option" where
  "find_free_slot i [] = None"
| "find_free_slot i (s # ss) = (if slot_phase s = STRELA_JOB_FREE then Some i else find_free_slot (i + 1) ss)"

definition conf_submit :: "strela_dev \<Rightarrow> strela_kernel \<Rightarrow> strela_conf \<Rightarrow> u32 \<Rightarrow> drm_strela_submit" where
  "conf_submit dev krn conf syncobj =
     (let tensors = tensors_bo_handle dev;
          inp = (\<lambda>ofs cnt str. \<lparr>bd_handle = tensors, bd_offset = ofs, bd_count = cnt, bd_stride = str\<rparr>);
          out = (\<lambda>ofs cnt. \<lparr>bd_handle = tensors, bd_offset = ofs, bd_count = cnt\<rparr>)
      in \<lparr>sub_config = \<lparr>bd_handle = kernels_bo_handle dev, bd_offset = kernel_handle krn * STRELA_KERNEL_SIZE, bd_count = STRELA_KERNEL_SIZE\<rparr>,
          sub_inputs = [inp (inp0_offset conf) (inp0_count conf) (inp0_stride conf),
                        inp (inp1_offset conf) (inp1_count conf) (inp1_stride conf),
                        inp (inp2_offset conf) (inp2_count conf) (inp2_stride conf),
                        inp (inp3_offset conf) (inp3_count conf) (inp3_stride conf)],
          sub_outputs = [out (out0_offset conf) (out0_count conf), out (out1_offset conf) (out1_count conf),
                         out (out2_offset conf) (out2_count conf), out (out3_offset conf) (out3_count conf)],
          sub_out_syncobj = syncobj, sub_flags = 0, sub_in_syncobj = 0, sub_pad = 0\<rparr>)"

text \<open>\<open>create\<close> is the outcome of creating the sync object: its handle, or the error.  A failure releases the
  slot it had picked, which is free and stays so.\<close>

definition strela_job_config ::
  "release_env \<Rightarrow> int + u32 \<Rightarrow> strela_dev \<Rightarrow> strela_kernel \<Rightarrow> strela_conf \<Rightarrow> (strela_dev \<times> strela_job_lib) option" where
  "strela_job_config env create dev krn conf =
     (let res = \<lparr>job_valid = False, job_handle = 0\<rparr>;
          dev = (if strela_dev_ok dev \<and> (\<not> kernel_valid krn \<or> 128 \<le> kernel_handle krn)
                 then dev\<lparr>dev_errnum := - STRELA_ERR_BAD_ARG\<rparr> else dev);
          job = (if strela_dev_ok dev then find_free_slot 0 (dev_jobs dev) else None);
          dev = (if strela_dev_ok dev \<and> job = None then dev\<lparr>dev_errnum := - STRELA_ERR_NO_MEM\<rparr> else dev);
          (dev, handle) =
            (if strela_dev_ok dev then
               (case create of Inl e \<Rightarrow> (dev\<lparr>dev_errnum := e\<rparr>, 0)
                | Inr h \<Rightarrow> (log_calls [Syncobj_created h] dev, h))
             else (dev, 0))
      in if strela_dev_ok dev then
           Some (set_slot (the job) ((dev_jobs dev ! the job)\<lparr>slot_phase := STRELA_JOB_CONFIGURED, slot_fence_fd := - 1,
                   slot_submit := conf_submit dev krn conf handle\<rparr>) dev,
                 \<lparr>job_valid = True, job_handle = word_of_nat (the job)\<rparr>)
         else (case job of None \<Rightarrow> Some (dev, res)
               | Some i \<Rightarrow> map_option (\<lambda>dev. (dev, res)) (strela_job_slot_release env dev i)))"

text \<open>Sets of phases are bit sets; the test is true for a phase that is not in the set.\<close>

fun phase_number :: "strela_job_phase_lib \<Rightarrow> nat" where
  "phase_number STRELA_JOB_FREE = 0"
| "phase_number STRELA_JOB_CONFIGURED = 1"
| "phase_number STRELA_JOB_SUBMITTED = 2"
| "phase_number STRELA_JOB_DONE = 3"

definition phase_singleton :: "strela_job_phase_lib \<Rightarrow> u32" where
  "phase_singleton phase = push_bit (phase_number phase) 1"

definition phase_is_in :: "strela_job_phase_lib \<Rightarrow> u32 \<Rightarrow> bool" where
  "phase_is_in phase bit_set \<longleftrightarrow> \<not> (phase_singleton phase AND bit_set \<noteq> 0)"

definition strela_job_slot_get :: "strela_dev \<Rightarrow> strela_job_lib \<Rightarrow> u32 \<Rightarrow> (strela_dev \<times> nat option) option" where
  "strela_job_slot_get dev job valid_phases_set =
     (let (dev, slot) =
        (if strela_dev_ok dev then
           (if \<not> job_valid job \<or> length (dev_jobs dev) \<le> unat (job_handle job)
               \<or> phase_is_in (slot_phase (dev_jobs dev ! unat (job_handle job))) valid_phases_set
            then (dev\<lparr>dev_errnum := - STRELA_ERR_BAD_ARG\<rparr>, None)
            else (dev, Some (unat (job_handle job))))
         else (dev, None))
      in do {
        assert_c ((slot \<noteq> None) = strela_dev_ok dev);
        Some (dev, slot)
      })"

definition strela_job_free :: "release_env \<Rightarrow> strela_dev \<Rightarrow> strela_job_lib \<Rightarrow> strela_dev option" where
  "strela_job_free env dev job = do {
     (dev, slot) \<leftarrow> strela_job_slot_get dev job (NOT 0);
     if strela_dev_ok dev then strela_job_slot_release env dev (the slot) else Some dev
   }"

text \<open>The outcomes of a submit: the ioctl, the close of the old fence, and the export of the new one.\<close>

record jsubmit_env =
  js_submit :: int
  js_close :: bool
  js_export :: "int + int"

definition strela_job_submit :: "jsubmit_env \<Rightarrow> strela_dev \<Rightarrow> strela_job_lib \<Rightarrow> (strela_dev \<times> bool) option" where
  "strela_job_submit env dev job = do {
     (dev, slot) \<leftarrow> strela_job_slot_get dev job (phase_singleton STRELA_JOB_CONFIGURED OR phase_singleton STRELA_JOB_DONE);
     let i = the slot;
     let dev = (if strela_dev_ok dev then
                  (let dev = log_calls [Ioctl_submit (slot_submit (dev_jobs dev ! i))] dev
                   in if js_submit env \<noteq> 0 then dev\<lparr>dev_errnum := js_submit env\<rparr> else dev)
                else dev);
     dev \<leftarrow> (if strela_dev_ok dev then do {
        dev \<leftarrow> (if slot_phase (dev_jobs dev ! i) = STRELA_JOB_DONE then do {
                   assert_c (js_close env);
                   Some (log_calls [Fd_closed (slot_fence_fd (dev_jobs dev ! i))] dev)
                 } else Some dev);
        let dev = set_slot i ((dev_jobs dev ! i)\<lparr>slot_phase := STRELA_JOB_SUBMITTED\<rparr>) dev;
        Some (case js_export env of
           Inl e \<Rightarrow> dev\<lparr>dev_errnum := e\<rparr>
         | Inr fd \<Rightarrow> log_calls [Fd_opened fd] (set_slot i ((dev_jobs dev ! i)\<lparr>slot_fence_fd := fd\<rparr>) dev))
      } else Some dev);
     Some (dev, strela_dev_ok dev)
   }"

datatype poll_result = Poll_error int | Poll_timeout | Poll_ready

definition EINTR :: int where "EINTR = 4"

text \<open>\<open>info\<close> is the status of the fence, 1 or the negative error of the job, or the error of the ioctl.\<close>

definition strela_job_update :: "poll_result \<Rightarrow> int + int \<Rightarrow> strela_dev \<Rightarrow> nat \<Rightarrow> strela_dev option" where
  "strela_job_update ready info dev i = do {
     let slot = dev_jobs dev ! i;
     assert_c (phase_number STRELA_JOB_CONFIGURED < phase_number (slot_phase slot));
     Some (if slot_phase slot \<noteq> STRELA_JOB_DONE then
       (case ready of
          Poll_error e \<Rightarrow> if e \<noteq> EINTR then dev\<lparr>dev_errnum := e\<rparr> else dev
        | Poll_timeout \<Rightarrow> dev
        | Poll_ready \<Rightarrow>
            (case info of Inl e \<Rightarrow> dev\<lparr>dev_errnum := e\<rparr>
             | Inr st \<Rightarrow> set_slot i (slot\<lparr>slot_status := st, slot_phase := STRELA_JOB_DONE\<rparr>) dev))
       else dev)
   }"

definition in_driver :: u32 where
  "in_driver = (phase_singleton STRELA_JOB_SUBMITTED OR phase_singleton STRELA_JOB_DONE)"

datatype strela_job_state = STRELA_JOB_PENDING | STRELA_JOB_OK | STRELA_JOB_FAILED

definition strela_job_poll ::
  "poll_result \<Rightarrow> int + int \<Rightarrow> strela_dev \<Rightarrow> strela_job_lib \<Rightarrow> (strela_dev \<times> strela_job_state) option" where
  "strela_job_poll ready info dev job = do {
     (dev, slot) \<leftarrow> strela_job_slot_get dev job in_driver;
     if strela_dev_ok dev then do {
       dev \<leftarrow> strela_job_update ready info dev (the slot);
       let s = dev_jobs dev ! the slot;
       Some (dev, if slot_phase s \<noteq> STRELA_JOB_DONE then STRELA_JOB_PENDING
                  else if 0 < slot_status s then STRELA_JOB_OK else STRELA_JOB_FAILED)
     } else Some (dev, STRELA_JOB_FAILED)
   }"

definition strela_job_wait :: "poll_result \<Rightarrow> int + int \<Rightarrow> strela_dev \<Rightarrow> strela_job_lib \<Rightarrow> (strela_dev \<times> bool) option" where
  "strela_job_wait ready info dev job = do {
     (dev, slot) \<leftarrow> strela_job_slot_get dev job in_driver;
     dev \<leftarrow> (if strela_dev_ok dev then strela_job_update ready info dev (the slot) else Some dev);
     Some (dev, strela_dev_ok dev \<and> slot_phase (dev_jobs dev ! the slot) = STRELA_JOB_DONE)
   }"

definition strela_job_fd :: "strela_dev \<Rightarrow> strela_job_lib \<Rightarrow> (strela_dev \<times> int) option" where
  "strela_job_fd dev job = do {
     (dev, slot) \<leftarrow> strela_job_slot_get dev job in_driver;
     Some (dev, if strela_dev_ok dev then slot_fence_fd (dev_jobs dev ! the slot) else - 1)
   }"

text \<open>The state of a sync object, which no other function uses: it is exported as a file, whose information
  has the status of the fence.  \<open>export\<close> is the descriptor or the \<^verbatim>\<open>errno\<close>; the outcome of the close
  is not looked at.\<close>

definition ioctl_syncobj_status :: "int + int \<Rightarrow> int + int \<Rightarrow> lcall list \<times> int" where
  "ioctl_syncobj_status export info =
     (case export of Inl e \<Rightarrow> ([], - e)
      | Inr fd \<Rightarrow>
          let ret = (case info of Inl e \<Rightarrow> - e | Inr status \<Rightarrow> status)
          in ([Fd_opened fd, Fd_closed fd], ret))"

section \<open>The old interface\<close>

definition strela_config ::
  "release_env \<Rightarrow> release_env \<Rightarrow> int + u32 \<Rightarrow> strela_dev \<Rightarrow> strela_kernel \<Rightarrow> strela_conf \<Rightarrow> strela_dev option" where
  "strela_config env env' create dev krn conf = do {
     dev \<leftarrow> (if job_valid (backward_compat_job dev) then strela_job_free env dev (backward_compat_job dev) else Some dev);
     (dev, job) \<leftarrow> strela_job_config env' create dev krn conf;
     Some (dev\<lparr>backward_compat_job := job\<rparr>)
   }"

definition strela_execute ::
  "jsubmit_env \<Rightarrow> poll_result \<Rightarrow> int + int \<Rightarrow> poll_result \<Rightarrow> int + int \<Rightarrow> strela_dev \<Rightarrow> (strela_dev \<times> strela_job_state) option" where
  "strela_execute env ready info ready' info' dev = do {
     let job = backward_compat_job dev;
     (dev, submitted) \<leftarrow> strela_job_submit env dev job;
     (dev, finished) \<leftarrow> strela_job_wait ready info dev job;
     (dev, state) \<leftarrow> strela_job_poll ready' info' dev job;
     assert_c (state \<noteq> STRELA_JOB_PENDING);
     Some (dev, state)
   }"

end
