(* ===== verification/LibBuffer.thy ===== *)
theory LibBuffer
  imports LibDev
begin

text \<open>
  Buffers of the user library: allocating and freeing them on the free list that lives in the tensor
  buffer object, handles and pointers, copying data, and the cache synchronisation that the driver
  checks again.  The heap is used through the contract \<open>heap_allocator\<close>.
\<close>

section \<open>The invariant\<close>

text \<open>The free list manages the whole mapping of the tensors' buffer object, which starts on a page; every
  block was allocated with an alignment of one cache line.\<close>

definition heap_inv :: "strela_dev \<Rightarrow> layout \<Rightarrow> bool" where
  "heap_inv d bs \<longleftrightarrow> fl_rep (dev_mem d) (buffer_free_list d) bs
     \<and> fl_region (buffer_free_list d) = (unat (tensors_bo_map d), unat (tensors_bo_map d) + 52428800)
     \<and> 4096 dvd unat (tensors_bo_map d) \<and> (\<forall>b \<in> useds bs. 64 dvd b_ptr b)"

text \<open>A handle of the library for a block in use.\<close>

definition owns :: "strela_dev \<Rightarrow> layout \<Rightarrow> strela_buffer \<Rightarrow> block \<Rightarrow> bool" where
  "owns d bs buf b \<longleftrightarrow> buffer_valid buf \<and> b \<in> useds bs
     \<and> b_ptr b = unat (tensors_bo_map d) + unat (offset_words_from_base buf) * 4 \<and> b_orig b = unat (size_words buf) * 4"

lemma heap_inv_fields [simp]:
  "heap_inv (d\<lparr>dev_errnum := e\<rparr>) bs = heap_inv d bs" "heap_inv (log_calls cs d) bs = heap_inv d bs"
  "heap_inv (d\<lparr>dev_jobs := js\<rparr>) bs = heap_inv d bs"
  by (simp_all add: heap_inv_def)

lemma owns_fields [simp]:
  "owns (d\<lparr>dev_errnum := e\<rparr>) bs buf b = owns d bs buf b" "owns (log_calls cs d) bs buf b = owns d bs buf b"
  "owns (d\<lparr>dev_mem := m\<rparr>) bs buf b = owns d bs buf b"
  by (simp_all add: owns_def)

lemma block_inside:
  assumes "heap_inv d bs" "b \<in> useds bs"
  shows "unat (tensors_bo_map d) + 12 \<le> b_ptr b" "b_ptr b + b_orig b \<le> unat (tensors_bo_map d) + 52428800"
    "unat (tensors_bo_map d) + 52428800 < 4294967296" "\<not> is_free b" "block_ok b" "b \<in> set bs"
proof -
  have rep: "fl_rep (dev_mem d) (buffer_free_list d) bs"
    and rg: "fl_region (buffer_free_list d) = (unat (tensors_bo_map d), unat (tensors_bo_map d) + 52428800)"
    using assms(1) by (auto simp: heap_inv_def)
  have l: "layout_ok (unat (tensors_bo_map d)) (unat (tensors_bo_map d) + 52428800) bs" "unat (tensors_bo_map d) + 52428800 < 4294967296"
    using flh.rep_layout[OF rep] rg by auto
  show b: "\<not> is_free b" "block_ok b" "b \<in> set bs" using assms(2) l(1) by (auto simp: useds_def layout_ok_def)
  show "unat (tensors_bo_map d) + 52428800 < 4294967296" by (rule l(2))
  have "unat (tensors_bo_map d) \<le> b_addr b" "b_end b \<le> unat (tensors_bo_map d) + 52428800"
    using tiles_inside[of _ _ bs b] l(1) b(3) by (auto simp: layout_ok_def)
  then show "unat (tensors_bo_map d) + 12 \<le> b_ptr b" "b_ptr b + b_orig b \<le> unat (tensors_bo_map d) + 52428800"
    using b(1,2) by (cases b; auto simp: b_ptr_def)+
qed

lemma owns_ptr:
  assumes "heap_inv d bs" "owns d bs buf b"
  shows "unat (tensors_bo_map d + offset_words_from_base buf * 4) = b_ptr b"
    "unat (offset_words_from_base buf * 4) = unat (offset_words_from_base buf) * 4"
    "unat (size_words buf * 4) = b_orig b" "16 dvd unat (offset_words_from_base buf)"
    "unat (offset_words_from_base buf) + unat (size_words buf) \<le> 13107200"
proof -
  have o: "b \<in> useds bs" "b_ptr b = unat (tensors_bo_map d) + unat (offset_words_from_base buf) * 4" "b_orig b = unat (size_words buf) * 4"
    using assms(2) by (auto simp: owns_def)
  note bi = block_inside[OF assms(1) o(1)]
  show u: "unat (offset_words_from_base buf * 4) = unat (offset_words_from_base buf) * 4"
    using unat_mult_nowrap[of "offset_words_from_base buf" 4] o(2) bi by simp
  show "unat (tensors_bo_map d + offset_words_from_base buf * 4) = b_ptr b"
    using u o(2) bi by (subst unat_add_nowrap) simp_all
  show "unat (size_words buf * 4) = b_orig b" using unat_mult_nowrap[of "size_words buf" 4] o(3) bi by simp
  show "unat (offset_words_from_base buf) + unat (size_words buf) \<le> 13107200" using o(2,3) bi(2) by simp
  have "64 dvd b_ptr b" "64 dvd unat (tensors_bo_map d)" using assms(1) o(1)
    by (auto simp: heap_inv_def intro: dvd_trans[of 64 4096])
  then have "64 dvd unat (offset_words_from_base buf) * 4" unfolding o(2) by (simp add: dvd_add_right_iff)
  then show "16 dvd unat (offset_words_from_base buf)" by presburger
qed

section \<open>An example device\<close>

definition sample_fl :: Free_List where
  "sample_fl = \<lparr>fl_data = 0x10000000, fl_size = 52428800, fl_used = 0, fl_head = 0, fl_policy = Placement_Policy_Find_First\<rparr>"

definition sample_dev :: "mem \<Rightarrow> Free_List \<Rightarrow> strela_dev" where
  "sample_dev m fl = \<lparr>dev_fd = 3, tensors_bo_handle = 2, tensors_bo_map = 0x10000000, kernels_bo_handle = 1,
     kernels_bo_map = 0x20000000, backward_compat_job = \<lparr>job_valid = False, job_handle = 0\<rparr>, dev_initialized = True,
     dev_errnum = 0, kernel_pool = \<lparr>p_buf = 0x20000000, p_buf_len = 40960, p_chunk_size = 320, p_head = 0\<rparr>,
     buffer_free_list = fl, dev_jobs = [], dev_mem = m, dev_calls = []\<rparr>"

text \<open>A device with nothing allocated, and one with a buffer of 25 words.\<close>

lemma sample_empty:
  obtains m fl where "strela_dev_ok (sample_dev m fl)" "heap_inv (sample_dev m fl) [Free 0x10000000 52428800]"
proof -
  obtain m fl where fa: "free_list_free_all (\<lambda>_. 0) sample_fl = (m, fl)" by (metis surj_pair)
  note r = free_list_free_all_rep[OF _ _ _ _ fa]
  have "fl_rep m fl [Free 0x10000000 52428800]" "fl_region fl = (0x10000000, 0x10000000 + 52428800)"
    using r(1,2) by (simp_all add: sample_fl_def fl_region_def)
  then show thesis
    by (intro that[of m fl]) (simp_all add: strela_dev_ok_def sample_dev_def strela_err heap_inv_def)
qed

lemma sample_used:
  obtains m fl where "strela_dev_ok (sample_dev m fl)"
    "heap_inv (sample_dev m fl) [Used 0x10000000 192 52 100, Free 0x100000C0 52428608]"
    "owns (sample_dev m fl) [Used 0x10000000 192 52 100, Free 0x100000C0 52428608]
       \<lparr>buffer_valid = True, offset_words_from_base = 16, size_words = 25\<rparr> (Used 0x10000000 192 52 100)"
proof -
  obtain m fl where e: "strela_dev_ok (sample_dev m fl)" "heap_inv (sample_dev m fl) [Free 0x10000000 52428800]" by (rule sample_empty)
  then have rep: "fl_rep m fl [Free 0x10000000 52428800]"
    and rg: "fl_region fl = (0x10000000, 0x10000000 + 52428800)" by (simp_all add: heap_inv_def sample_dev_def)
  have eff: "eff_size 100 64 = 128" "eff_align 64 = 64" "alloc_request 100 64"
    by (simp_all add: eff_size_def eff_align_def round_up_def alloc_request_def is_power_of_two_def)
  have pad: "pad_of 0x10000000 64 12 = 64" by (simp add: pad_of_def round_up_def)
  have sp: "[Free 0x10000000 52428800] = xs @ Free a s # ys \<longleftrightarrow> xs = [] \<and> a = 0x10000000 \<and> s = 52428800 \<and> ys = []" for xs a s ys
    by (cases xs) auto
  obtain m' fl' where "fl_rep m' fl' [Used 0x10000000 192 52 100, Free 0x100000C0 52428608]"
    "fl_data fl' = fl_data fl" "fl_size fl' = fl_size fl"
    using free_list_alloc_rep[OF rep eff(3)] pad unfolding sp eff by (auto simp: fits_def carve_def)
  then show thesis using rg e(1)
    by (intro that[of m' fl'])
       (auto simp: strela_dev_ok_def sample_dev_def strela_err heap_inv_def fl_region_def owns_def b_ptr_def)
qed

section \<open>Allocation and freeing\<close>

text \<open>The device and the handle after the heap has handed out a block.\<close>

lemma alloc_block_owned:
  assumes "heap_inv d bs" and b: "eff_align 64 dvd unat p" "changed_only (dev_mem d) m' (free_bytes bs)" "fl_rep m' fl' bs'"
      "useds bs' = insert b (useds bs)" "b_ptr b = unat p" "b_orig b = unat words * 4" "{b_addr b..<b_end b} \<subseteq> free_bytes bs"
    and rg': "fl_region fl' = fl_region (buffer_free_list d)"
  defines "d' \<equiv> d\<lparr>dev_mem := m', buffer_free_list := fl'\<rparr>"
    and "buf \<equiv> \<lparr>buffer_valid = True, offset_words_from_base = (p - tensors_bo_map d) div 4, size_words = words\<rparr>"
  shows "heap_inv d' bs'" "owns d' bs' buf b" "b \<notin> useds bs" "\<forall>c \<in> useds bs. payload b \<inter> payload c = {}"
    "\<forall>c \<in> useds bs. \<forall>x. unat x \<in> payload c \<longrightarrow> dev_mem d' x = dev_mem d x"
proof -
  have rep: "fl_rep (dev_mem d) (buffer_free_list d) bs"
    and rg: "fl_region (buffer_free_list d) = (unat (tensors_bo_map d), unat (tensors_bo_map d) + 52428800)"
    and pg: "4096 dvd unat (tensors_bo_map d)" and al: "\<forall>b \<in> useds bs. 64 dvd b_ptr b"
    using assms(1) by (auto simp: heap_inv_def)
  have d64: "64 dvd unat p" using b(1) by (simp add: eff_align_def)
  show hi: "heap_inv d' bs'" using b(3,4,5) rg rg' pg al d64 by (simp add: heap_inv_def d'_def)
  note bi = block_inside[OF hi, of b]
  have bu: "b \<in> useds bs'" using b(4) by simp
  have ge: "unat (tensors_bo_map d) \<le> unat p" using bi(1)[OF bu] b(5) by (simp add: d'_def)
  have d4: "4 dvd unat p - unat (tensors_bo_map d)"
    using d64 pg by (intro dvd_diff_nat) (auto intro: dvd_trans[of 4 64] dvd_trans[of 4 4096])
  have "unat ((p - tensors_bo_map d) div 4) = (unat p - unat (tensors_bo_map d)) div 4"
    using unat_sub_nowrap[OF ge] by (simp add: unat_div)
  then show "owns d' bs' buf b" using bu b(5,6) d4 ge by (simp add: owns_def d'_def buf_def)
  have lay: "layout_ok (fst (fl_region fl')) (snd (fl_region fl')) bs'" using flh.rep_layout[OF b(3)] by blast
  show nb: "b \<notin> useds bs" using carved_fresh[OF _ lay bu b(7)] flh.rep_layout[OF rep] by blast
  show "\<forall>c \<in> useds bs. payload b \<inter> payload c = {}" using payload_disjoint[OF lay bu] b(4) nb by auto
  show "\<forall>c \<in> useds bs. \<forall>x. unat x \<in> payload c \<longrightarrow> dev_mem d' x = dev_mem d x"
    using flh.bytes_kept[OF rep _ b(2)] by (simp add: d'_def)
qed

lemma buffer_alloc_result:
  assumes "strela_dev_ok d" "heap_inv d bs" "unat words \<le> 1073741788"
  shows "\<exists>d' buf. strela_buffer_alloc d words = Some (d', buf)
    \<and> (d' = d\<lparr>dev_errnum := - STRELA_ERR_NO_MEM\<rparr> \<and> \<not> buffer_valid buf
         \<and> (\<forall>b \<in> set bs. \<not> fits (eff_size (words * 4) 64) 64 b)
       \<or> (\<exists>bs' b m fl. d' = d\<lparr>dev_mem := m, buffer_free_list := fl\<rparr> \<and> changed_only (dev_mem d) m (free_bytes bs)
            \<and> strela_dev_ok d' \<and> heap_inv d' bs' \<and> useds bs' = insert b (useds bs) \<and> b \<notin> useds bs
            \<and> owns d' bs' buf b \<and> size_words buf = words \<and> 16 dvd unat (offset_words_from_base buf)
            \<and> (\<forall>c \<in> useds bs. payload b \<inter> payload c = {})
            \<and> (\<forall>c \<in> useds bs. \<forall>x. unat x \<in> payload c \<longrightarrow> dev_mem d' x = dev_mem d x)))"
proof -
  have rep: "fl_rep (dev_mem d) (buffer_free_list d) bs" using assms(2) by (auto simp: heap_inv_def)
  have u4: "unat (words * 4) = unat words * 4" using unat_mult_nowrap[of words 4] assms(3) by simp
  have le: "words \<le> words * 4" using u4 by (simp add: word_le_nat_alt)
  have req: "alloc_request (words * 4) 64"
    using assms(3) u4 by (simp add: alloc_request_def eff_align_def is_power_of_two_def)
  obtain m' fl' p where run: "free_list_alloc (dev_mem d) (buffer_free_list d) (words * 4) 64 = Some (m', fl', p)"
    and rg': "fl_region fl' = fl_region (buffer_free_list d)"
    and c: "p = 0 \<and> m' = dev_mem d \<and> fl' = buffer_free_list d \<and> (\<forall>b \<in> set bs. \<not> fits (eff_size (words * 4) 64) (eff_align 64) b)
       \<or> p \<noteq> 0 \<and> eff_align 64 dvd unat p \<and> changed_only (dev_mem d) m' (free_bytes bs)
         \<and> (\<exists>bs' b. fl_rep m' fl' bs' \<and> useds bs' = insert b (useds bs) \<and> b_ptr b = unat p
              \<and> b_orig b = unat (words * 4) \<and> \<not> is_free b \<and> {b_addr b..<b_end b} \<subseteq> free_bytes bs)"
    using flh.alloc_law[OF rep req] by blast
  show ?thesis
  proof (cases "p = 0")
    case True
    then have e: "m' = dev_mem d" "fl' = buffer_free_list d" using c by auto
    have "strela_buffer_alloc d words = Some (d\<lparr>dev_errnum := - STRELA_ERR_NO_MEM\<rparr>, null_buffer)"
      using assms(1) le run True by (simp add: strela_buffer_alloc_def Let_def e)
    moreover have "\<not> buffer_valid null_buffer" by (simp add: null_buffer_def)
    moreover have "\<forall>b \<in> set bs. \<not> fits (eff_size (words * 4) 64) 64 b" using c True by (simp add: eff_align_def)
    ultimately show ?thesis by blast
  next
    case False
    then obtain bs' b where b: "eff_align 64 dvd unat p" "changed_only (dev_mem d) m' (free_bytes bs)" "fl_rep m' fl' bs'"
      "useds bs' = insert b (useds bs)" "b_ptr b = unat p" "b_orig b = unat words * 4" "\<not> is_free b"
      "{b_addr b..<b_end b} \<subseteq> free_bytes bs" using c u4 by auto
    let ?d = "d\<lparr>dev_mem := m', buffer_free_list := fl'\<rparr>"
    let ?buf = "\<lparr>buffer_valid = True, offset_words_from_base = (p - tensors_bo_map d) div 4, size_words = words\<rparr>"
    note own = alloc_block_owned[OF assms(2) b(1-6) b(8) rg']
    have run': "strela_buffer_alloc d words = Some (?d, ?buf)"
      using assms(1) le run False by (simp add: strela_buffer_alloc_def Let_def internal_ptr_to_buffer_offset_def)
    have ok: "strela_dev_ok ?d" using assms(1) by simp
    show ?thesis
      by (intro exI[of _ ?d] exI[of _ ?buf] conjI[OF run'] disjI2 exI[of _ bs'] exI[of _ b] exI[of _ m'] exI[of _ fl'])
         (use ok b(2,4) own owns_ptr(4)[OF own(1,2)] in simp)
  qed
qed

text \<open>C18. \<^verbatim>\<open>strela_buffer_alloc\<close> of a size whose bytes and padding fit the address space either hands out a
  cache-line aligned buffer of exactly that many words inside the tensor memory, not overlapping any
  other, with the contents of the others unchanged; or reports \<^verbatim>\<open>NO_MEM\<close> and changes nothing else, and then no free
  block has room for the buffer, its header and its alignment.\<close>

theorem buffer_alloc_exact:
  assumes "strela_dev_ok d" "heap_inv d bs" "unat words \<le> 1073741788"
  shows "\<exists>d' buf. strela_buffer_alloc d words = Some (d', buf)
    \<and> (d' = d\<lparr>dev_errnum := - STRELA_ERR_NO_MEM\<rparr> \<and> \<not> buffer_valid buf
         \<and> (\<forall>b \<in> set bs. \<not> fits (eff_size (words * 4) 64) 64 b)
       \<or> (\<exists>bs' b. strela_dev_ok d' \<and> heap_inv d' bs' \<and> useds bs' = insert b (useds bs) \<and> b \<notin> useds bs
            \<and> owns d' bs' buf b \<and> size_words buf = words \<and> 16 dvd unat (offset_words_from_base buf)
            \<and> (\<forall>c \<in> useds bs. payload b \<inter> payload c = {})
            \<and> (\<forall>c \<in> useds bs. \<forall>x. unat x \<in> payload c \<longrightarrow> dev_mem d' x = dev_mem d x)))"
  using buffer_alloc_result[OF assms] by blast

theorem buffer_alloc_exact_witness:
  "\<exists>m fl d' buf. strela_buffer_alloc (sample_dev m fl) 25 = Some (d', buf) \<and> buffer_valid buf \<and> size_words buf = 25"
proof -
  obtain m fl where e: "strela_dev_ok (sample_dev m fl)" "heap_inv (sample_dev m fl) [Free 0x10000000 52428800]" by (rule sample_empty)
  have "fits (eff_size (25 * 4) 64) 64 (Free 0x10000000 52428800)"
    by (simp add: fits_def eff_size_def eff_align_def round_up_def pad_of_def)
  then show ?thesis using buffer_alloc_exact[OF e, of 25] by (fastforce simp: owns_def)
qed

lemma used_after_free:
  assumes "heap_inv d bs" "owns d bs buf b" "strela_dev_ok d"
  obtains m' fl' bs' where "strela_buffer_free d buf = Some (d\<lparr>dev_mem := m', buffer_free_list := fl'\<rparr>)"
    "heap_inv (d\<lparr>dev_mem := m', buffer_free_list := fl'\<rparr>) bs'" "useds bs' = useds bs - {b}"
    "changed_only (dev_mem d) m' (free_bytes bs')"
proof -
  have rep: "fl_rep (dev_mem d) (buffer_free_list d) bs" using assms(1) by (simp add: heap_inv_def)
  have b: "b \<in> useds bs" "buffer_valid buf" using assms(2) by (auto simp: owns_def)
  obtain m' fl' bs' where f: "free_list_free (dev_mem d) (buffer_free_list d) (tensors_bo_map d + offset_words_from_base buf * 4) = Some (m', fl')"
    "fl_region fl' = fl_region (buffer_free_list d)" "fl_rep m' fl' bs'" "useds bs' = useds bs - {b}"
    "changed_only (dev_mem d) m' (free_bytes bs')"
    using flh.free_law[OF rep b(1) owns_ptr(1)[OF assms(1,2)]] by blast
  show thesis
    by (rule that[where m' = m' and fl' = fl' and bs' = bs'])
       (use f assms(1,3) b(2) in \<open>auto simp: strela_buffer_free_def strela_buffer_to_ptr_def heap_inv_def\<close>)
qed

text \<open>C19. Freeing a buffer the library handed out removes exactly that buffer; every other buffer keeps its
  contents.\<close>

theorem buffer_free_exact:
  assumes "strela_dev_ok d" "heap_inv d bs" "owns d bs buf b"
  shows "\<exists>d' bs'. strela_buffer_free d buf = Some d' \<and> strela_dev_ok d' \<and> heap_inv d' bs' \<and> useds bs' = useds bs - {b}
    \<and> (\<forall>c \<in> useds bs'. \<forall>x. unat x \<in> payload c \<longrightarrow> dev_mem d' x = dev_mem d x)"
proof -
  obtain m' fl' bs' where f: "strela_buffer_free d buf = Some (d\<lparr>dev_mem := m', buffer_free_list := fl'\<rparr>)"
    "heap_inv (d\<lparr>dev_mem := m', buffer_free_list := fl'\<rparr>) bs'" "useds bs' = useds bs - {b}"
    "changed_only (dev_mem d) m' (free_bytes bs')"
    by (rule used_after_free[OF assms(2,3,1)])
  have "fl_rep m' fl' bs'" using f(2) by (simp add: heap_inv_def)
  then have "m' x = dev_mem d x" if "c \<in> useds bs'" "unat x \<in> payload c" for c x
    using flh.bytes_kept[OF _ that(1) f(4) that(2)] by blast
  then show ?thesis using f(1,2,3) assms(1) by (intro exI[of _ "d\<lparr>dev_mem := m', buffer_free_list := fl'\<rparr>"] exI[of _ bs']) simp
qed

theorem buffer_free_exact_witness:
  "\<exists>m fl d' bs'. strela_buffer_free (sample_dev m fl) \<lparr>buffer_valid = True, offset_words_from_base = 16, size_words = 25\<rparr> = Some d'
    \<and> heap_inv d' bs' \<and> useds bs' = {}"
proof -
  obtain m fl where u: "strela_dev_ok (sample_dev m fl)"
    "heap_inv (sample_dev m fl) [Used 0x10000000 192 52 100, Free 0x100000C0 52428608]"
    "owns (sample_dev m fl) [Used 0x10000000 192 52 100, Free 0x100000C0 52428608]
       \<lparr>buffer_valid = True, offset_words_from_base = 16, size_words = 25\<rparr> (Used 0x10000000 192 52 100)" by (rule sample_used)
  from buffer_free_exact[OF u] show ?thesis by auto
qed

section \<open>Handles and pointers\<close>

text \<open>The handle of a buffer that is not empty can be recovered from its pointer: \<^verbatim>\<open>strela_buffer_from_ptr\<close> after
  \<^verbatim>\<open>strela_buffer_to_ptr\<close> gives the same handle, size included, from the header in front of the buffer.\<close>

theorem buffer_ptr_roundtrip:
  assumes "strela_dev_ok d" "heap_inv d bs" "owns d bs buf b" "size_words buf \<noteq> 0"
  shows "\<exists>p. strela_buffer_to_ptr d buf = Some p \<and> unat p = b_ptr b \<and> strela_buffer_from_ptr d p = Some buf"
proof -
  define p where "p = tensors_bo_map d + offset_words_from_base buf * 4"
  have o: "buffer_valid buf" "b \<in> useds bs" "b_orig b = unat (size_words buf) * 4" using assms(3) by (auto simp: owns_def)
  note op = owns_ptr[OF assms(2,3), folded p_def] and bi = block_inside[OF assms(2) o(2)]
  obtain a s pd og where u: "b = Used a s pd og" using bi(4) by (cases b) auto
  have hd: "ldn (dev_mem d) (a + pd) = og" using assms(2) bi(6) u by (auto simp: heap_inv_def fl_rep_def)
  have up: "unat p = a + pd + 12" using op(1) u by (simp add: b_ptr_def)
  have "unat (p - 12) = a + pd" using up by (simp add: unat_sub_nowrap)
  then have og: "unat (header_orig_size (dev_mem d) (p - 12)) = og"
    using hd by (simp add: header_orig_size_def flip: ldn_unat)
  have sz: "header_orig_size (dev_mem d) (p - 12) = size_words buf * 4"
    using og op(3) u by (simp add: u32_eq_iff)
  have m4: "size_words buf * 4 mod 4 = 0" "size_words buf * 4 div 4 = size_words buf"
    using op(3) o(3) by (simp_all add: u32_eq_iff unat_mod unat_div)
  have ofs: "(p - tensors_bo_map d) div 4 = offset_words_from_base buf"
    using op(2) by (simp add: p_def u32_eq_iff unat_div)
  have "unat (tensors_bo_map d + STRELA_TENSOR_MEMORY_SIZE) = unat (tensors_bo_map d) + 52428800"
    using bi(3) by (subst unat_add_nowrap) (simp_all add: STRELA_TENSOR_MEMORY_SIZE_def)
  moreover have "unat p < unat (tensors_bo_map d) + 52428800"
    using bi(2) op(1) o(3) assms(4) by (simp add: word_neq_0_conv word_less_nat_alt)
  ultimately have range: "tensors_bo_map d \<le> p" "p < tensors_bo_map d + STRELA_TENSOR_MEMORY_SIZE"
    using bi(1) op(1) by (simp_all add: word_le_nat_alt word_less_nat_alt)
  have "strela_buffer_from_ptr d p = Some buf"
    using assms(1) range ofs sz m4 o(1)
    by (simp add: strela_buffer_from_ptr_def internal_ptr_to_buffer_offset_def fl_sizes Let_def)
  then show ?thesis using o(1) assms(1) op(1) by (auto simp: strela_buffer_to_ptr_def p_def)
qed

theorem buffer_ptr_roundtrip_witness:
  "\<exists>m fl p. strela_buffer_to_ptr (sample_dev m fl) \<lparr>buffer_valid = True, offset_words_from_base = 16, size_words = 25\<rparr> = Some p
    \<and> unat p = 0x10000040
    \<and> strela_buffer_from_ptr (sample_dev m fl) p = Some \<lparr>buffer_valid = True, offset_words_from_base = 16, size_words = 25\<rparr>"
proof -
  obtain m fl where u: "strela_dev_ok (sample_dev m fl)"
    "heap_inv (sample_dev m fl) [Used 0x10000000 192 52 100, Free 0x100000C0 52428608]"
    "owns (sample_dev m fl) [Used 0x10000000 192 52 100, Free 0x100000C0 52428608]
       \<lparr>buffer_valid = True, offset_words_from_base = 16, size_words = 25\<rparr> (Used 0x10000000 192 52 100)" by (rule sample_used)
  from buffer_ptr_roundtrip[OF u] show ?thesis by (auto simp: b_ptr_def)
qed

section \<open>Data\<close>

lemma copy_into_payload:
  assumes "heap_inv d bs" "owns d bs buf b"
  defines "p \<equiv> tensors_bo_map d + offset_words_from_base buf * 4" and "n \<equiv> unat (size_words buf * 4)"
  shows "changed_only (dev_mem d) (memmove_n (dev_mem d) p src n) (payload b)"
    "i < n \<Longrightarrow> memmove_n (dev_mem d) p src n (p + word_of_nat i) = dev_mem d (src + word_of_nat i)"
proof -
  note op = owns_ptr[OF assms(1,2), folded p_def n_def]
  have b: "b \<in> useds bs" using assms(2) by (simp add: owns_def)
  note bi = block_inside[OF assms(1) b]
  have le: "unat p + n \<le> 4294967296" using op(1,3) bi by simp
  show "changed_only (dev_mem d) (memmove_n (dev_mem d) p src n) (payload b)"
    using memmove_n_apply[OF le] op(1,3) by (auto simp: changed_only_def payload_def)
  assume i: "i < n"
  then have u: "unat (p + word_of_nat i) = unat p + i" using le op(1,3) bi by (intro unat_add_of_nat) simp
  then show "memmove_n (dev_mem d) p src n (p + word_of_nat i) = dev_mem d (src + word_of_nat i)"
    using i memmove_n_apply[OF le] by simp
qed



section \<open>Cache synchronisation\<close>

lemma and_not_15: "unat (x AND NOT (15 :: u32)) = unat x div 16 * 16"
proof -
  have m: "(15 :: u32) = mask 4" by (simp add: mask_eq_exp_minus_1)
  have lt: "unat x < 2 ^ 32" using unat_less_32[of x] by simp
  then have t: "take_bit 32 (unat x) = unat x" by (rule take_bit_nat_eq_self)
  have "x AND NOT 15 = push_bit 4 (drop_bit 4 x)" by (subst m) (rule bit_word_eqI, auto simp: bit_simps)
  then have "unat (x AND NOT 15) = take_bit 32 (push_bit 4 (drop_bit 4 (unat x)))"
    using t by (simp only: unsigned_push_bit_eq unsigned_drop_bit_eq) simp
  also have "push_bit 4 (drop_bit 4 (unat x)) = unat x div 16 * 16" by (simp add: push_bit_eq_mult drop_bit_eq_div)
  also have "unat x div 16 * 16 < 2 ^ 32" using lt div_times_less_eq_dividend[of "unat x" 16] by linarith
  then have "take_bit 32 (unat x div 16 * 16) = unat x div 16 * 16" by (rule take_bit_nat_eq_self)
  finally show ?thesis .
qed

lemma unat_words_total: "unat (STRELA_TENSOR_MEMORY_SIZE div 4) = 13107200"
  by (simp add: STRELA_TENSOR_MEMORY_SIZE_def unat_div)

lemma buffer_sync_check:
  assumes "heap_inv d bs" "owns d bs buf b"
  shows "strela_buffer_sync ret d buf flags offset count =
    (if \<not> strela_dev_ok d then d
     else if unat (size_words buf) < unat offset + unat count then d\<lparr>dev_errnum := - STRELA_ERR_BAD_ARG\<rparr>
     else strela_sync ret d (tensors_bo_handle d) flags (offset_words_from_base buf + offset) count)"
proof -
  note le = owns_ptr(5)[OF assms]
  have v: "buffer_valid buf" using assms(2) by (simp add: owns_def)
  have a: "(size_words buf < offset \<or> size_words buf - offset < count) = (unat (size_words buf) < unat offset + unat count)"
  proof (cases "unat (size_words buf) < unat offset")
    case False
    then have "unat (size_words buf - offset) = unat (size_words buf) - unat offset" by (simp add: unat_sub_nowrap)
    then show ?thesis using False by (auto simp: word_less_nat_alt)
  qed (simp add: word_less_nat_alt)
  have ol: "unat (offset_words_from_base buf) \<le> 13107200" using le by simp
  have "\<not> STRELA_TENSOR_MEMORY_SIZE div 4 < offset_words_from_base buf"
    using ol unat_words_total by (simp add: word_less_nat_alt)
  moreover from this have "unat (STRELA_TENSOR_MEMORY_SIZE div 4 - offset_words_from_base buf) = 13107200 - unat (offset_words_from_base buf)"
    using unat_words_total by (simp add: unat_sub not_less)
  then have "\<not> STRELA_TENSOR_MEMORY_SIZE div 4 - offset_words_from_base buf < size_words buf"
    using le by (simp add: word_less_nat_alt)
  ultimately show ?thesis using v a by (auto simp: strela_buffer_sync_def Let_def strela_err)
qed

text \<open>The arguments of a synchronisation of words \<open>start\<close> to \<open>start + n\<close> of a buffer.\<close>

definition sync_args :: "strela_dev \<Rightarrow> strela_buffer \<Rightarrow> u32 \<Rightarrow> u32 \<Rightarrow> u32 \<Rightarrow> drm_strela_gem_sync" where
  "sync_args d buf flags start n = \<lparr>gs_handle = tensors_bo_handle d, gs_flags = flags,
     gs_offset = ucast ((offset_words_from_base buf + start) * 4), gs_length = ucast (n * 4)\<rparr>"

lemma sync_args_range:
  assumes "heap_inv d bs" "owns d bs buf b" "unat start + unat n \<le> unat (size_words buf)"
  shows "unat (gs_offset (sync_args d buf flags start n)) = (unat (offset_words_from_base buf) + unat start) * 4"
    "unat (gs_length (sync_args d buf flags start n)) = unat n * 4"
proof -
  note le = owns_ptr(5)[OF assms(1,2)]
  have "unat (offset_words_from_base buf + start) = unat (offset_words_from_base buf) + unat start"
    using le assms(3) by (intro unat_add_nowrap) simp
  then have "unat ((offset_words_from_base buf + start) * 4) = (unat (offset_words_from_base buf) + unat start) * 4"
    using le assms(3) unat_mult_nowrap[of "offset_words_from_base buf + start" 4] by simp
  moreover have "unat (n * 4) = unat n * 4" using le assms(3) unat_mult_nowrap[of n 4] by simp
  ultimately show "unat (gs_offset (sync_args d buf flags start n)) = (unat (offset_words_from_base buf) + unat start) * 4"
    "unat (gs_length (sync_args d buf flags start n)) = unat n * 4" by (simp_all add: sync_args_def)
qed

text \<open>The driver takes them when they are whole cache lines.\<close>

lemma driver_accepts:
  assumes "heap_inv d bs" "owns d bs buf b" "unat start + unat n \<le> unat (size_words buf)" "16 dvd unat start" "16 dvd unat n"
    "sync_flags_ok flags" "lookup (tensors_bo_handle d) = Some obj" "unat (gem_size (sd_objs sdev obj)) = 52428800"
  shows "snd (strela_gem_sync_ioctl 64 lookup (sync_args d buf flags start n) sdev) = 0"
proof -
  note r = sync_args_range[OF assms(1-3), of flags] and op = owns_ptr(4,5)[OF assms(1,2)]
  let ?a = "sync_args d buf flags start n"
  have "16 dvd unat (offset_words_from_base buf) + unat start" using op(1) assms(4) by simp
  then have "64 dvd unat (gs_offset ?a)" "64 dvd unat (gs_length ?a)" unfolding r using assms(5) by presburger+
  moreover have "unat (gs_offset ?a) + unat (gs_length ?a) \<le> 52428800" unfolding r using op(2) assms(3) by simp
  ultimately have ok: "sync_ok 64 (sd_objs sdev obj) ?a" unfolding sync_ok_def assms(8) by simp
  have "gs_flags ?a = flags" "gs_handle ?a = tensors_bo_handle d" by (simp_all add: sync_args_def)
  then have fl: "sync_flags_ok (gs_flags ?a)" "lookup (gs_handle ?a) = Some obj" using assms(6,7) by simp_all
  have k: "(64 :: u32) = 2 ^ 6" "(6 :: nat) < 32" by simp_all
  show ?thesis by (rule gem_sync_accepted[where lookup = lookup, OF k fl ok])
qed

lemma flush_range:
  assumes "unat offset + unat count \<le> 13107200"
  defines "start \<equiv> offset AND NOT (CACHELINE_SIZE div 4 - 1)"
    and "stop \<equiv> (offset + count + CACHELINE_SIZE div 4 - 1) AND NOT (CACHELINE_SIZE div 4 - 1)"
  shows "unat start = unat offset div 16 * 16" "unat stop = round_up (unat offset + unat count) 16"
    "unat (stop - start) = round_up (unat offset + unat count) 16 - unat offset div 16 * 16"
proof -
  have c: "CACHELINE_SIZE div 4 - 1 = 15" by (simp add: CACHELINE_SIZE_def)
  show s: "unat start = unat offset div 16 * 16" unfolding start_def c by (rule and_not_15)
  have u: "unat (offset + count) = unat offset + unat count" using assms(1) by (intro unat_add_nowrap) simp
  have "unat (offset + count + 15) = unat offset + unat count + 15" using u assms(1) by (subst unat_add_nowrap) simp_all
  moreover have "offset + count + CACHELINE_SIZE div 4 - 1 = offset + count + 15" using c by (metis add_diff_eq)
  ultimately show e: "unat stop = round_up (unat offset + unat count) 16"
    unfolding stop_def c using and_not_15[of "offset + count + 15"] by (simp only: round_up_def) simp
  have "unat offset div 16 * 16 \<le> round_up (unat offset + unat count) 16"
    using round_up_bounds(1)[of 16 "unat offset + unat count"] div_times_less_eq_dividend[of "unat offset" 16] by linarith
  then show "unat (stop - start) = round_up (unat offset + unat count) 16 - unat offset div 16 * 16"
    using s e by (simp add: unat_sub_nowrap)
qed

text \<open>The range \<^verbatim>\<open>strela_buffer_flush\<close> asks for: whole cache lines that cover the words, and the request it makes.\<close>

lemma flush_request:
  assumes "strela_dev_ok d" "heap_inv d bs" "owns d bs buf b" "count \<noteq> 0"
    "round_up (unat offset + unat count) 16 \<le> unat (size_words buf)"
  obtains start n where "strela_buffer_flush 0 d buf offset count = log_calls [Ioctl_gem_sync (sync_args d buf 6 start n)] d"
    "16 dvd unat start" "16 dvd unat n" "unat start \<le> unat offset" "unat start + unat n = round_up (unat offset + unat count) 16"
proof -
  note rb = round_up_bounds[of 16 "unat offset + unat count", OF zero_less_numeral] and op = owns_ptr(5)[OF assms(2,3)]
  have le: "unat offset + unat count \<le> 13107200" using rb(1) assms(5) op by simp
  define start stop where "start = offset AND NOT (CACHELINE_SIZE div 4 - 1)"
    and "stop = (offset + count + CACHELINE_SIZE div 4 - 1) AND NOT (CACHELINE_SIZE div 4 - 1)"
  note fr = flush_range[OF le, folded start_def stop_def]
  have dl: "unat offset div 16 * 16 \<le> unat offset" by simp
  have cn: "0 < unat count" using assms(4) by (simp add: word_neq_0_conv word_less_nat_alt)
  have sum: "unat start + unat (stop - start) = round_up (unat offset + unat count) 16" using fr dl rb(1) by linarith
  have "0 < unat (stop - start)" using fr(1) sum rb(1) dl cn by linarith
  then have nz: "stop - start \<noteq> 0" by (metis less_irrefl unat_0)
  have fl: "DRM_STRELA_SYNC_FINI OR DRM_STRELA_SYNC_WRITE = 6" by (simp add: sync_flags)
  have "strela_buffer_flush 0 d buf offset count = strela_buffer_sync 0 d buf 6 start (stop - start)"
    using assms(4) unfolding strela_buffer_flush_def Let_def fl start_def stop_def by simp
  also have "\<dots> = strela_sync 0 d (tensors_bo_handle d) 6 (offset_words_from_base buf + start) (stop - start)"
    unfolding buffer_sync_check[OF assms(2,3)] using assms(1,5) sum by simp
  also have "\<dots> = log_calls [Ioctl_gem_sync (sync_args d buf 6 start (stop - start))] d"
    using assms(1) nz by (simp add: strela_sync_def sync_args_def)
  finally have run: "strela_buffer_flush 0 d buf offset count = log_calls [Ioctl_gem_sync (sync_args d buf 6 start (stop - start))] d" .
  have s16: "16 dvd unat start" using fr(1) by simp
  then have "16 dvd unat (stop - start)" unfolding fr(3) by (intro dvd_diff_nat) simp_all
  then show ?thesis using that[OF run s16 _ _ sum] fr(1) dl by simp
qed



text \<open>Flushing the end of a buffer whose size is not a whole number of cache lines fails: the range is
  inside the buffer, but rounded up it is not, and the library reports a bad argument and flushes
  nothing.\<close>

theorem flush_tail_refused:
  assumes "strela_dev_ok d" "heap_inv d bs" "owns d bs buf b" "count \<noteq> 0"
    "unat offset + unat count \<le> unat (size_words buf)" "unat (size_words buf) < round_up (unat offset + unat count) 16"
  shows "strela_buffer_flush ret d buf offset count = d\<lparr>dev_errnum := - STRELA_ERR_BAD_ARG\<rparr>"
proof -
  note rb = round_up_bounds[of 16 "unat offset + unat count", OF zero_less_numeral] and op = owns_ptr(5)[OF assms(2,3)]
  have le: "unat offset + unat count \<le> 13107200" using assms(5) op by simp
  define start stop where "start = offset AND NOT (CACHELINE_SIZE div 4 - 1)"
    and "stop = (offset + count + CACHELINE_SIZE div 4 - 1) AND NOT (CACHELINE_SIZE div 4 - 1)"
  note fr = flush_range[OF le, folded start_def stop_def]
  have "unat offset div 16 * 16 \<le> unat offset" by simp
  then have "unat start + unat (stop - start) = round_up (unat offset + unat count) 16" using fr rb(1) by linarith
  then have over: "unat (size_words buf) < unat start + unat (stop - start)" using assms(6) by simp
  have "strela_buffer_flush ret d buf offset count
      = strela_buffer_sync ret d buf (DRM_STRELA_SYNC_FINI OR DRM_STRELA_SYNC_WRITE) start (stop - start)"
    using assms(4) unfolding strela_buffer_flush_def Let_def start_def stop_def by simp
  also have "\<dots> = d\<lparr>dev_errnum := - STRELA_ERR_BAD_ARG\<rparr>"
    unfolding buffer_sync_check[OF assms(2,3)] using assms(1) over by simp
  finally show ?thesis .
qed

theorem flush_tail_refused_witness:
  "\<exists>m fl. strela_dev_ok (sample_dev m fl)
    \<and> strela_buffer_flush 0 (sample_dev m fl) \<lparr>buffer_valid = True, offset_words_from_base = 16, size_words = 25\<rparr> 0 25
      = (sample_dev m fl)\<lparr>dev_errnum := - 1\<rparr>"
proof -
  obtain m fl where u: "strela_dev_ok (sample_dev m fl)"
    "heap_inv (sample_dev m fl) [Used 0x10000000 192 52 100, Free 0x100000C0 52428608]"
    "owns (sample_dev m fl) [Used 0x10000000 192 52 100, Free 0x100000C0 52428608]
       \<lparr>buffer_valid = True, offset_words_from_base = 16, size_words = 25\<rparr> (Used 0x10000000 192 52 100)" by (rule sample_used)
  from flush_tail_refused[OF u, of 25 0 0] u(1) show ?thesis by (auto simp: round_up_def strela_err)
qed

end
