(* ===== verification/LibJobInv.thy ===== *)
theory LibJobInv
  imports LibJob LibBuffer
begin

text \<open>
  The job slots and the kernel resources behind them.  \<open>open_run\<close> replays the recorded system calls on
  the sets of open descriptors, live sync objects and mappings (and whether the directory is open)
  and fails on the first call that misuses one;
  the invariant \<open>slots_inv\<close> says that the replay succeeds and ends with exactly what the slots and
  the device hold.
\<close>

section \<open>Replaying the calls\<close>

type_synonym resources = "int set \<times> u32 set \<times> addr set \<times> bool"

abbreviation no_resources :: resources where
  "no_resources \<equiv> ({}, {}, {}, False)"

fun open_call :: "lcall \<Rightarrow> resources \<Rightarrow> resources option" where
  "open_call (Fd_opened fd) (F, S, R) = (if fd \<in> F then None else Some (insert fd F, S, R))"
| "open_call (Fd_closed fd) (F, S, R) = (if fd \<in> F then Some (F - {fd}, S, R) else None)"
| "open_call (Waited_fence fd) (F, S, R) = (if fd \<in> F then Some (F, S, R) else None)"
| "open_call (Syncobj_created h) (F, S, R) = (if h \<in> S then None else Some (F, insert h S, R))"
| "open_call (Syncobj_destroyed h) (F, S, R) = (if h \<in> S then Some (F, S - {h}, R) else None)"
| "open_call (Waited_syncobj h) (F, S, R) = (if h \<in> S then Some (F, S, R) else None)"
| "open_call (Ioctl_submit sub) (F, S, R) = (if sub_out_syncobj sub \<in> S then Some (F, S, R) else None)"
| "open_call (Ioctl_gem_sync args) r = Some r"
| "open_call (Mapped a) (F, S, M, dir) = (if a \<in> M then None else Some (F, S, insert a M, dir))"
| "open_call (Unmapped a) (F, S, M, dir) = (if a \<in> M then Some (F, S, M - {a}, dir) else None)"
| "open_call Dir_opened (F, S, M, dir) = (if dir then None else Some (F, S, M, True))"
| "open_call Dir_closed (F, S, M, dir) = (if dir then Some (F, S, M, False) else None)"

primrec open_run :: "lcall list \<Rightarrow> resources \<Rightarrow> resources option" where
  "open_run [] r = Some r"
| "open_run (c # cs) r = Option.bind (open_call c r) (open_run cs)"

lemma open_run_append [simp]: "open_run (xs @ ys) r = Option.bind (open_run xs r) (open_run ys)"
proof (induction xs arbitrary: r)
  case (Cons c xs)
  then show ?case by (cases "open_call c r") simp_all
qed simp

text \<open>The query of a sync object leaves no descriptor open, and returns 1 exactly when the fence was
  found completed, 0 when it was found pending, and otherwise the negative error of the job or of the
  failed call.\<close>

lemma syncobj_status_exact:
  assumes "\<And>e. export = Inl e \<Longrightarrow> 0 < e" "\<And>e. info = Inl e \<Longrightarrow> 0 < e" "\<And>st. info = Inr st \<Longrightarrow> st \<le> 1"
    "\<And>fd. export = Inr fd \<Longrightarrow> fd \<notin> F" "ioctl_syncobj_status export info = (cs, ret)"
  shows "open_run cs (F, S, R) = Some (F, S, R)"
    "ret = 1 \<longleftrightarrow> (\<exists>fd. export = Inr fd \<and> info = Inr 1)" "ret = 0 \<longleftrightarrow> (\<exists>fd. export = Inr fd \<and> info = Inr 0)" "ret \<le> 1"
  using assms by (auto simp: ioctl_syncobj_status_def Let_def split: sum.splits)

section \<open>The invariant\<close>

fun phase_ok :: "strela_job_phase_lib \<Rightarrow> int \<Rightarrow> bool" where
  "phase_ok STRELA_JOB_CONFIGURED fd \<longleftrightarrow> fd = - 1"
| "phase_ok STRELA_JOB_DONE fd \<longleftrightarrow> fd \<noteq> - 1"
| "phase_ok _ fd \<longleftrightarrow> True"

definition slot_fd :: "strela_job_slot \<Rightarrow> int option" where
  "slot_fd s = (if slot_phase s = STRELA_JOB_FREE \<or> slot_fence_fd s = - 1 then None else Some (slot_fence_fd s))"

definition slot_sync :: "strela_job_slot \<Rightarrow> u32 option" where
  "slot_sync s = (if slot_phase s = STRELA_JOB_FREE then None else Some (sub_out_syncobj (slot_submit s)))"

definition slot_ok :: "strela_job_slot \<Rightarrow> bool" where
  "slot_ok s \<longleftrightarrow> phase_ok (slot_phase s) (slot_fence_fd s) \<and> slot_sync s \<noteq> Some 0"

text \<open>No two slots hold the same thing.\<close>

definition held :: "(strela_job_slot \<Rightarrow> 'a option) \<Rightarrow> strela_job_slot list \<Rightarrow> 'a set" where
  "held f js = {x. \<exists>s \<in> set js. f s = Some x}"

definition unshared :: "(strela_job_slot \<Rightarrow> 'a option) \<Rightarrow> strela_job_slot list \<Rightarrow> bool" where
  "unshared f js \<longleftrightarrow> (\<forall>i < length js. \<forall>j < length js. f (js ! i) \<noteq> None \<and> f (js ! i) = f (js ! j) \<longrightarrow> i = j)"

abbreviation dev_maps :: "strela_dev \<Rightarrow> addr set" where
  "dev_maps d \<equiv> {tensors_bo_map d, kernels_bo_map d}"

definition slots_inv :: "strela_dev \<Rightarrow> bool" where
  "slots_inv d \<longleftrightarrow> length (dev_jobs d) = STRELA_JOBS_MAX \<and> (\<forall>s \<in> set (dev_jobs d). slot_ok s)
     \<and> unshared slot_fd (dev_jobs d) \<and> unshared slot_sync (dev_jobs d) \<and> dev_fd d \<notin> held slot_fd (dev_jobs d)
     \<and> open_run (dev_calls d) no_resources
         = Some (insert (dev_fd d) (held slot_fd (dev_jobs d)), held slot_sync (dev_jobs d), dev_maps d, False)"

lemma slots_inv_same:
  "dev_jobs d' = dev_jobs d \<Longrightarrow> dev_fd d' = dev_fd d \<Longrightarrow> dev_maps d' = dev_maps d \<Longrightarrow> slots_inv d
   \<Longrightarrow> open_run (dev_calls d') no_resources = open_run (dev_calls d) no_resources \<Longrightarrow> slots_inv d'"
  by (simp add: slots_inv_def)

lemma slots_inv_errnum [simp]: "slots_inv (d\<lparr>dev_errnum := e\<rparr>) = slots_inv d"
  by (simp add: slots_inv_def)

lemma set_slot_fields [simp]:
  "dev_calls (set_slot i s d) = dev_calls d" "dev_initialized (set_slot i s d) = dev_initialized d"
  "dev_fd (set_slot i s d) = dev_fd d" "tensors_bo_map (set_slot i s d) = tensors_bo_map d"
  "kernels_bo_map (set_slot i s d) = kernels_bo_map d" "dev_errnum (set_slot i s d) = dev_errnum d"
  "dev_jobs (set_slot i s d) = (dev_jobs d)[i := s]" "strela_dev_ok (set_slot i s d) = strela_dev_ok d"
  by (simp_all add: set_slot_def strela_dev_ok_def)

text \<open>One slot is replaced by one that holds the same, nothing, or something nobody held.\<close>

lemma held_memI: "i < length js \<Longrightarrow> f (js ! i) = Some x \<Longrightarrow> x \<in> held f js"
  by (auto simp: held_def intro: nth_mem)

lemma held_memE:
  assumes "x \<in> held f js"
  obtains i where "i < length js" "f (js ! i) = Some x"
  using assms by (auto simp: held_def in_set_conv_nth)

lemma held_update:
  assumes "unshared f js" "i < length js"
  shows "held f (js[i := s]) = held f js - set_option (f (js ! i)) \<union> set_option (f s)"
proof (intro set_eqI iffI)
  fix x
  assume "x \<in> held f (js[i := s])"
  then obtain j where j: "j < length js" "f (js[i := s] ! j) = Some x" by (auto elim: held_memE)
  show "x \<in> held f js - set_option (f (js ! i)) \<union> set_option (f s)"
  proof (cases "j = i")
    case False
    then have "f (js ! j) = Some x" using j by simp
    then show ?thesis using False assms j(1) by (auto simp: unshared_def intro: held_memI)
  qed (use j in auto)
next
  fix x
  assume x: "x \<in> held f js - set_option (f (js ! i)) \<union> set_option (f s)"
  show "x \<in> held f (js[i := s])"
  proof (cases "f s = Some x")
    case True
    then show ?thesis using assms(2) held_memI[of i "js[i := s]"] by simp
  next
    case False
    then have "x \<in> held f js" "f (js ! i) \<noteq> Some x" using x by auto
    then obtain j where j: "j < length js" "f (js ! j) = Some x" by (auto elim: held_memE)
    then have "j \<noteq> i" using \<open>f (js ! i) \<noteq> Some x\<close> by auto
    then show ?thesis using j held_memI[of j "js[i := s]"] by simp
  qed
qed

lemma unshared_update:
  assumes "unshared f js" "i < length js" and new: "\<And>x. f s = Some x \<Longrightarrow> f (js ! i) = Some x \<or> x \<notin> held f js"
  shows "unshared f (js[i := s])"
proof -
  have "f (js ! j) \<noteq> Some x" if "f s = Some x" "j < length js" "j \<noteq> i" for j x
    using new[OF that(1)] assms(1,2) that(2,3) by (auto simp: unshared_def intro: held_memI)
  then have one: "f (js ! j) \<noteq> f s" if "f s \<noteq> None" "j < length js" "j \<noteq> i" for j using that by auto
  show ?thesis unfolding unshared_def
  proof (intro allI impI)
    fix j k
    assume "j < length (js[i := s])" "k < length (js[i := s])" and e: "f (js[i := s] ! j) \<noteq> None \<and> f (js[i := s] ! j) = f (js[i := s] ! k)"
    then have jk: "j < length js" "k < length js" by simp_all
    consider "j = i" "k = i" | "j = i" "k \<noteq> i" | "j \<noteq> i" "k = i" | "j \<noteq> i" "k \<noteq> i" by blast
    then show "j = k"
    proof cases
      case 2
      then have "f s \<noteq> None" "f (js ! k) = f s" using e assms(2) by (metis nth_list_update_eq nth_list_update_neq)+
      then show ?thesis using one jk(2) 2(2) by blast
    next
      case 3
      then have "f s \<noteq> None" "f (js ! j) = f s" using e assms(2) by (metis nth_list_update_eq nth_list_update_neq)+
      then show ?thesis using one jk(1) 3(1) by blast
    next
      case 4
      then have "f (js ! j) \<noteq> None \<and> f (js ! j) = f (js ! k)" using e by (metis nth_list_update_neq)
      then show ?thesis using jk assms(1) unfolding unshared_def by blast
    qed simp
  qed
qed

lemma slots_inv_update:
  assumes inv: "slots_inv d" and i: "i < length (dev_jobs d)" and ok: "slot_ok s"
    and fd: "\<And>x. slot_fd s = Some x \<Longrightarrow> slot_fd (dev_jobs d ! i) = Some x \<or> x \<notin> insert (dev_fd d) (held slot_fd (dev_jobs d))"
    and sy: "\<And>x. slot_sync s = Some x \<Longrightarrow> slot_sync (dev_jobs d ! i) = Some x \<or> x \<notin> held slot_sync (dev_jobs d)"
    and run: "open_run cs (insert (dev_fd d) (held slot_fd (dev_jobs d)), held slot_sync (dev_jobs d), dev_maps d, False)
       = Some (insert (dev_fd d) (held slot_fd (dev_jobs d)) - set_option (slot_fd (dev_jobs d ! i)) \<union> set_option (slot_fd s),
               held slot_sync (dev_jobs d) - set_option (slot_sync (dev_jobs d ! i)) \<union> set_option (slot_sync s), dev_maps d, False)"
    and d': "dev_jobs d' = (dev_jobs d)[i := s]" "dev_calls d' = dev_calls d @ cs" "dev_fd d' = dev_fd d"
      "tensors_bo_map d' = tensors_bo_map d" "kernels_bo_map d' = kernels_bo_map d"
  shows "slots_inv d'"
proof -
  have un: "unshared slot_fd (dev_jobs d)" "unshared slot_sync (dev_jobs d)" using inv by (simp_all add: slots_inv_def)
  have dfd: "dev_fd d \<notin> held slot_fd (dev_jobs d)" using inv by (simp add: slots_inv_def)
  have ndev: "slot_fd (dev_jobs d ! i) \<noteq> Some (dev_fd d)" using dfd i by (auto intro: held_memI)
  then have nnew: "slot_fd s \<noteq> Some (dev_fd d)" using fd[of "dev_fd d"] by auto
  have "\<forall>t \<in> set (dev_jobs d'). slot_ok t"
    using inv ok set_update_subset_insert[of "dev_jobs d" i s] by (auto simp: slots_inv_def d')
  moreover have "unshared slot_fd (dev_jobs d')" unfolding d' by (rule unshared_update[OF un(1) i]) (use fd in auto)
  moreover have "unshared slot_sync (dev_jobs d')" unfolding d' by (rule unshared_update[OF un(2) i sy])
  moreover have h: "held slot_fd (dev_jobs d') = held slot_fd (dev_jobs d) - set_option (slot_fd (dev_jobs d ! i)) \<union> set_option (slot_fd s)"
    "held slot_sync (dev_jobs d') = held slot_sync (dev_jobs d) - set_option (slot_sync (dev_jobs d ! i)) \<union> set_option (slot_sync s)"
    unfolding d' using un i by (auto simp: held_update)
  moreover have "dev_fd d \<notin> held slot_fd (dev_jobs d')" using dfd nnew by (auto simp: h)
  moreover have "insert (dev_fd d) (held slot_fd (dev_jobs d)) - set_option (slot_fd (dev_jobs d ! i)) \<union> set_option (slot_fd s)
      = insert (dev_fd d) (held slot_fd (dev_jobs d'))" using ndev by (auto simp: h)
  ultimately show ?thesis using inv run by (simp add: slots_inv_def d')
qed

section \<open>The operations keep it\<close>

text \<open>What the kernel promises of the handles and descriptors it returns.\<close>

definition fresh_fd :: "strela_dev \<Rightarrow> nat \<Rightarrow> int \<Rightarrow> bool" where
  "fresh_fd d i fd \<longleftrightarrow> fd \<noteq> - 1 \<and> fd \<noteq> dev_fd d \<and> fd \<notin> held slot_fd ((dev_jobs d)[i := zero_slot])"

definition fresh_sync :: "strela_dev \<Rightarrow> u32 \<Rightarrow> bool" where
  "fresh_sync d h \<longleftrightarrow> h \<noteq> 0 \<and> h \<notin> held slot_sync (dev_jobs d)"

lemma slot_zero [simp]:
  "slot_fd zero_slot = None" "slot_sync zero_slot = None" "slot_ok zero_slot"
  "slot_fd (zero_slot\<lparr>slot_fence_fd := x\<rparr>) = None" "slot_sync (zero_slot\<lparr>slot_fence_fd := x\<rparr>) = None"
  "slot_ok (zero_slot\<lparr>slot_fence_fd := x\<rparr>)"
  by (simp_all add: slot_fd_def slot_sync_def slot_ok_def zero_slot_def)

definition release_calls :: "strela_job_slot \<Rightarrow> lcall list" where
  "release_calls s =
     (if slot_phase s = STRELA_JOB_SUBMITTED
      then [if slot_fence_fd s \<noteq> - 1 then Waited_fence (slot_fence_fd s) else Waited_syncobj (sub_out_syncobj (slot_submit s))] else [])
     @ (if slot_fence_fd s \<noteq> - 1 then [Fd_closed (slot_fence_fd s)] else [])
     @ (if sub_out_syncobj (slot_submit s) \<noteq> 0 then [Syncobj_destroyed (sub_out_syncobj (slot_submit s))] else [])"

lemma release_result:
  assumes "strela_job_slot_release env d i = Some d'" "i < length (dev_jobs d)"
  shows "d' = (if slot_phase (dev_jobs d ! i) = STRELA_JOB_FREE then d
    else set_slot i (zero_slot\<lparr>slot_fence_fd := - 1\<rparr>) (log_calls (release_calls (dev_jobs d ! i)) d))"
  using assms
  by (auto simp: strela_job_slot_release_def strela_job_slot_finish_def Let_def assert_c_def release_calls_def set_slot_def
      log_calls_def split: if_splits bind_splits)

lemma slots_inv_nth:
  assumes "slots_inv d" "i < length (dev_jobs d)"
  shows "slot_ok (dev_jobs d ! i)" "slot_fd (dev_jobs d ! i) = Some fd \<Longrightarrow> fd \<in> held slot_fd (dev_jobs d)"
    "slot_sync (dev_jobs d ! i) = Some h \<Longrightarrow> h \<in> held slot_sync (dev_jobs d)"
  using assms by (auto simp: slots_inv_def intro: held_memI)

lemma release_inv:
  assumes r: "strela_job_slot_release env d i = Some d'" and i: "i < length (dev_jobs d)" and inv: "slots_inv d"
  shows "slots_inv d'"
proof (cases "slot_phase (dev_jobs d ! i) = STRELA_JOB_FREE")
  case True
  then show ?thesis using release_result[OF r i] inv by simp
next
  case False
  let ?s = "dev_jobs d ! i"
  have d': "d' = set_slot i (zero_slot\<lparr>slot_fence_fd := - 1\<rparr>) (log_calls (release_calls ?s) d)"
    using release_result[OF r i] False by simp
  have sy: "slot_sync ?s = Some (sub_out_syncobj (slot_submit ?s))" "sub_out_syncobj (slot_submit ?s) \<noteq> 0"
    using slots_inv_nth(1)[OF inv i] False by (simp_all add: slot_ok_def slot_sync_def)
  have fd: "slot_fd ?s = (if slot_fence_fd ?s = - 1 then None else Some (slot_fence_fd ?s))" using False by (simp add: slot_fd_def)
  have mem: "sub_out_syncobj (slot_submit ?s) \<in> held slot_sync (dev_jobs d)"
    "slot_fence_fd ?s \<noteq> - 1 \<Longrightarrow> slot_fence_fd ?s \<in> held slot_fd (dev_jobs d)"
    using slots_inv_nth(2,3)[OF inv i] sy fd by simp_all
  show ?thesis
  proof (rule slots_inv_update[OF inv i])
    show "open_run (release_calls ?s) (insert (dev_fd d) (held slot_fd (dev_jobs d)), held slot_sync (dev_jobs d), dev_maps d, False)
      = Some (insert (dev_fd d) (held slot_fd (dev_jobs d)) - set_option (slot_fd ?s) \<union> set_option (slot_fd (zero_slot\<lparr>slot_fence_fd := - 1\<rparr>)),
              held slot_sync (dev_jobs d) - set_option (slot_sync ?s) \<union> set_option (slot_sync (zero_slot\<lparr>slot_fence_fd := - 1\<rparr>)), dev_maps d, False)"
      using mem sy fd by (simp add: release_calls_def)
  qed (simp_all add: d')
qed

lemma release_fields:
  assumes "strela_job_slot_release env d i = Some d'" "i < length (dev_jobs d)"
  shows "length (dev_jobs d') = length (dev_jobs d)" "strela_dev_ok d' = strela_dev_ok d" "dev_fd d' = dev_fd d" "tensors_bo_map d' = tensors_bo_map d" "kernels_bo_map d' = kernels_bo_map d"
    "dev_initialized d' = dev_initialized d" "slot_phase (dev_jobs d' ! i) = STRELA_JOB_FREE"
    "\<And>j. j \<noteq> i \<Longrightarrow> dev_jobs d' ! j = dev_jobs d ! j"
  using release_result[OF assms] assms(2) by (auto simp: zero_slot_def)

lemma release_all_inv:
  assumes "release_all env is d = Some d'" "set is \<subseteq> {..< length (dev_jobs d)}" "slots_inv d"
  shows "slots_inv d' \<and> length (dev_jobs d') = length (dev_jobs d) \<and> dev_fd d' = dev_fd d \<and> strela_dev_ok d' = strela_dev_ok d
    \<and> tensors_bo_map d' = tensors_bo_map d \<and> kernels_bo_map d' = kernels_bo_map d \<and> dev_initialized d' = dev_initialized d
    \<and> (\<forall>i < length (dev_jobs d). i \<in> set is \<or> slot_phase (dev_jobs d ! i) = STRELA_JOB_FREE \<longrightarrow> slot_phase (dev_jobs d' ! i) = STRELA_JOB_FREE)"
  using assms
proof (induction "is" arbitrary: d)
  case (Cons i "is")
  obtain d1 where d1: "strela_job_slot_release (env i) d i = Some d1" "release_all env is d1 = Some d'"
    using Cons.prems(1) by (auto split: bind_splits)
  have i: "i < length (dev_jobs d)" using Cons.prems(2) by simp
  note f = release_fields[OF d1(1) i]
  have IH: "slots_inv d' \<and> length (dev_jobs d') = length (dev_jobs d1) \<and> dev_fd d' = dev_fd d1 \<and> strela_dev_ok d' = strela_dev_ok d1
    \<and> tensors_bo_map d' = tensors_bo_map d1 \<and> kernels_bo_map d' = kernels_bo_map d1 \<and> dev_initialized d' = dev_initialized d1
    \<and> (\<forall>i < length (dev_jobs d1). i \<in> set is \<or> slot_phase (dev_jobs d1 ! i) = STRELA_JOB_FREE \<longrightarrow> slot_phase (dev_jobs d' ! i) = STRELA_JOB_FREE)"
    using Cons.prems(2) f(1) by (intro Cons.IH d1(2) release_inv[OF d1(1) i Cons.prems(3)]) simp
  have "slot_phase (dev_jobs d1 ! j) = STRELA_JOB_FREE" if "j = i \<or> slot_phase (dev_jobs d ! j) = STRELA_JOB_FREE" for j
    using that f(7) f(8)[of j] by (cases "j = i") simp_all
  then show ?case using IH f(1-6) by auto
qed simp

lemma free_all_inv:
  assumes "strela_job_free_all env d = Some d'" "slots_inv d"
  shows "slots_inv d'"
proof (cases "strela_dev_ok d")
  case True
  then have "release_all env [0..<length (dev_jobs d)] d = Some d'" using assms(1) by (simp add: strela_job_free_all_def)
  from release_all_inv[OF this _ assms(2)] show ?thesis by (simp add: atLeast0LessThan)
next
  case False
  then show ?thesis using assms by (simp add: strela_job_free_all_def)
qed

lemma find_free_slot_spec:
  "find_free_slot k js = Some i \<Longrightarrow> k \<le> i \<and> i < k + length js \<and> slot_phase (js ! (i - k)) = STRELA_JOB_FREE"
proof (induction js arbitrary: k)
  case (Cons s js)
  show ?case
  proof (cases "slot_phase s = STRELA_JOB_FREE")
    case False
    then have "find_free_slot (k + 1) js = Some i" using Cons.prems by simp
    from Cons.IH[OF this] show ?thesis by (auto simp: nth_Cons')
  qed (use Cons.prems in auto)
qed simp

definition create_ok :: "int + u32 \<Rightarrow> strela_dev \<Rightarrow> bool" where
  "create_ok create d = (case create of Inl e \<Rightarrow> e \<noteq> 0 | Inr h \<Rightarrow> fresh_sync d h)"

text \<open>What configuring does, on its four outcomes.\<close>

definition kernel_ok :: "strela_kernel \<Rightarrow> bool" where
  "kernel_ok krn \<longleftrightarrow> kernel_valid krn \<and> kernel_handle krn < 128"

lemma job_config_result:
  assumes ok: "strela_dev_ok d" and c: "create_ok create d"
  shows "strela_job_config env create d krn conf =
    (let bad = \<lparr>job_valid = False, job_handle = 0\<rparr> in
     if \<not> kernel_ok krn then Some (d\<lparr>dev_errnum := - STRELA_ERR_BAD_ARG\<rparr>, bad)
     else case find_free_slot 0 (dev_jobs d) of
       None \<Rightarrow> Some (d\<lparr>dev_errnum := - STRELA_ERR_NO_MEM\<rparr>, bad)
     | Some i \<Rightarrow> (case create of Inl e \<Rightarrow> Some (d\<lparr>dev_errnum := e\<rparr>, bad)
       | Inr h \<Rightarrow> Some (set_slot i ((dev_jobs d ! i)\<lparr>slot_phase := STRELA_JOB_CONFIGURED, slot_fence_fd := - 1,
              slot_submit := conf_submit d krn conf h\<rparr>) (log_calls [Syncobj_created h] d),
            \<lparr>job_valid = True, job_handle = word_of_nat i\<rparr>)))"
proof (cases "kernel_ok krn")
  case False
  then show ?thesis using ok by (auto simp: strela_job_config_def Let_def kernel_ok_def not_less strela_err)
next
  case True
  then have k: "kernel_valid krn" "\<not> 128 \<le> kernel_handle krn" by (auto simp: kernel_ok_def)
  show ?thesis
  proof (cases "find_free_slot 0 (dev_jobs d)")
    case None
    then show ?thesis using ok True by (simp add: strela_job_config_def Let_def k strela_err)
  next
    case (Some i)
    then have free: "slot_phase (dev_jobs d ! i) = STRELA_JOB_FREE" using find_free_slot_spec[OF Some] by simp
    have "strela_job_slot_release env (d\<lparr>dev_errnum := e\<rparr>) i = Some (d\<lparr>dev_errnum := e\<rparr>)" for e
      using ok free by (simp add: strela_job_slot_release_def strela_job_slot_finish_def assert_c_def strela_dev_initialized_def strela_dev_ok_def)
    then show ?thesis using ok True Some c
      by (cases create) (simp_all add: strela_job_config_def Let_def k create_ok_def conf_submit_def)
  qed
qed

lemma job_config_sticky: "\<not> strela_dev_ok d \<Longrightarrow> strela_job_config env create d krn conf = Some (d, \<lparr>job_valid = False, job_handle = 0\<rparr>)"
  by (simp add: strela_job_config_def)

lemma conf_submit_syncobj [simp]: "sub_out_syncobj (conf_submit d krn conf h) = h"
  by (simp add: conf_submit_def Let_def)

lemma job_config_inv:
  assumes r: "strela_job_config env create d krn conf = Some (d', job)" and inv: "slots_inv d" and c: "create_ok create d"
  shows "slots_inv d'"
proof (cases "strela_dev_ok d")
  case True
  note res = r[unfolded job_config_result[OF True c] Let_def]
  show ?thesis
  proof (cases "\<exists>i h. kernel_ok krn \<and> find_free_slot 0 (dev_jobs d) = Some i \<and> create = Inr h")
    case False
    then show ?thesis using res inv by (auto split: if_splits option.splits sum.splits)
  next
    case True
    then obtain i h where k: "kernel_ok krn" and fi: "find_free_slot 0 (dev_jobs d) = Some i" and h: "create = Inr h" by blast
    let ?s = "(dev_jobs d ! i)\<lparr>slot_phase := STRELA_JOB_CONFIGURED, slot_fence_fd := - 1, slot_submit := conf_submit d krn conf h\<rparr>"
    have d': "d' = set_slot i ?s (log_calls [Syncobj_created h] d)" using res k fi h by simp
    have i: "i < length (dev_jobs d)" and free: "slot_phase (dev_jobs d ! i) = STRELA_JOB_FREE"
      using find_free_slot_spec[OF fi] by simp_all
    have fr: "h \<noteq> 0" "h \<notin> held slot_sync (dev_jobs d)" using c h by (simp_all add: create_ok_def fresh_sync_def)
    have s: "slot_fd ?s = None" "slot_sync ?s = Some h" "slot_ok ?s" using fr(1) by (simp_all add: slot_fd_def slot_sync_def slot_ok_def)
    have o: "slot_fd (dev_jobs d ! i) = None" "slot_sync (dev_jobs d ! i) = None" using free by (simp_all add: slot_fd_def slot_sync_def)
    show ?thesis by (rule slots_inv_update[OF inv i s(3), where cs = "[Syncobj_created h]"]) (use s fr o in \<open>simp_all add: d'\<close>)
  qed
next
  case False
  then show ?thesis using r inv by (simp add: job_config_sticky)
qed

text \<open>The slot a job handle names, if its phase is one of the given set.\<close>

definition slot_of :: "strela_dev \<Rightarrow> strela_job_lib \<Rightarrow> u32 \<Rightarrow> nat option" where
  "slot_of d job P = (if job_valid job \<and> unat (job_handle job) < length (dev_jobs d)
       \<and> \<not> phase_is_in (slot_phase (dev_jobs d ! unat (job_handle job))) P
     then Some (unat (job_handle job)) else None)"

lemma slot_of_Some: "slot_of d job P = Some i \<Longrightarrow> i < length (dev_jobs d) \<and> \<not> phase_is_in (slot_phase (dev_jobs d ! i)) P"
  by (auto simp: slot_of_def split: if_splits)

lemma slot_get_result:
  "strela_job_slot_get d job P = Some (if \<not> strela_dev_ok d then (d, None) else
     case slot_of d job P of None \<Rightarrow> (d\<lparr>dev_errnum := - STRELA_ERR_BAD_ARG\<rparr>, None) | Some i \<Rightarrow> (d, Some i))"
  by (auto simp: strela_job_slot_get_def slot_of_def Let_def assert_c_def strela_err not_le)

lemma phase_sets [simp]:
  "phase_is_in p (NOT 0) \<longleftrightarrow> False"
  "phase_is_in p (phase_singleton STRELA_JOB_CONFIGURED OR phase_singleton STRELA_JOB_DONE) \<longleftrightarrow> p \<noteq> STRELA_JOB_CONFIGURED \<and> p \<noteq> STRELA_JOB_DONE"
  "phase_is_in p in_driver \<longleftrightarrow> p \<noteq> STRELA_JOB_SUBMITTED \<and> p \<noteq> STRELA_JOB_DONE"
  by (cases p; simp add: phase_is_in_def phase_singleton_def in_driver_def push_bit_eq_mult)+

lemma job_free_inv:
  assumes "strela_job_free env d job = Some d'" "slots_inv d"
  shows "slots_inv d'"
  using assms slot_of_Some[of d job "NOT 0"]
  by (auto simp: strela_job_free_def slot_get_result strela_err intro: release_inv split: if_splits option.splits)

abbreviation submittable :: u32 where
  "submittable \<equiv> phase_singleton STRELA_JOB_CONFIGURED OR phase_singleton STRELA_JOB_DONE"

text \<open>The export of the fence gives a fresh descriptor; it may fail, but not on a job that is submitted
  again (what happens then is below).\<close>

definition submit_ok :: "jsubmit_env \<Rightarrow> strela_dev \<Rightarrow> strela_job_lib \<Rightarrow> bool" where
  "submit_ok env d job = (case slot_of d job submittable of None \<Rightarrow> True
     | Some i \<Rightarrow> (case js_export env of Inl e \<Rightarrow> e \<noteq> 0 \<and> slot_phase (dev_jobs d ! i) \<noteq> STRELA_JOB_DONE | Inr fd \<Rightarrow> fresh_fd d i fd))"

text \<open>What submitting does once the slot is found.\<close>

definition submit_calls :: "jsubmit_env \<Rightarrow> strela_job_slot \<Rightarrow> lcall list" where
  "submit_calls env s = [Ioctl_submit (slot_submit s)]
     @ (if slot_phase s = STRELA_JOB_DONE then [Fd_closed (slot_fence_fd s)] else [])
     @ (case js_export env of Inl e \<Rightarrow> [] | Inr fd \<Rightarrow> [Fd_opened fd])"

definition submit_slot :: "jsubmit_env \<Rightarrow> strela_job_slot \<Rightarrow> strela_job_slot" where
  "submit_slot env s = s\<lparr>slot_phase := STRELA_JOB_SUBMITTED,
     slot_fence_fd := (case js_export env of Inl e \<Rightarrow> slot_fence_fd s | Inr fd \<Rightarrow> fd)\<rparr>"

lemma job_submit_result:
  assumes "strela_job_submit env d job = Some (d', b)"
  shows "b = strela_dev_ok d' \<and>
    (if \<not> strela_dev_ok d then d' = d else
     case slot_of d job submittable of
       None \<Rightarrow> d' = d\<lparr>dev_errnum := - STRELA_ERR_BAD_ARG\<rparr>
     | Some i \<Rightarrow>
         if js_submit env \<noteq> 0 then d' = (log_calls [Ioctl_submit (slot_submit (dev_jobs d ! i))] d)\<lparr>dev_errnum := js_submit env\<rparr>
         else d' = (set_slot i (submit_slot env (dev_jobs d ! i)) (log_calls (submit_calls env (dev_jobs d ! i)) d))
                \<lparr>dev_errnum := (case js_export env of Inl e \<Rightarrow> e | Inr fd \<Rightarrow> 0)\<rparr>)"
proof (cases "strela_dev_ok d")
  case False
  then show ?thesis using assms by (simp add: strela_job_submit_def slot_get_result)
next
  case True
  then have e: "dev_errnum d = 0" "dev_initialized d" by (simp_all add: strela_dev_ok_def strela_err)
  show ?thesis
  proof (cases "slot_of d job submittable")
    case None
    then show ?thesis using assms True by (auto simp: strela_job_submit_def slot_get_result strela_err)
  next
    case (Some i)
    then have i: "i < length (dev_jobs d)" using slot_of_Some by blast
    show ?thesis using assms True Some i e
      by (cases "js_export env")
         (auto simp: strela_job_submit_def slot_get_result Let_def assert_c_def submit_slot_def submit_calls_def set_slot_def log_calls_def
           strela_dev_ok_def strela_err split: if_splits bind_splits intro!: strela_dev.equality)
  qed
qed

lemma slots_inv_log:
  assumes "slots_inv d" "open_run cs (insert (dev_fd d) (held slot_fd (dev_jobs d)), held slot_sync (dev_jobs d), dev_maps d, False)
     = Some (insert (dev_fd d) (held slot_fd (dev_jobs d)), held slot_sync (dev_jobs d), dev_maps d, False)"
  shows "slots_inv (log_calls cs d)"
  using assms by (simp add: slots_inv_def)

lemma fresh_fdD:
  assumes "fresh_fd d i fd" "slots_inv d" "i < length (dev_jobs d)"
  shows "fd \<noteq> - 1" "slot_fd (dev_jobs d ! i) = Some fd \<or> fd \<notin> insert (dev_fd d) (held slot_fd (dev_jobs d))"
  using assms by (auto simp: fresh_fd_def slots_inv_def held_update)

lemma job_submit_inv:
  assumes r: "strela_job_submit env d job = Some (d', b)" and inv: "slots_inv d" and ok: "submit_ok env d job"
  shows "slots_inv d'"
proof (cases "strela_dev_ok d \<and> slot_of d job submittable \<noteq> None")
  case False
  then show ?thesis using job_submit_result[OF r] inv by (auto split: if_splits option.splits)
next
  case True
  then obtain i where so: "slot_of d job submittable = Some i" by blast
  let ?s = "dev_jobs d ! i" and ?t = "submit_slot env (dev_jobs d ! i)"
  have i: "i < length (dev_jobs d)" and ph: "slot_phase ?s = STRELA_JOB_CONFIGURED \<or> slot_phase ?s = STRELA_JOB_DONE"
    using slot_of_Some[OF so] by auto
  have sok: "slot_ok ?s" by (rule slots_inv_nth(1)[OF inv i])
  have sy: "slot_sync ?s = Some (sub_out_syncobj (slot_submit ?s))" "slot_sync ?t = slot_sync ?s"
    using ph by (auto simp: slot_sync_def submit_slot_def)
  have mem: "sub_out_syncobj (slot_submit ?s) \<in> held slot_sync (dev_jobs d)" using slots_inv_nth(3)[OF inv i sy(1)] .
  have res: "if js_submit env \<noteq> 0 then d' = (log_calls [Ioctl_submit (slot_submit ?s)] d)\<lparr>dev_errnum := js_submit env\<rparr>
     else d' = (set_slot i ?t (log_calls (submit_calls env ?s) d))\<lparr>dev_errnum := (case js_export env of Inl e \<Rightarrow> e | Inr fd \<Rightarrow> 0)\<rparr>"
    using job_submit_result[OF r] True so by simp
  show ?thesis
  proof (cases "js_submit env \<noteq> 0")
    case True
    then show ?thesis using res slots_inv_log[OF inv, of "[Ioctl_submit (slot_submit ?s)]"] mem by simp
  next
    case False
    then have d': "d' = (set_slot i ?t (log_calls (submit_calls env ?s) d))\<lparr>dev_errnum := (case js_export env of Inl e \<Rightarrow> e | Inr fd \<Rightarrow> 0)\<rparr>"
      using res by simp
    have t: "slot_ok ?t" using sok sy by (simp add: slot_ok_def submit_slot_def)
    show ?thesis
    proof (cases "js_export env")
      case (Inl e)
      then have c: "slot_phase ?s = STRELA_JOB_CONFIGURED" using ok so ph by (simp add: submit_ok_def)
      then have f: "slot_fd ?s = None" "slot_fd ?t = None" using sok Inl by (simp_all add: slot_fd_def submit_slot_def slot_ok_def)
      show ?thesis
        by (rule slots_inv_update[OF inv i t, where cs = "submit_calls env ?s"])
           (use sy f mem c Inl in \<open>auto simp: d' submit_calls_def\<close>)
    next
      case (Inr fd)
      then have fr: "fresh_fd d i fd" using ok so by (simp add: submit_ok_def)
      note fd = fresh_fdD[OF this inv i]
      have f: "slot_fd ?t = Some fd" using fd(1) Inr by (simp add: slot_fd_def submit_slot_def)
      have old: "slot_fd ?s = (if slot_phase ?s = STRELA_JOB_DONE then Some (slot_fence_fd ?s) else None)"
        using ph sok by (auto simp: slot_fd_def slot_ok_def)
      show ?thesis
        by (rule slots_inv_update[OF inv i t, where cs = "submit_calls env ?s"])
           (use sy f mem Inr fd old slots_inv_nth(2)[OF inv i] in \<open>auto simp: d' submit_calls_def split: if_splits\<close>)
    qed
  qed
qed

text \<open>Looking at a job: \<^verbatim>\<open>poll\<close> ignores a negative descriptor.\<close>

definition poll_ok :: "poll_result \<Rightarrow> strela_dev \<Rightarrow> strela_job_lib \<Rightarrow> bool" where
  "poll_ok ready d job = (case slot_of d job in_driver of None \<Rightarrow> True
     | Some i \<Rightarrow> ready = Poll_ready \<longrightarrow> slot_fence_fd (dev_jobs d ! i) \<noteq> - 1)"

lemma job_update_inv:
  assumes r: "strela_job_update ready info d i = Some d'" and inv: "slots_inv d" and i: "i < length (dev_jobs d)"
    and ok: "ready = Poll_ready \<Longrightarrow> slot_fence_fd (dev_jobs d ! i) \<noteq> - 1"
  shows "slots_inv d'"
proof (cases "slot_phase (dev_jobs d ! i) \<noteq> STRELA_JOB_DONE \<and> ready = Poll_ready \<and> (\<exists>st. info = Inr st)")
  case False
  then show ?thesis using r inv by (auto simp: strela_job_update_def assert_c_def Let_def split: if_splits poll_result.splits sum.splits)
next
  case True
  let ?s = "dev_jobs d ! i"
  obtain st where st: "info = Inr st" using True by blast
  let ?t = "?s\<lparr>slot_status := st, slot_phase := STRELA_JOB_DONE\<rparr>"
  have d': "d' = set_slot i ?t d" and ph: "slot_phase ?s \<noteq> STRELA_JOB_FREE"
    using r True st by (auto simp: strela_job_update_def assert_c_def Let_def split: if_splits)
  have nfd: "slot_fence_fd ?s \<noteq> - 1" using ok True by blast
  have eq: "slot_fd ?t = slot_fd ?s" "slot_sync ?t = slot_sync ?s" using ph by (simp_all add: slot_fd_def slot_sync_def)
  have t: "slot_ok ?t" using slots_inv_nth(1)[OF inv i] nfd eq by (simp add: slot_ok_def)
  have sub: "set_option (slot_fd ?s) \<subseteq> held slot_fd (dev_jobs d)" "set_option (slot_sync ?s) \<subseteq> held slot_sync (dev_jobs d)"
    using slots_inv_nth(2,3)[OF inv i] by auto
  show ?thesis
    by (rule slots_inv_update[OF inv i t, where cs = "[]"]) (use eq sub in \<open>auto simp: d'\<close>)
qed

lemma job_poll_inv:
  assumes "strela_job_poll ready info d job = Some (d', st)" "slots_inv d" "poll_ok ready d job"
  shows "slots_inv d'"
  using assms slot_of_Some[of d job in_driver]
  by (auto simp: strela_job_poll_def slot_get_result poll_ok_def strela_err Let_def intro: job_update_inv split: if_splits option.splits bind_splits)

lemma job_wait_inv:
  assumes "strela_job_wait ready info d job = Some (d', st)" "slots_inv d" "poll_ok ready d job"
  shows "slots_inv d'"
  using assms slot_of_Some[of d job in_driver]
  by (auto simp: strela_job_wait_def slot_get_result poll_ok_def strela_err intro: job_update_inv split: if_splits option.splits bind_splits)

lemma job_fd_inv: "strela_job_fd d job = Some (d', fd) \<Longrightarrow> slots_inv d \<Longrightarrow> slots_inv d'"
  by (auto simp: strela_job_fd_def slot_get_result split: if_splits option.splits)

end
