(* ===== verification/LibInit.thy ===== *)
theory LibInit
  imports LibJobInv
begin

text \<open>
  Finding, opening and closing a device (\<^verbatim>\<open>src/lib/strela.c\<close>): the iterator over \<^verbatim>\<open>/dev/accel\<close>,
  \<^verbatim>\<open>strela_dev_count\<close>, \<^verbatim>\<open>strela_dev_init\<close> and \<^verbatim>\<open>strela_dev_deinit\<close>.  The directory is an input: its entries
  in the order \<^verbatim>\<open>readdir\<close> gives them with the \<^verbatim>\<open>errno\<close> at the end, and for every name what opening the
  file and asking for the name of its driver gives.
\<close>

section \<open>The files of the accelerators\<close>

datatype accel_open = Open_failed | Version_failed int | Version_ok int string

record accel_env =
  ae_dir :: "int + string list \<times> int"
  ae_open :: "string \<Rightarrow> accel_open"

definition STRELA_DRM_NAME :: string where "STRELA_DRM_NAME = ''strela''"

record accel_fd =
  afd_fd :: int
  drm_name :: string

text \<open>The driver's name is cut to the buffer, 15 characters and the terminator.\<close>

definition accel_openat :: "accel_env \<Rightarrow> string \<Rightarrow> lcall list \<times> accel_fd" where
  "accel_openat env name =
     (case ae_open env name of
        Open_failed \<Rightarrow> ([], \<lparr>afd_fd = - 1, drm_name = ''''\<rparr>)
      | Version_failed fd \<Rightarrow> ([Fd_opened fd, Fd_closed fd], \<lparr>afd_fd = - 1, drm_name = ''''\<rparr>)
      | Version_ok fd nm \<Rightarrow> ([Fd_opened fd], \<lparr>afd_fd = fd, drm_name = take 15 nm\<rparr>))"

text \<open>A C string ends at its first zero.\<close>

definition strcmp_eq :: "string \<Rightarrow> string \<Rightarrow> bool" where
  "strcmp_eq s t \<longleftrightarrow> takeWhile (\<lambda>c. c \<noteq> CHR 0x00) s = takeWhile (\<lambda>c. c \<noteq> CHR 0x00) t"

record accel_iter =
  it_dir :: "(string list \<times> int) option"
  myerrno :: int
  it_valid :: bool
  ent_name :: "string option"

definition accel_iter_is_valid :: "accel_iter \<Rightarrow> bool" where
  "accel_iter_is_valid iter = it_valid iter"

definition accel_iter_close :: "accel_iter \<Rightarrow> lcall list \<times> accel_iter" where
  "accel_iter_close iter =
     (if it_dir iter \<noteq> None
      then ([Dir_closed], iter\<lparr>it_dir := None, it_valid := False, ent_name := None\<rparr>) else ([], iter))"

primrec iter_next_loop :: "string list \<Rightarrow> int \<Rightarrow> accel_iter \<Rightarrow> lcall list \<times> accel_iter" where
  "iter_next_loop [] err iter = accel_iter_close (iter\<lparr>myerrno := err\<rparr>)"
| "iter_next_loop (n # ns) err iter =
     (if n \<noteq> [] \<and> hd n = CHR ''.'' then iter_next_loop ns err iter
      else ([], iter\<lparr>it_dir := Some (ns, err), it_valid := True, ent_name := Some n\<rparr>))"

definition accel_iter_next :: "accel_iter \<Rightarrow> lcall list \<times> accel_iter" where
  "accel_iter_next iter =
     (let iter = iter\<lparr>it_valid := False\<rparr> in
      case it_dir iter of None \<Rightarrow> ([], iter) | Some (ns, err) \<Rightarrow> iter_next_loop ns err iter)"


definition accel_iter_make :: "accel_env \<Rightarrow> lcall list \<times> accel_iter" where
  "accel_iter_make env =
     (case ae_dir env of
        Inl e \<Rightarrow> accel_iter_next \<lparr>it_dir = None, myerrno = (if e \<noteq> ENOENT then e else 0), it_valid = False, ent_name = None\<rparr>
      | Inr dir \<Rightarrow>
          (let (cs, iter) = accel_iter_next \<lparr>it_dir = Some dir, myerrno = 0, it_valid = True, ent_name = None\<rparr>
           in (Dir_opened # cs, iter)))"

text \<open>How much of the directory is left.\<close>

definition iter_left :: "accel_iter \<Rightarrow> nat" where
  "iter_left iter = of_bool (it_valid iter) + (case it_dir iter of None \<Rightarrow> 0 | Some (ns, err) \<Rightarrow> Suc (length ns))"

lemma iter_next_loop_left:
  "it_dir iter \<noteq> None \<Longrightarrow> iter_left (snd (iter_next_loop ns err iter)) \<le> Suc (length ns)"
  by (induction ns) (auto simp: iter_left_def accel_iter_close_def)

lemma iter_next_left: "it_valid iter \<Longrightarrow> iter_left (snd (accel_iter_next iter)) < iter_left iter"
  using iter_next_loop_left[of "iter\<lparr>it_valid := False\<rparr>"]
  by (auto simp: accel_iter_next_def Let_def iter_left_def[of iter] less_Suc_eq_le split: option.splits) (simp add: iter_left_def)

lemma iter_next_dec: "(cs, iter') = accel_iter_next iter \<Longrightarrow> it_valid iter \<Longrightarrow> iter_left iter' < iter_left iter"
  using iter_next_left[of iter] by (metis snd_conv)

function count_loop :: "accel_env \<Rightarrow> accel_iter \<Rightarrow> u32 \<Rightarrow> lcall list \<times> accel_iter \<times> u32" where
  "count_loop env iter count =
     (if accel_iter_is_valid iter then
        (let (cs, fd) = accel_openat env (the (ent_name iter));
             (cs, count) =
               (if afd_fd fd \<noteq> - 1 then
                  (cs @ [Fd_closed (afd_fd fd)], if strcmp_eq STRELA_DRM_NAME (drm_name fd) then count + 1 else count)
                else (cs, count));
             (cs', iter) = accel_iter_next iter;
             (cs'', iter, count) = count_loop env iter count
         in (cs @ cs' @ cs'', iter, count))
      else ([], iter, count))"
  by pat_completeness auto
termination
  by (relation "measure (\<lambda>(env, iter, count). iter_left iter)")
     (auto simp: accel_iter_is_valid_def dest: iter_next_dec)

definition strela_dev_count :: "accel_env \<Rightarrow> lcall list \<times> u32 \<times> int" where
  "strela_dev_count env =
     (let (cs, iter) = accel_iter_make env;
          (cs', iter, count) = count_loop env iter 0
      in (cs @ cs', count, if myerrno iter \<noteq> 0 then - 1 else 0))"

section \<open>Opening a device\<close>

function find_loop :: "accel_env \<Rightarrow> u32 \<Rightarrow> accel_iter \<Rightarrow> u32 \<Rightarrow> lcall list \<times> int" where
  "find_loop env which_strela iter count =
     (if accel_iter_is_valid iter then
        (let (cs, afd) = accel_openat env (the (ent_name iter));
             is_strela = (afd_fd afd \<noteq> - 1 \<and> strcmp_eq STRELA_DRM_NAME (drm_name afd))
         in if is_strela \<and> count = which_strela then (cs @ fst (accel_iter_close iter), afd_fd afd)
            else
              (let count = (if is_strela then count + 1 else count);
                   cs = (if afd_fd afd \<noteq> - 1 then cs @ [Fd_closed (afd_fd afd)] else cs);
                   (cs', iter) = accel_iter_next iter;
                   (cs'', fd) = find_loop env which_strela iter count
               in (cs @ cs' @ cs'', fd)))
      else ([], - 1))"
  by pat_completeness auto
termination
  by (relation "measure (\<lambda>(env, w, iter, count). iter_left iter)")
     (auto simp: accel_iter_is_valid_def dest: iter_next_dec)

definition MAP_FAILED :: addr where "MAP_FAILED = 0xFFFFFFFF"

definition strela_dev_deinit_internal :: "bool \<Rightarrow> bool \<Rightarrow> addr \<Rightarrow> addr \<Rightarrow> int \<Rightarrow> lcall list option" where
  "strela_dev_deinit_internal munmap_ok close_ok tensors_base kernels_base device_fd = do {
     cs \<leftarrow> (if tensors_base \<noteq> 0 \<and> tensors_base \<noteq> MAP_FAILED
             then do { assert_c munmap_ok; Some [Unmapped tensors_base] } else Some []);
     cs' \<leftarrow> (if kernels_base \<noteq> 0 \<and> kernels_base \<noteq> MAP_FAILED
             then do { assert_c munmap_ok; Some [Unmapped kernels_base] } else Some []);
     cs'' \<leftarrow> (if device_fd \<noteq> - 1 then do { assert_c close_ok; Some [Fd_closed device_fd] } else Some []);
     Some (cs @ cs' @ cs'')
   }"

text \<open>The outcomes of the calls of \<^verbatim>\<open>strela_dev_init\<close>: of the two creations the handle, of the two mappings
  the address.\<close>

record init_env =
  ie_accel :: accel_env
  ie_gem_kernels :: "int + u32"
  ie_map_kernels :: "int + addr"
  ie_gem_tensors :: "int + u32"
  ie_map_tensors :: "int + addr"
  ie_munmap :: bool
  ie_close :: bool
  ie_release :: "nat \<Rightarrow> release_env"


text \<open>The calls up to the mappings: the device with the error so far, the descriptor, and the two handles and
  addresses.\<close>

definition init_gem :: "int + u32 \<Rightarrow> strela_dev \<Rightarrow> strela_dev \<times> u32" where
  "init_gem answer dev =
     (if dev_errnum dev = STRELA_ERR_OK
      then (case answer of Inl e \<Rightarrow> (dev\<lparr>dev_errnum := e\<rparr>, 0) | Inr h \<Rightarrow> (dev, h))
      else (dev, 0))"

definition init_map :: "int + addr \<Rightarrow> strela_dev \<Rightarrow> strela_dev \<times> addr" where
  "init_map answer dev =
     (if dev_errnum dev = STRELA_ERR_OK
      then (case answer of Inl e \<Rightarrow> (dev\<lparr>dev_errnum := e\<rparr>, MAP_FAILED) | Inr a \<Rightarrow> (log_calls [Mapped a] dev, a))
      else (dev, 0))"

definition init_acquire :: "init_env \<Rightarrow> u32 \<Rightarrow> strela_dev \<Rightarrow> strela_dev \<times> int \<times> (u32 \<times> addr) \<times> u32 \<times> addr" where
  "init_acquire env which_strela dev =
     (let (cs, iter) = accel_iter_make (ie_accel env);
          (cs', fd) = find_loop (ie_accel env) which_strela iter 0;
          dev = log_calls (cs @ cs') dev;
          dev = (if fd = - 1 then dev\<lparr>dev_errnum := ENODEV\<rparr> else dev);
          (dev, kernels_handle) = init_gem (ie_gem_kernels env) dev;
          (dev, kernels_base) = init_map (ie_map_kernels env) dev;
          (dev, tensors_handle) = init_gem (ie_gem_tensors env) dev;
          (dev, tensors_base) = init_map (ie_map_tensors env) dev
      in (dev, fd, (kernels_handle, kernels_base), tensors_handle, tensors_base))"

definition init_first :: "init_env \<Rightarrow> u32 \<Rightarrow> strela_dev \<Rightarrow> strela_dev option" where
  "init_first env which_strela dev =
     (case init_acquire env which_strela dev of (dev, fd, (kernels_handle, kernels_base), tensors_handle, tensors_base) \<Rightarrow>
        if dev_errnum dev = STRELA_ERR_OK then do {
          let dev = dev\<lparr>dev_fd := fd, dev_initialized := True, tensors_bo_handle := tensors_handle, tensors_bo_map := tensors_base,
                 kernels_bo_handle := kernels_handle, kernels_bo_map := kernels_base\<rparr>;
          (m, p) \<leftarrow> pool_init (dev_mem dev) (kernels_bo_map dev) STRELA_KERNEL_MEMORY_SIZE (4 * STRELA_KERNEL_SIZE) 4;
          (m, fl) \<leftarrow> free_list_init m (buffer_free_list dev) (tensors_bo_map dev) STRELA_TENSOR_MEMORY_SIZE;
          Some (dev\<lparr>dev_mem := m, kernel_pool := p, buffer_free_list := fl,
                 backward_compat_job := \<lparr>job_valid = False, job_handle = 0\<rparr>, dev_jobs := replicate STRELA_JOBS_MAX zero_slot\<rparr>)
        } else do {
          assert_c (\<not> dev_initialized dev);
          cs \<leftarrow> strela_dev_deinit_internal (ie_munmap env) (ie_close env) tensors_base kernels_base fd;
          Some (log_calls cs dev)
        })"

text \<open>\<open>dev\<close> is \<^verbatim>\<open>devices[which_strela]\<close>.\<close>

definition strela_dev_init :: "init_env \<Rightarrow> u32 \<Rightarrow> strela_dev \<Rightarrow> strela_dev option" where
  "strela_dev_init env which_strela dev = do {
     assert_c (unat which_strela < STRELA_DEVICE_MAX);
     let dev = dev\<lparr>dev_errnum := STRELA_ERR_OK\<rparr>;
     dev \<leftarrow> (if \<not> dev_initialized dev then init_first env which_strela dev else Some dev);
     dev \<leftarrow> (if dev_initialized dev then do {
        assert_c (dev_errnum dev = STRELA_ERR_OK);
        dev \<leftarrow> strela_job_free_all (ie_release env) dev;
        Some (strela_kernel_free_all (strela_buffer_free_all dev))
      } else Some dev);
     assert_c ((dev_errnum dev \<noteq> 0) = (\<not> dev_initialized dev));
     Some dev
   }"

text \<open>The zeroed structure; the memory and the record of the calls stay.\<close>

definition zero_dev :: "mem \<Rightarrow> lcall list \<Rightarrow> strela_dev" where
  "zero_dev m cs = \<lparr>dev_fd = 0, tensors_bo_handle = 0, tensors_bo_map = 0, kernels_bo_handle = 0, kernels_bo_map = 0,
     backward_compat_job = \<lparr>job_valid = False, job_handle = 0\<rparr>, dev_initialized = False, dev_errnum = 0,
     kernel_pool = \<lparr>p_buf = 0, p_buf_len = 0, p_chunk_size = 0, p_head = 0\<rparr>,
     buffer_free_list = \<lparr>fl_data = 0, fl_size = 0, fl_used = 0, fl_head = 0, fl_policy = Placement_Policy_Find_First\<rparr>,
     dev_jobs = replicate STRELA_JOBS_MAX zero_slot, dev_mem = m, dev_calls = cs\<rparr>"

definition strela_dev_deinit :: "bool \<Rightarrow> bool \<Rightarrow> (nat \<Rightarrow> release_env) \<Rightarrow> strela_dev \<Rightarrow> strela_dev option" where
  "strela_dev_deinit munmap_ok close_ok env dev = do {
     dev \<leftarrow> (if dev_initialized dev then do {
        dev \<leftarrow> strela_job_free_all env dev;
        cs \<leftarrow> strela_dev_deinit_internal munmap_ok close_ok (tensors_bo_map dev) (kernels_bo_map dev) (dev_fd dev);
        Some (log_calls cs dev)
      } else Some dev);
     Some (zero_dev (dev_mem dev) (dev_calls dev))
   }"

section \<open>Walking the directory\<close>

declare count_loop.simps [simp del] find_loop.simps [simp del]

text \<open>The files the iterator shows, and those that belong to the driver.\<close>

definition visible :: "string \<Rightarrow> bool" where
  "visible n \<longleftrightarrow> \<not> (n \<noteq> [] \<and> hd n = CHR ''.'')"

definition strela_fd :: "accel_env \<Rightarrow> string \<Rightarrow> int option" where
  "strela_fd env n = (case ae_open env n of
     Version_ok fd nm \<Rightarrow> if fd \<noteq> - 1 \<and> strcmp_eq STRELA_DRM_NAME (take 15 nm) then Some fd else None | _ \<Rightarrow> None)"

definition strela_fds :: "accel_env \<Rightarrow> string list \<Rightarrow> int list" where
  "strela_fds env ns = List.map_filter (strela_fd env) (filter visible ns)"

text \<open>What \<^verbatim>\<open>openat\<close> promises: a descriptor that is not -1 and not open yet.\<close>

definition accel_ok :: "accel_env \<Rightarrow> int set \<Rightarrow> bool" where
  "accel_ok env F \<longleftrightarrow> (\<forall>n. case ae_open env n of Open_failed \<Rightarrow> True
     | Version_failed fd \<Rightarrow> fd \<noteq> - 1 \<and> fd \<notin> F | Version_ok fd nm \<Rightarrow> fd \<noteq> - 1 \<and> fd \<notin> F)"

lemma iter_next_loop_result:
  assumes "it_dir iter \<noteq> None" "\<not> it_valid iter"
  shows "iter_next_loop ns err iter =
    (case dropWhile (\<lambda>n. \<not> visible n) ns of
       [] \<Rightarrow> ([Dir_closed], iter\<lparr>it_dir := None, myerrno := err, ent_name := None, it_valid := False\<rparr>)
     | n # ns' \<Rightarrow> ([], iter\<lparr>it_dir := Some (ns', err), it_valid := True, ent_name := Some n\<rparr>))"
  using assms by (induction ns) (auto simp: accel_iter_close_def visible_def)

lemma filter_dropWhile_not: "filter P xs = (case dropWhile (\<lambda>x. \<not> P x) xs of [] \<Rightarrow> [] | y # ys \<Rightarrow> y # filter P ys)"
  by (induction xs) auto

text \<open>An iterator on the file \<open>n\<close> with \<open>ns\<close> still to read.\<close>

definition iter_at :: "accel_iter \<Rightarrow> string \<Rightarrow> string list \<Rightarrow> int \<Rightarrow> bool" where
  "iter_at iter n ns err \<longleftrightarrow> it_valid iter \<and> ent_name iter = Some n \<and> it_dir iter = Some (ns, err)"

definition iter_end :: "accel_iter \<Rightarrow> int \<Rightarrow> bool" where
  "iter_end iter err \<longleftrightarrow> \<not> it_valid iter \<and> it_dir iter = None \<and> myerrno iter = err"

lemma iter_next_result:
  assumes "it_dir iter = Some (ns, err)"
  shows "case filter visible ns of
      [] \<Rightarrow> \<exists>it'. accel_iter_next iter = ([Dir_closed], it') \<and> iter_end it' err
    | n # ms \<Rightarrow> \<exists>it' ns'. accel_iter_next iter = ([], it') \<and> iter_at it' n ns' err \<and> filter visible ns' = ms \<and> length ns' < length ns"
proof -
  have eq: "accel_iter_next iter = iter_next_loop ns err (iter\<lparr>it_valid := False\<rparr>)"
    using assms by (simp add: accel_iter_next_def Let_def)
  have len: "length ns' < length ns" if "dropWhile (\<lambda>n. \<not> visible n) ns = n # ns'" for n ns'
    using length_dropWhile_le[of "\<lambda>n. \<not> visible n" ns] that by simp
  have pre: "it_dir (iter\<lparr>it_valid := False\<rparr>) \<noteq> None" "\<not> it_valid (iter\<lparr>it_valid := False\<rparr>)" using assms by simp_all
  show ?thesis
  proof (cases "dropWhile (\<lambda>n. \<not> visible n) ns")
    case Nil
    show ?thesis unfolding eq filter_dropWhile_not[of visible ns] iter_next_loop_result[OF pre] Nil
      by (simp add: iter_end_def)
  next
    case (Cons n ns')
    show ?thesis unfolding eq filter_dropWhile_not[of visible ns] iter_next_loop_result[OF pre] Cons
      using len[OF Cons] by (simp add: iter_at_def)
  qed
qed

lemma iter_make_result:
  assumes "ae_dir env = Inr (ns, err)"
  shows "case filter visible ns of
      [] \<Rightarrow> \<exists>it'. accel_iter_make env = ([Dir_opened, Dir_closed], it') \<and> iter_end it' err
    | n # ms \<Rightarrow> \<exists>it' ns'. accel_iter_make env = ([Dir_opened], it') \<and> iter_at it' n ns' err \<and> filter visible ns' = ms"
  using iter_next_result[of "\<lparr>it_dir = Some (ns, err), myerrno = 0, it_valid = True, ent_name = None\<rparr>" ns err]
  by (auto simp: accel_iter_make_def assms split: list.splits)

lemma openat_run:
  assumes "accel_ok env F" "accel_openat env n = (cs, fd)"
  shows "(if afd_fd fd = - 1 then open_run cs (F, S, R) = Some (F, S, R)
      else open_run cs (F, S, R) = Some (insert (afd_fd fd) F, S, R) \<and> afd_fd fd \<notin> F)"
    "(if afd_fd fd \<noteq> - 1 \<and> strcmp_eq STRELA_DRM_NAME (drm_name fd) then Some (afd_fd fd) else None) = strela_fd env n"
proof -
  have "case ae_open env n of Open_failed \<Rightarrow> True | Version_failed fd \<Rightarrow> fd \<noteq> - 1 \<and> fd \<notin> F | Version_ok fd nm \<Rightarrow> fd \<noteq> - 1 \<and> fd \<notin> F"
    using assms(1) by (simp add: accel_ok_def)
  then show "(if afd_fd fd = - 1 then open_run cs (F, S, R) = Some (F, S, R)
      else open_run cs (F, S, R) = Some (insert (afd_fd fd) F, S, R) \<and> afd_fd fd \<notin> F)"
    using assms(2) by (auto simp: accel_openat_def split: accel_open.splits)
  show "(if afd_fd fd \<noteq> - 1 \<and> strcmp_eq STRELA_DRM_NAME (drm_name fd) then Some (afd_fd fd) else None) = strela_fd env n"
    using assms(2) by (auto simp: accel_openat_def strela_fd_def split: accel_open.splits)
qed

lemma openat_close_run:
  assumes "accel_ok env F" "accel_openat env n = (cs, fd)"
  shows "open_run (if afd_fd fd \<noteq> - 1 then cs @ [Fd_closed (afd_fd fd)] else cs) (F, S, R) = Some (F, S, R)"
  using openat_run(1)[OF assms, of S R] by (auto split: if_splits)

lemma count_loop_result:
  assumes "accel_ok env F" "iter_at iter n ns err"
  shows "\<exists>cs it'. count_loop env iter c = (cs, it', c + word_of_nat (length (List.map_filter (strela_fd env) (n # filter visible ns))))
    \<and> iter_end it' err \<and> open_run cs (F, S, M, True) = Some (F, S, M, False)"
  using assms(2)
proof (induction "length ns" arbitrary: iter n ns c rule: less_induct)
  case less
  have it: "it_valid iter" "ent_name iter = Some n" "it_dir iter = Some (ns, err)" using less.prems by (simp_all add: iter_at_def)
  obtain cs1 fd where o: "accel_openat env n = (cs1, fd)" by (metis surj_pair)
  define cs2 where "cs2 = (if afd_fd fd \<noteq> - 1 then cs1 @ [Fd_closed (afd_fd fd)] else cs1)"
  define c' where "c' = c + word_of_nat (length (List.map_filter (strela_fd env) [n]))"
  have r1: "open_run cs2 (F, S, M, True) = Some (F, S, M, True)" unfolding cs2_def by (rule openat_close_run[OF assms(1) o])
  have body: "(if afd_fd fd \<noteq> - 1 then (cs1 @ [Fd_closed (afd_fd fd)], if strcmp_eq STRELA_DRM_NAME (drm_name fd) then c + 1 else c)
      else (cs1, c)) = (cs2, c')"
    using openat_run(2)[OF assms(1) o, symmetric] by (auto simp: cs2_def c'_def List.map_filter_def split: if_splits)
  have step: "count_loop env iter c =
      (let (cs', it1) = accel_iter_next iter; (cs'', it2, c'') = count_loop env it1 c' in (cs2 @ cs' @ cs'', it2, c''))"
    using it o body by (subst count_loop.simps) (simp add: accel_iter_is_valid_def Let_def)
  show ?case
  proof (cases "filter visible ns")
    case Nil
    then obtain it1 where n1: "accel_iter_next iter = ([Dir_closed], it1)" "iter_end it1 err" using iter_next_result[OF it(3)] by auto
    have "count_loop env it1 c' = ([], it1, c')"
      using n1(2) by (subst count_loop.simps) (simp add: iter_end_def accel_iter_is_valid_def)
    then show ?thesis using step n1 r1 Nil by (simp add: c'_def)
  next
    case (Cons k ms)
    then obtain it1 ns' where n1: "accel_iter_next iter = ([], it1)" "iter_at it1 k ns' err" "filter visible ns' = ms" "length ns' < length ns"
      using iter_next_result[OF it(3)] by auto
    obtain cs it' where IH: "count_loop env it1 c' = (cs, it', c' + word_of_nat (length (List.map_filter (strela_fd env) (k # filter visible ns'))))"
      "iter_end it' err" "open_run cs (F, S, M, True) = Some (F, S, M, False)" using less.hyps[OF n1(4,2), of c'] by blast
    have "length (List.map_filter (strela_fd env) (n # k # ms))
        = length (List.map_filter (strela_fd env) [n]) + length (List.map_filter (strela_fd env) (k # ms))"
      by (simp add: List.map_filter_def)
    then show ?thesis using step n1 IH r1 Cons by (simp add: c'_def)
  qed
qed

text \<open>C34. \<^verbatim>\<open>strela_dev_count\<close> counts exactly the visible files of \<^verbatim>\<open>/dev/accel\<close> that open and whose driver is
  called strela, returns -1 exactly when reading the directory failed (a missing directory counts
  none), and leaves no file and no directory open.\<close>

theorem strela_dev_count_exact:
  assumes "accel_ok env F"
  shows "\<exists>cs. strela_dev_count env =
      (cs, case ae_dir env of Inl e \<Rightarrow> 0 | Inr (ns, err) \<Rightarrow> word_of_nat (length (strela_fds env ns)),
       if (case ae_dir env of Inl e \<Rightarrow> e \<noteq> ENOENT \<and> e \<noteq> 0 | Inr (ns, err) \<Rightarrow> err \<noteq> 0) then - 1 else 0)
    \<and> open_run cs (F, S, M, False) = Some (F, S, M, False)"
proof (cases "ae_dir env")
  case (Inl e)
  then show ?thesis
    by (simp add: strela_dev_count_def accel_iter_make_def accel_iter_next_def count_loop.simps accel_iter_is_valid_def ENOENT_def)
next
  case (Inr dir)
  obtain ns err where d: "dir = (ns, err)" by (metis surj_pair)
  note mk = iter_make_result[OF Inr[unfolded d]]
  show ?thesis
  proof (cases "filter visible ns")
    case Nil
    then obtain it1 where "accel_iter_make env = ([Dir_opened, Dir_closed], it1)" "iter_end it1 err" using mk by auto
    moreover have "strela_fds env ns = []" unfolding strela_fds_def Nil by (simp add: map_filter_simps)
    ultimately show ?thesis
      by (simp add: strela_dev_count_def Inr d count_loop.simps iter_end_def accel_iter_is_valid_def)
  next
    case (Cons k ms)
    then obtain it1 ns' where m: "accel_iter_make env = ([Dir_opened], it1)" "iter_at it1 k ns' err" "filter visible ns' = ms" using mk by auto
    obtain cs it' where "count_loop env it1 0 = (cs, it', 0 + word_of_nat (length (List.map_filter (strela_fd env) (k # filter visible ns'))))"
      "iter_end it' err" "open_run cs (F, S, M, True) = Some (F, S, M, False)" using count_loop_result[OF assms m(2), of 0 S M] by blast
    then show ?thesis using m Cons
      by (simp add: strela_dev_count_def Inr d iter_end_def strela_fds_def)
  qed
qed

definition two_cards :: accel_env where
  "two_cards = \<lparr>ae_dir = Inr ([''.'', ''..'', ''accel0'', ''accel1'', ''accel2''], 0),
     ae_open = (\<lambda>n. if n = ''accel1'' then Version_ok 5 ''rocket'' else if n = ''accel0'' \<or> n = ''accel2'' then Version_ok 5 ''strela'' else Open_failed)\<rparr>"

theorem strela_dev_count_exact_witness:
  "accel_ok two_cards {3} \<and> (\<exists>cs. strela_dev_count two_cards = (cs, 2, 0) \<and> open_run cs ({3}, {}, {}, False) = Some ({3}, {}, {}, False))"
proof -
  have ok: "accel_ok two_cards {3}" by (auto simp: accel_ok_def two_cards_def)
  have "length (strela_fds two_cards [''.'', ''..'', ''accel0'', ''accel1'', ''accel2'']) = 2"
    by (simp add: strela_fds_def List.map_filter_def visible_def strela_fd_def two_cards_def strcmp_eq_def STRELA_DRM_NAME_def)
  moreover have "ae_dir two_cards = Inr ([''.'', ''..'', ''accel0'', ''accel1'', ''accel2''], 0)" by (simp add: two_cards_def)
  ultimately show ?thesis using ok strela_dev_count_exact[OF ok, of "{}" "{}"] by simp
qed

section \<open>Finding a device\<close>

text \<open>The counter after a file that is not the one looked for.\<close>

lemma count_up:
  fixes c w :: u32
  assumes "unat c \<le> unat w" "\<not> (f \<noteq> None \<and> c = w)"
  defines "c' \<equiv> if f = None then c else c + 1"
  shows "unat c' \<le> unat w \<and> unat c' = unat c + (if f = None then 0 else 1)"
proof (cases f)
  case (Some x)
  then have lt: "unat c < unat w" using assms(1,2) by (auto simp: word_unat_eq_iff)
  moreover have "unat w < 4294967296" by (rule order.strict_trans2[OF unsigned_less]) simp
  then have "unat c + 1 < 4294967296" using lt by linarith
  then have "unat (c + 1) = unat c + 1" using unat_add_of_nat[of c 1] by simp
  ultimately show ?thesis using Some by (simp add: c'_def)
qed (use assms(1) in \<open>simp add: c'_def\<close>)

text \<open>Counting on, the position in the rest of the list.\<close>

lemma map_filter_position:
  fixes c c' w :: nat
  assumes "c' \<le> w" "c' = c + (if f n = None then 0 else 1)"
  shows "w - c' < length (List.map_filter f ns) \<longleftrightarrow> w - c < length (List.map_filter f (n # ns))"
    "List.map_filter f (n # ns) ! (w - c) = List.map_filter f ns ! (w - c')"
  using assms by (auto simp: map_filter_simps Suc_diff_le nth_Cons' split: option.splits)

lemma find_loop_result:
  assumes "accel_ok env F" "iter_at iter n ns err" "unat c \<le> unat w"
  defines "fds \<equiv> List.map_filter (strela_fd env) (n # filter visible ns)"
  shows "\<exists>cs. if unat w - unat c < length fds
    then find_loop env w iter c = (cs, fds ! (unat w - unat c)) \<and> fds ! (unat w - unat c) \<noteq> - 1 \<and> fds ! (unat w - unat c) \<notin> F
      \<and> open_run cs (F, S, M, True) = Some (insert (fds ! (unat w - unat c)) F, S, M, False)
    else find_loop env w iter c = (cs, - 1) \<and> open_run cs (F, S, M, True) = Some (F, S, M, False)"
  using assms(2,3) unfolding fds_def
proof (induction "length ns" arbitrary: iter n ns c rule: less_induct)
  case less
  have it: "it_valid iter" "ent_name iter = Some n" "it_dir iter = Some (ns, err)" using less.prems(1) by (simp_all add: iter_at_def)
  obtain cs1 fd where o: "accel_openat env n = (cs1, fd)" by (metis surj_pair)
  note o1 = openat_run(1)[OF assms(1) o, of S "(M, True)"] and o2 = openat_run(2)[OF assms(1) o, symmetric]
  show ?case
  proof (cases "strela_fd env n \<noteq> None \<and> c = w")
    case True
    then have s: "afd_fd fd \<noteq> - 1" "strcmp_eq STRELA_DRM_NAME (drm_name fd)" "strela_fd env n = Some (afd_fd fd)"
      using o2 by (auto split: if_splits)
    have "find_loop env w iter c = (cs1 @ [Dir_closed], afd_fd fd)"
      using it o s True by (subst find_loop.simps) (simp add: accel_iter_is_valid_def Let_def accel_iter_close_def)
    then show ?thesis using True s o1 by (simp add: map_filter_simps)
  next
    case False
    define cs2 where "cs2 = (if afd_fd fd \<noteq> - 1 then cs1 @ [Fd_closed (afd_fd fd)] else cs1)"
    define c' where "c' = (if strela_fd env n = None then c else c + 1)"
    have r1: "open_run cs2 (F, S, M, True) = Some (F, S, M, True)" unfolding cs2_def by (rule openat_close_run[OF assms(1) o])
    have cw: "unat c' \<le> unat w \<and> unat c' = unat c + (if strela_fd env n = None then 0 else 1)"
      unfolding c'_def by (rule count_up[OF less.prems(2) False])
    have step: "find_loop env w iter c =
        (let (cs', it1) = accel_iter_next iter; (cs'', r) = find_loop env w it1 c' in (cs2 @ cs' @ cs'', r))"
      using it o False o2
      by (subst find_loop.simps) (auto simp: accel_iter_is_valid_def Let_def cs2_def c'_def split: if_splits prod.splits)
    show ?thesis
    proof (cases "filter visible ns")
      case Nil
      then obtain it1 where n1: "accel_iter_next iter = ([Dir_closed], it1)" "iter_end it1 err" using iter_next_result[OF it(3)] by auto
      have "find_loop env w it1 c' = ([], - 1)"
        using n1(2) by (subst find_loop.simps) (simp add: iter_end_def accel_iter_is_valid_def)
      moreover have "\<not> unat w - unat c < length (List.map_filter (strela_fd env) [n])"
        using cw False by (auto simp: map_filter_simps split: option.splits)
      ultimately show ?thesis using step n1 r1 Nil by simp
    next
      case (Cons k ms)
      then obtain it1 ns' where n1: "accel_iter_next iter = ([], it1)" "iter_at it1 k ns' err" "filter visible ns' = ms" "length ns' < length ns"
        using iter_next_result[OF it(3)] by auto
      let ?g = "List.map_filter (strela_fd env) (k # ms)" and ?f = "List.map_filter (strela_fd env) (n # k # ms)"
      obtain cs where IH: "if unat w - unat c' < length ?g
          then find_loop env w it1 c' = (cs, ?g ! (unat w - unat c')) \<and> ?g ! (unat w - unat c') \<noteq> - 1 \<and> ?g ! (unat w - unat c') \<notin> F
            \<and> open_run cs (F, S, M, True) = Some (insert (?g ! (unat w - unat c')) F, S, M, False)
          else find_loop env w it1 c' = (cs, - 1) \<and> open_run cs (F, S, M, True) = Some (F, S, M, False)"
        using less.hyps[OF n1(4,2), of c'] cw unfolding n1(3) by blast
      note pos = map_filter_position[of "unat c'" "unat w" "unat c" "strela_fd env" n "k # ms", OF conjunct1[OF cw] conjunct2[OF cw]]
      show ?thesis using step n1 IH r1 unfolding Cons pos by (cases "unat w - unat c < length ?f") simp_all
    qed
  qed
qed

lemma find_result:
  assumes "accel_ok env F" "accel_iter_make env = (cs, iter)" "find_loop env w iter 0 = (cs', fd)"
  defines "fds \<equiv> (case ae_dir env of Inl e \<Rightarrow> [] | Inr (ns, err) \<Rightarrow> strela_fds env ns)"
  shows "if unat w < length fds then fd = fds ! unat w \<and> fd \<noteq> - 1 \<and> fd \<notin> F \<and> open_run (cs @ cs') (F, S, M, False) = Some (insert fd F, S, M, False)
    else fd = - 1 \<and> open_run (cs @ cs') (F, S, M, False) = Some (F, S, M, False)"
proof (cases "ae_dir env")
  case (Inl e)
  then have "cs = []" "\<not> it_valid iter" using assms(2) by (auto simp: accel_iter_make_def accel_iter_next_def)
  then show ?thesis using assms(3) Inl by (simp add: find_loop.simps accel_iter_is_valid_def fds_def)
next
  case (Inr dir)
  obtain ns err where d: "dir = (ns, err)" by (metis surj_pair)
  note mk = iter_make_result[OF Inr[unfolded d]]
  show ?thesis
  proof (cases "filter visible ns")
    case Nil
    then have "cs = [Dir_opened, Dir_closed]" "iter_end iter err" using mk assms(2) by auto
    moreover have "strela_fds env ns = []" unfolding strela_fds_def Nil by (simp add: map_filter_simps)
    ultimately show ?thesis using assms(3) by (auto simp: fds_def Inr d find_loop.simps iter_end_def accel_iter_is_valid_def)
  next
    case (Cons k ms)
    then obtain ns' where m: "cs = [Dir_opened]" "iter_at iter k ns' err" "filter visible ns' = ms" using mk assms(2) by auto
    have f: "List.map_filter (strela_fd env) (k # filter visible ns') = fds" using Cons m(3) by (simp add: fds_def Inr d strela_fds_def)
    have "unat (0 :: u32) \<le> unat w" by simp
    from find_loop_result[OF assms(1) m(2) this, of S M, unfolded f] show ?thesis using assms(3) m(1) by (auto split: if_splits)
  qed
qed

section \<open>The results of opening and closing\<close>

text \<open>What the library relies on: errors are not zero, and a successful mapping of a buffer is a page-aligned
  range of its size, not at address zero, not past the end of the address space and not overlapping
  another.\<close>

definition answer_ok :: "int + 'a \<Rightarrow> bool" where
  "answer_ok a = (case a of Inl e \<Rightarrow> e \<noteq> 0 | Inr x \<Rightarrow> True)"

definition map_ok :: "int + addr \<Rightarrow> nat \<Rightarrow> bool" where
  "map_ok a n = (case a of Inl e \<Rightarrow> e \<noteq> 0 | Inr p \<Rightarrow> 0 < unat p \<and> 4096 dvd unat p \<and> unat p + n < 4294967296)"

definition init_ok :: "init_env \<Rightarrow> bool" where
  "init_ok env \<longleftrightarrow> accel_ok (ie_accel env) {} \<and> answer_ok (ie_gem_kernels env) \<and> answer_ok (ie_gem_tensors env)
     \<and> map_ok (ie_map_kernels env) 40960 \<and> map_ok (ie_map_tensors env) 52428800
     \<and> (\<forall>k t. ie_map_kernels env = Inr k \<and> ie_map_tensors env = Inr t \<longrightarrow> unat k + 40960 \<le> unat t \<or> unat t + 52428800 \<le> unat k)"

lemma mapped_neq:
  assumes "map_ok (Inr p) n"
  shows "p \<noteq> 0" "p \<noteq> MAP_FAILED"
proof -
  have p: "0 < unat p" "4096 dvd unat p" using assms by (simp_all add: map_ok_def)
  show "p \<noteq> 0" using p(1) by auto
  have "unat MAP_FAILED = 4294967295" by (simp add: MAP_FAILED_def)
  then show "p \<noteq> MAP_FAILED" using p(2) by auto
qed

text \<open>Where opening stops.\<close>

lemma init_acquire_cases:
  assumes "accel_iter_make (ie_accel env) = (cs, iter)" "find_loop (ie_accel env) w iter 0 = (cs', fd)"
    and e: "dev_errnum d = 0" and ok: "init_ok env"
  defines "d0 \<equiv> log_calls (cs @ cs') d"
  shows "init_acquire env w d =
    (if fd = - 1 then (d0\<lparr>dev_errnum := ENODEV\<rparr>, fd, (0, 0), 0, 0) else
     case ie_gem_kernels env of Inl e \<Rightarrow> (d0\<lparr>dev_errnum := e\<rparr>, fd, (0, 0), 0, 0) | Inr kh \<Rightarrow>
     (case ie_map_kernels env of Inl e \<Rightarrow> (d0\<lparr>dev_errnum := e\<rparr>, fd, (kh, MAP_FAILED), 0, 0) | Inr kb \<Rightarrow>
      (case ie_gem_tensors env of Inl e \<Rightarrow> ((log_calls [Mapped kb] d0)\<lparr>dev_errnum := e\<rparr>, fd, (kh, kb), 0, 0) | Inr th \<Rightarrow>
       (case ie_map_tensors env of Inl e \<Rightarrow> ((log_calls [Mapped kb] d0)\<lparr>dev_errnum := e\<rparr>, fd, (kh, kb), th, MAP_FAILED)
        | Inr tb \<Rightarrow> (log_calls [Mapped tb] (log_calls [Mapped kb] d0), fd, (kh, kb), th, tb)))))"
proof -
  note s = init_acquire_def init_gem_def init_map_def strela_err assms(1,2) e d0_def ENODEV_def
  have a: "answer_ok (ie_gem_kernels env)" "answer_ok (ie_gem_tensors env)" "map_ok (ie_map_kernels env) 40960" "map_ok (ie_map_tensors env) 52428800"
    using ok by (simp_all add: init_ok_def)
  show ?thesis
  proof (cases "fd = - 1")
    case False
    show ?thesis
    proof (cases "ie_gem_kernels env")
      case (Inl x)
      then show ?thesis using False a(1) by (simp add: s answer_ok_def)
    next
      case k: (Inr kh)
      show ?thesis
      proof (cases "ie_map_kernels env")
        case (Inl x)
        then show ?thesis using False k a(3) by (simp add: s map_ok_def)
      next
        case m: (Inr kb)
        show ?thesis
        proof (cases "ie_gem_tensors env")
          case (Inl x)
          then show ?thesis using False k m a(2) by (simp add: s answer_ok_def)
        next
          case (Inr th)
          then show ?thesis using False k m a(4) by (cases "ie_map_tensors env") (simp_all add: s map_ok_def)
        qed
      qed
    qed
  qed (simp add: s)
qed

lemma init_acquire_result:
  assumes r: "init_acquire env w d = (d', fd, (kh, kb), th, tb)" and ok: "init_ok env"
    and run: "open_run (dev_calls d) no_resources = Some no_resources" and e: "dev_errnum d = 0"
  shows "dev_initialized d' = dev_initialized d" "dev_mem d' = dev_mem d" "buffer_free_list d' = buffer_free_list d"
    "open_run (dev_calls d') no_resources = Some (if fd = - 1 then {} else {fd}, {}, {x \<in> {kb, tb}. x \<noteq> 0 \<and> x \<noteq> MAP_FAILED}, False)"
    "dev_errnum d' = 0 \<Longrightarrow> fd \<noteq> - 1 \<and> ie_map_kernels env = Inr kb \<and> ie_map_tensors env = Inr tb
       \<and> ie_gem_kernels env = Inr kh \<and> ie_gem_tensors env = Inr th"
    "kb \<noteq> 0 \<and> kb \<noteq> MAP_FAILED \<Longrightarrow> kb \<noteq> tb"
proof -
  obtain cs iter where mk: "accel_iter_make (ie_accel env) = (cs, iter)" by (metis surj_pair)
  obtain cs' f where fl: "find_loop (ie_accel env) w iter 0 = (cs', f)" by (metis surj_pair)
  have "accel_ok (ie_accel env) {}" using ok by (simp add: init_ok_def)
  note fr = find_result[OF this mk fl, of "{}" "{}"]
  then have f: "open_run (dev_calls d @ cs @ cs') no_resources = Some (if f = - 1 then {} else {f}, {}, {}, False)"
    using run by (auto split: if_splits)
  note c = r[unfolded init_acquire_cases[OF mk fl e ok]]
  have kn: "k \<noteq> 0 \<and> k \<noteq> MAP_FAILED" if "ie_map_kernels env = Inr k" for k
    using mapped_neq[of k] ok that by (auto simp: init_ok_def)
  have tn: "t \<noteq> 0 \<and> t \<noteq> MAP_FAILED" if "ie_map_tensors env = Inr t" for t
    using mapped_neq[of t] ok that by (auto simp: init_ok_def)
  have kt: "k \<noteq> t" if "ie_map_kernels env = Inr k" "ie_map_tensors env = Inr t" for k t
    using ok that by (auto simp: init_ok_def)
  have en: "a \<noteq> 0" if "Inl a \<in> {ie_gem_kernels env, ie_gem_tensors env}" for a
    using ok that by (auto simp: init_ok_def answer_ok_def split: sum.splits)
  have em: "a \<noteq> 0" if "Inl a \<in> {ie_map_kernels env, ie_map_tensors env}" for a
    using ok that by (auto simp: init_ok_def map_ok_def split: sum.splits)
  show "dev_initialized d' = dev_initialized d" "dev_mem d' = dev_mem d" "buffer_free_list d' = buffer_free_list d"
    using c by (auto split: if_splits sum.splits)
  have z: "{x. (x = MAP_FAILED \<or> x = 0) \<and> x \<noteq> 0 \<and> x \<noteq> MAP_FAILED} = {}" "{x. x = 0 \<and> x \<noteq> 0 \<and> x \<noteq> MAP_FAILED} = {}" by auto
  show "open_run (dev_calls d') no_resources = Some (if fd = - 1 then {} else {fd}, {}, {x \<in> {kb, tb}. x \<noteq> 0 \<and> x \<noteq> MAP_FAILED}, False)"
    using c f kn tn kt by (auto simp: z split: if_splits sum.splits bind_splits)
  show "fd \<noteq> - 1 \<and> ie_map_kernels env = Inr kb \<and> ie_map_tensors env = Inr tb
       \<and> ie_gem_kernels env = Inr kh \<and> ie_gem_tensors env = Inr th" if "dev_errnum d' = 0"
    using c that en em by (auto simp: ENODEV_def split: if_splits sum.splits)
  show "kb \<noteq> tb" if "kb \<noteq> 0 \<and> kb \<noteq> MAP_FAILED" using c that kt by (auto split: if_splits sum.splits)
qed

end
