(* ===== verification/LibMem.thy ===== *)
theory LibMem
  imports LibInit
begin

text \<open>
  The memory of an open device: the kernel pool and the tensor heap live in two mappings that do not
  overlap, so an operation of one keeps the other.  \<open>lib_inv\<close> is the invariant of an open device.
\<close>

section \<open>Writes elsewhere\<close>

lemma fl_rep_outside:
  assumes rep: "fl_rep m fl bs" and ch: "changed_only m m' A" and out: "A \<inter> {fst (fl_region fl)..<snd (fl_region fl)} = {}"
  shows "fl_rep m' fl bs"
proof -
  have l: "layout_ok (fst (fl_region fl)) (snd (fl_region fl)) bs" and hi: "snd (fl_region fl) < 4294967296"
    using flh.rep_layout[OF rep] by auto
  have ok: "block_ok c \<and> hdr_ok m c \<and> b_end c \<le> 4294967296 \<and> {b_addr c..<b_end c} \<inter> A = {}" if c: "c \<in> set bs" for c
  proof -
    have "fst (fl_region fl) \<le> b_addr c" "b_end c \<le> snd (fl_region fl)"
      using l tiles_inside[of _ _ bs c] c by (auto simp: layout_ok_def)
    then have "{b_addr c..<b_end c} \<inter> A = {}" using out by fastforce
    then show ?thesis using c rep l hi tiles_inside[of _ _ bs c] by (fastforce simp: fl_rep_def layout_ok_def)
  qed
  then have "hdr_ok m' c" if "c \<in> set bs" for c using hdr_frame[OF _ _ _ ch] that by blast
  moreover have "seg m' (unat (fl_head fl)) (frees bs) 0 = seg m (unat (fl_head fl)) (frees bs) 0"
  proof (rule seg_cong)
    fix a s assume "(a, s) \<in> set (frees bs)"
    then have f: "Free a s \<in> set bs" by (simp add: frees_in_set)
    have s: "16 dvd a" "8 \<le> s" "a + s \<le> 4294967296" "{a..<a + s} \<inter> A = {}" using ok[OF f] by auto
    moreover have "word_at a \<subseteq> {a..<a + s}" "word_at (a + 4) \<subseteq> {a..<a + s}" using s(2) by auto
    ultimately show "ldn m' a = ldn m a \<and> ldn m' (a + 4) = ldn m (a + 4)" using node_frame[OF s(1-3) ch] by blast
  qed
  ultimately show ?thesis using rep by (simp add: fl_rep_def)
qed

abbreviation pool_range :: "Pool \<Rightarrow> nat set" where
  "pool_range p \<equiv> {unat (p_buf p)..<unat (p_buf p) + unat (p_buf_len p)}"

lemma chunk_in_range:
  assumes "pool_geom p" "i < pool_count p"
  shows "{unat (chunk_addr p i)..<unat (chunk_addr p i) + unat (p_chunk_size p)} \<subseteq> pool_range p"
  using chunk_bounds[OF assms] by auto

lemma load32_changed_only:
  assumes "changed_only m m' A" "aligned4 a" "{unat a..<unat a + 4} \<inter> A = {}"
  shows "load32 m' a = load32 m a"
proof -
  have "ldn m' (unat a) = ldn m (unat a)"
    by (rule ldn_changed_only[OF assms(1)]) (use assms(2,3) unsigned_less[of a, where 'a = nat] in \<open>auto simp: aligned4_def\<close>)
  then show ?thesis by (simp add: ldn_def word_unat_eq_iff)
qed

lemma pool_inv_outside:
  assumes inv: "pool_inv m p fs" and ch: "changed_only m m' A" and out: "A \<inter> pool_range p = {}"
  shows "pool_inv m' p fs"
proof -
  have g: "pool_geom p" and lt: "\<forall>i \<in> set fs. i < pool_count p" using inv by (simp_all add: pool_inv_def)
  have "load32 m' (chunk_addr p i) = load32 m (chunk_addr p i)" if i: "i \<in> set fs" for i
  proof (rule load32_changed_only[OF ch])
    have c: "i < pool_count p" using lt i by blast
    show "aligned4 (chunk_addr p i)" by (rule chunk_aligned[OF g c])
    have "4 \<le> unat (p_chunk_size p)" using g by (simp add: pool_geom_def)
    then have "{unat (chunk_addr p i)..<unat (chunk_addr p i) + 4} \<subseteq> pool_range p" using chunk_in_range[OF g c] by fastforce
    then show "{unat (chunk_addr p i)..<unat (chunk_addr p i) + 4} \<inter> A = {}" using out by blast
  qed
  then show ?thesis using inv pool_chain_cong[of fs m' p m "p_head p"] by (simp add: pool_inv_def)
qed

lemma pool_push_changed:
  assumes "pool_geom p" "n \<le> pool_count p" "pool_push_chunks m (p_buf p) (p_chunk_size p) 0 n = (m', h)"
  shows "changed_only m m' (pool_range p)"
  using assms(2,3)
proof (induction n arbitrary: m' h)
  case (Suc n)
  obtain m1 h1 where s: "pool_push_chunks m (p_buf p) (p_chunk_size p) 0 n = (m1, h1)" by (metis surj_pair)
  have n: "n < pool_count p" using Suc.prems(1) by simp
  have c: "p_buf p + word_of_nat n * p_chunk_size p = chunk_addr p n" by (simp add: chunk_addr_def)
  have m': "m' = store32 m1 (chunk_addr p n) h1" using Suc.prems(2) s by (auto simp: Let_def c)
  have "4 \<le> unat (p_chunk_size p)" using assms(1) by (simp add: pool_geom_def)
  then have "word_at (unat (chunk_addr p n)) \<subseteq> pool_range p" using chunk_in_range[OF assms(1) n] by fastforce
  then have "changed_only m1 m' (pool_range p)"
    unfolding m' by (rule changed_only_mono[OF changed_only_store[OF chunk_aligned[OF assms(1) n]]])
  then show ?case using Suc.IH[OF _ s] n by (auto intro: changed_only_trans1)
qed simp

lemma pool_free_all_changed:
  assumes "pool_geom p" "pool_free_all m p = (m', p')"
  shows "changed_only m m' (pool_range p)"
proof -
  have "unat (p_buf_len p div p_chunk_size p) = pool_count p" by (simp add: pool_count_def unat_div)
  then obtain h where "pool_push_chunks m (p_buf p) (p_chunk_size p) 0 (pool_count p) = (m', h)"
    using assms(2) by (auto simp: pool_free_all_def Let_def split: prod.splits)
  then show ?thesis by (rule pool_push_changed[OF assms(1) order.refl])
qed

section \<open>The invariant of an open device\<close>

definition kernels_inv :: "strela_dev \<Rightarrow> nat list \<Rightarrow> bool" where
  "kernels_inv d fs \<longleftrightarrow> pool_inv (dev_mem d) (kernel_pool d) fs \<and> p_buf (kernel_pool d) = kernels_bo_map d
     \<and> p_buf_len (kernel_pool d) = 40960 \<and> p_chunk_size (kernel_pool d) = 320"

definition maps_apart :: "strela_dev \<Rightarrow> bool" where
  "maps_apart d \<longleftrightarrow> unat (kernels_bo_map d) + 40960 \<le> unat (tensors_bo_map d) \<or> unat (tensors_bo_map d) + 52428800 \<le> unat (kernels_bo_map d)"

definition lib_inv :: "strela_dev \<Rightarrow> layout \<Rightarrow> nat list \<Rightarrow> bool" where
  "lib_inv d bs fs \<longleftrightarrow> dev_initialized d \<and> dev_fd d \<noteq> - 1 \<and> slots_inv d \<and> heap_inv d bs \<and> kernels_inv d fs \<and> maps_apart d"

text \<open>A device that is not open holds nothing.\<close>

definition closed_inv :: "strela_dev \<Rightarrow> bool" where
  "closed_inv d \<longleftrightarrow> \<not> dev_initialized d \<and> open_run (dev_calls d) no_resources = Some no_resources"

lemma kernels_inv_outside:
  assumes "kernels_inv d fs" "changed_only (dev_mem d) (dev_mem d') A" "A \<inter> {unat (kernels_bo_map d)..<unat (kernels_bo_map d) + 40960} = {}"
    "kernel_pool d' = kernel_pool d" "kernels_bo_map d' = kernels_bo_map d"
  shows "kernels_inv d' fs"
  using assms pool_inv_outside[of "dev_mem d" "kernel_pool d" fs "dev_mem d'" A] by (simp add: kernels_inv_def)

lemma heap_inv_outside:
  assumes "heap_inv d bs" "changed_only (dev_mem d) (dev_mem d') A" "A \<inter> {unat (tensors_bo_map d)..<unat (tensors_bo_map d) + 52428800} = {}"
    "buffer_free_list d' = buffer_free_list d" "tensors_bo_map d' = tensors_bo_map d"
  shows "heap_inv d' bs"
  using assms fl_rep_outside[of "dev_mem d" "buffer_free_list d" bs "dev_mem d'" A] by (simp add: heap_inv_def)

end
