(* ===== verification/LibLife.thy ===== *)
theory LibLife
  imports LibMem
begin

text \<open>
  Opening and closing a device: what \<^verbatim>\<open>strela_dev_init\<close> establishes, that its failures leave nothing
  behind, and that \<^verbatim>\<open>strela_dev_deinit\<close> gives everything back.
\<close>

section \<open>Releasing all jobs\<close>

definition rel_ok :: "release_env \<Rightarrow> bool" where
  "rel_ok env \<longleftrightarrow> rel_wait env \<and> rel_close env \<and> rel_destroy env"

lemma release_total:
  assumes "dev_initialized d" "rel_ok env" "i < length (dev_jobs d)"
  shows "\<exists>d'. strela_job_slot_release env d i = Some d'"
  using assms
  by (auto simp: strela_job_slot_release_def strela_job_slot_finish_def Let_def assert_c_def rel_ok_def strela_dev_initialized_def set_slot_def)

lemma release_frame:
  assumes "strela_job_slot_release env d i = Some d'" "i < length (dev_jobs d)"
  shows "\<exists>js cs. d' = d\<lparr>dev_jobs := js, dev_calls := cs\<rparr> \<and> length js = length (dev_jobs d)"
proof (cases "slot_phase (dev_jobs d ! i) = STRELA_JOB_FREE")
  case True
  then show ?thesis using release_result[OF assms] by (intro exI[of _ "dev_jobs d"] exI[of _ "dev_calls d"]) simp
next
  case False
  then show ?thesis using release_result[OF assms]
    by (intro exI[of _ "(dev_jobs d)[i := zero_slot\<lparr>slot_fence_fd := - 1\<rparr>]"] exI[of _ "dev_calls d @ release_calls (dev_jobs d ! i)"])
       (simp add: set_slot_def log_calls_def)
qed

lemma release_all_total:
  assumes "dev_initialized d" "\<forall>i. rel_ok (env i)" "set is \<subseteq> {..< length (dev_jobs d)}"
  shows "\<exists>js cs. release_all env is d = Some (d\<lparr>dev_jobs := js, dev_calls := cs\<rparr>) \<and> length js = length (dev_jobs d)"
  using assms(1,3)
proof (induction "is" arbitrary: d)
  case Nil
  show ?case by (intro exI[of _ "dev_jobs d"] exI[of _ "dev_calls d"]) simp
next
  case (Cons i "is")
  have i: "i < length (dev_jobs d)" using Cons.prems(2) by simp
  obtain d1 where d1: "strela_job_slot_release (env i) d i = Some d1" using release_total[OF Cons.prems(1) _ i] assms(2) by blast
  obtain js cs where e: "d1 = d\<lparr>dev_jobs := js, dev_calls := cs\<rparr>" "length js = length (dev_jobs d)" using release_frame[OF d1 i] by blast
  have "set is \<subseteq> {..< length (dev_jobs d1)}" using Cons.prems(2) e by simp
  then show ?case using Cons.IH[of d1] Cons.prems(1) d1 e by auto
qed

lemma free_all_total:
  assumes "\<forall>i. rel_ok (env i)" "slots_inv d" "strela_dev_ok d"
  obtains js cs where "strela_job_free_all env d = Some (d\<lparr>dev_jobs := js, dev_calls := cs\<rparr>)"
    "slots_inv (d\<lparr>dev_jobs := js, dev_calls := cs\<rparr>)" "\<forall>s \<in> set js. slot_phase s = STRELA_JOB_FREE"
proof -
  have init: "dev_initialized d" using assms(3) by (simp add: strela_dev_ok_def)
  obtain js cs where r: "release_all env [0..<length (dev_jobs d)] d = Some (d\<lparr>dev_jobs := js, dev_calls := cs\<rparr>)" "length js = length (dev_jobs d)"
    using release_all_total[OF init assms(1), of "[0..<length (dev_jobs d)]"] by (auto simp: atLeast0LessThan)
  have "slots_inv (d\<lparr>dev_jobs := js, dev_calls := cs\<rparr>)" "\<forall>i < length js. slot_phase (js ! i) = STRELA_JOB_FREE"
    using release_all_inv[OF r(1) _ assms(2)] r(2) by (auto simp: atLeast0LessThan)
  then show thesis using r(1) assms(3) by (intro that[where js = js and cs = cs]) (auto simp: strela_job_free_all_def in_set_conv_nth)
qed

section \<open>Emptying an open device\<close>

lemma heap_reset:
  assumes "fl_region (buffer_free_list d) = (unat (tensors_bo_map d), unat (tensors_bo_map d) + 52428800)"
    "4096 dvd unat (tensors_bo_map d)" "0 < unat (tensors_bo_map d)" "unat (tensors_bo_map d) + 52428800 < 4294967296" "strela_dev_ok d"
  obtains m fl where "strela_buffer_free_all d = d\<lparr>dev_mem := m, buffer_free_list := fl\<rparr>"
    "heap_inv (d\<lparr>dev_mem := m, buffer_free_list := fl\<rparr>) [Free (unat (tensors_bo_map d)) 52428800]"
    "changed_only (dev_mem d) m {unat (tensors_bo_map d)..<unat (tensors_bo_map d) + 52428800}"
proof -
  let ?fl = "buffer_free_list d"
  obtain m fl where fa: "free_list_free_all (dev_mem d) ?fl = (m, fl)" by (metis surj_pair)
  have rg: "unat (fl_data ?fl) = unat (tensors_bo_map d)" "unat (fl_size ?fl) = 52428800" using assms(1) by (simp_all add: fl_region_def)
  have "16 dvd unat (fl_data ?fl)" unfolding rg by (rule dvd_trans[OF _ assms(2)]) simp
  note r = free_list_free_all_rep[OF this _ _ _ fa, unfolded rg]
  show thesis
    by (rule that[where m = m and fl = fl])
       (use assms fa r in \<open>auto simp: strela_buffer_free_all_def heap_inv_def intro: changed_only_mono\<close>)
qed

lemma kernels_reset:
  assumes "pool_geom (kernel_pool d)" "p_buf (kernel_pool d) = kernels_bo_map d" "p_buf_len (kernel_pool d) = 40960"
    "p_chunk_size (kernel_pool d) = 320" "strela_dev_ok d"
  obtains m p where "strela_kernel_free_all d = d\<lparr>dev_mem := m, kernel_pool := p\<rparr>"
    "kernels_inv (d\<lparr>dev_mem := m, kernel_pool := p\<rparr>) (rev [0..<128])"
    "changed_only (dev_mem d) m {unat (kernels_bo_map d)..<unat (kernels_bo_map d) + 40960}"
proof -
  obtain m p where fa: "pool_free_all (dev_mem d) (kernel_pool d) = (m, p)" by (metis surj_pair)
  have "pool_count (kernel_pool d) = 128" using assms(3,4) by (simp add: pool_count_def)
  then show thesis
    by (intro that[where m = m and p = p])
       (use assms fa pool_free_all_inv[OF assms(1) fa] pool_free_all_changed[OF assms(1) fa]
        in \<open>auto simp: strela_kernel_free_all_def kernels_inv_def\<close>)
qed

definition geometry :: "strela_dev \<Rightarrow> bool" where
  "geometry d \<longleftrightarrow> fl_region (buffer_free_list d) = (unat (tensors_bo_map d), unat (tensors_bo_map d) + 52428800)
     \<and> 4096 dvd unat (tensors_bo_map d) \<and> 0 < unat (tensors_bo_map d) \<and> unat (tensors_bo_map d) + 52428800 < 4294967296
     \<and> pool_geom (kernel_pool d) \<and> p_buf (kernel_pool d) = kernels_bo_map d \<and> p_buf_len (kernel_pool d) = 40960
     \<and> p_chunk_size (kernel_pool d) = 320 \<and> maps_apart d \<and> dev_fd d \<noteq> - 1"

lemma lib_inv_geometry: "lib_inv d bs fs \<Longrightarrow> geometry d"
  by (auto simp: lib_inv_def geometry_def heap_inv_def kernels_inv_def pool_inv_def dest: flh.rep_layout)

text \<open>The last part of \<^verbatim>\<open>strela_dev_init\<close>.\<close>

lemma reset_open:
  assumes "slots_inv d" "strela_dev_ok d" "geometry d" "\<forall>i. rel_ok (env i)"
  obtains d1 d' where "strela_job_free_all env d = Some d1" "d' = strela_kernel_free_all (strela_buffer_free_all d1)"
    "lib_inv d' [Free (unat (tensors_bo_map d)) 52428800] (rev [0..<128])" "strela_dev_ok d'"
    "\<forall>s \<in> set (dev_jobs d'). slot_phase s = STRELA_JOB_FREE" "dev_fd d' = dev_fd d" "tensors_bo_map d' = tensors_bo_map d"
proof -
  obtain js cs where j: "strela_job_free_all env d = Some (d\<lparr>dev_jobs := js, dev_calls := cs\<rparr>)"
    "slots_inv (d\<lparr>dev_jobs := js, dev_calls := cs\<rparr>)" "\<forall>s \<in> set js. slot_phase s = STRELA_JOB_FREE"
    by (rule free_all_total[OF assms(4,1,2)])
  let ?d1 = "d\<lparr>dev_jobs := js, dev_calls := cs\<rparr>"
  have ok1: "strela_dev_ok ?d1" using assms(2) by (simp add: strela_dev_ok_def)
  note g = assms(3)[unfolded geometry_def]
  obtain m fl where h: "strela_buffer_free_all ?d1 = ?d1\<lparr>dev_mem := m, buffer_free_list := fl\<rparr>"
    "heap_inv (?d1\<lparr>dev_mem := m, buffer_free_list := fl\<rparr>) [Free (unat (tensors_bo_map ?d1)) 52428800]"
    by (rule heap_reset[of ?d1]) (use g ok1 in auto)
  let ?d2 = "?d1\<lparr>dev_mem := m, buffer_free_list := fl\<rparr>"
  obtain m' p where k: "strela_kernel_free_all ?d2 = ?d2\<lparr>dev_mem := m', kernel_pool := p\<rparr>"
    "kernels_inv (?d2\<lparr>dev_mem := m', kernel_pool := p\<rparr>) (rev [0..<128])"
    "changed_only (dev_mem ?d2) m' {unat (kernels_bo_map ?d2)..<unat (kernels_bo_map ?d2) + 40960}"
    by (rule kernels_reset[of ?d2]) (use g ok1 in \<open>auto simp: strela_dev_ok_def\<close>)
  let ?d3 = "?d2\<lparr>dev_mem := m', kernel_pool := p\<rparr>"
  have "heap_inv ?d3 [Free (unat (tensors_bo_map d)) 52428800]"
    by (rule heap_inv_outside[where d = ?d2 and A = "{unat (kernels_bo_map d)..<unat (kernels_bo_map d) + 40960}"])
       (use h(2) k(3) g in \<open>auto simp: maps_apart_def\<close>)
  moreover have "slots_inv ?d3" by (rule slots_inv_same[of _ ?d1]) (use j(2) in simp_all)
  ultimately have "lib_inv ?d3 [Free (unat (tensors_bo_map d)) 52428800] (rev [0..<128])"
    using k(2) g assms(2) by (simp add: lib_inv_def strela_dev_ok_def maps_apart_def)
  moreover have "strela_dev_ok ?d3" using assms(2) by (simp add: strela_dev_ok_def)
  ultimately show thesis using j h(1) k(1) by (intro that[of ?d1 ?d3]) simp_all
qed

section \<open>Opening\<close>

definition found_fds :: "init_env \<Rightarrow> int list" where
  "found_fds env = (case ae_dir (ie_accel env) of Inl e \<Rightarrow> [] | Inr (ns, err) \<Rightarrow> strela_fds (ie_accel env) ns)"

text \<open>When opening can succeed: the device is there and the four calls do.\<close>

definition opens :: "init_env \<Rightarrow> u32 \<Rightarrow> bool" where
  "opens env w \<longleftrightarrow> unat w < length (found_fds env) \<and> \<not> isl (ie_gem_kernels env) \<and> \<not> isl (ie_map_kernels env)
     \<and> \<not> isl (ie_gem_tensors env) \<and> \<not> isl (ie_map_tensors env)"

lemma init_acquire_opens:
  assumes r: "init_acquire env w d = (d', fd, (kh, kb), th, tb)" and ok: "init_ok env" and e: "dev_errnum d = 0"
  shows "dev_errnum d' = 0 \<longleftrightarrow> opens env w" "opens env w \<Longrightarrow> fd = found_fds env ! unat w"
proof -
  obtain cs iter where mk: "accel_iter_make (ie_accel env) = (cs, iter)" by (metis surj_pair)
  obtain cs' f where fl: "find_loop (ie_accel env) w iter 0 = (cs', f)" by (metis surj_pair)
  have "accel_ok (ie_accel env) {}" using ok by (simp add: init_ok_def)
  note fr = find_result[OF this mk fl, folded found_fds_def, of "{}" "{}"]
  then have f: "f \<noteq> - 1 \<longleftrightarrow> unat w < length (found_fds env)" "f \<noteq> - 1 \<Longrightarrow> f = found_fds env ! unat w"
    by (auto split: if_splits)
  note c = r[unfolded init_acquire_cases[OF mk fl e ok]]
  have n: "a \<noteq> 0" if "Inl a \<in> {ie_gem_kernels env, ie_gem_tensors env}" for a
    using ok that by (auto simp: init_ok_def answer_ok_def split: sum.splits)
  have m: "a \<noteq> 0" if "Inl a \<in> {ie_map_kernels env, ie_map_tensors env}" for a
    using ok that by (auto simp: init_ok_def map_ok_def split: sum.splits)
  show "dev_errnum d' = 0 \<longleftrightarrow> opens env w"
    using c n m e f(1) by (auto simp: opens_def ENODEV_def split: if_splits sum.splits)
  have "fd = f" using c by (auto split: if_splits sum.splits)
  then show "fd = found_fds env ! unat w" if "opens env w" using that f by (simp add: opens_def)
qed

lemma deinit_internal_run:
  assumes "open_run cs no_resources = Some (if fd = - 1 then {} else {fd}, {}, {x \<in> {kb, tb}. x \<noteq> 0 \<and> x \<noteq> MAP_FAILED}, False)"
    and "kb \<noteq> 0 \<and> kb \<noteq> MAP_FAILED \<Longrightarrow> kb \<noteq> tb"
  obtains cs' where "strela_dev_deinit_internal True True tb kb fd = Some cs'" "open_run (cs @ cs') no_resources = Some no_resources"
proof -
  define c1 where "c1 = (if tb \<noteq> 0 \<and> tb \<noteq> MAP_FAILED then [Unmapped tb] else [])"
  define c2 where "c2 = (if kb \<noteq> 0 \<and> kb \<noteq> MAP_FAILED then [Unmapped kb] else [])"
  define c3 where "c3 = (if fd \<noteq> - 1 then [Fd_closed fd] else [])"
  have "strela_dev_deinit_internal True True tb kb fd = Some (c1 @ c2 @ c3)"
    by (simp add: strela_dev_deinit_internal_def assert_c_def c1_def c2_def c3_def)
  moreover have "open_run (c1 @ c2 @ c3) (if fd = - 1 then {} else {fd}, {}, {x \<in> {kb, tb}. x \<noteq> 0 \<and> x \<noteq> MAP_FAILED}, False) = Some no_resources"
    using assms(2) by (auto simp: c1_def c2_def c3_def)
  ultimately show thesis using assms(1) by (intro that[of "c1 @ c2 @ c3"]) (simp_all del: open_run_append add: open_run_append[of cs])
qed

lemma init_geometry:
  assumes "map_ok (Inr kb) 40960" "map_ok (Inr tb) 52428800"
  obtains m1 p m2 fl2 where "pool_init m kb STRELA_KERNEL_MEMORY_SIZE (4 * STRELA_KERNEL_SIZE) 4 = Some (m1, p)"
    "free_list_init m1 fl tb STRELA_TENSOR_MEMORY_SIZE = Some (m2, fl2)" "fl_region fl2 = (unat tb, unat tb + 52428800)"
    "pool_geom p" "p_buf p = kb" "p_buf_len p = 40960" "p_chunk_size p = 320"
proof -
  have k: "0 < unat kb" "4096 dvd unat kb" "unat kb + 40960 < 4294967296" and t: "0 < unat tb" "4096 dvd unat tb" "unat tb + 52428800 < 4294967296"
    using assms by (simp_all add: map_ok_def)
  have sz: "STRELA_KERNEL_MEMORY_SIZE = 40960" "4 * STRELA_KERNEL_SIZE = 320" "STRELA_TENSOR_MEMORY_SIZE = 52428800" by (simp_all add: lib_sizes)
  have d4: "4 dvd unat kb" and d16: "16 dvd unat tb" by (rule dvd_trans[OF _ k(2)], simp, rule dvd_trans[OF _ t(2)], simp)
  have r: "round_up (unat kb) 4 = unat kb" "round_up 320 4 = 320" "round_up (unat tb) 16 = unat tb" using d4 d16 by simp_all
  obtain m1 p where p: "pool_init m kb 40960 320 4 = Some (m1, p)" "pool_inv m1 p (rev [0..<pool_count p])"
    "unat (p_buf p) = unat kb" "unat (p_chunk_size p) = 320" "unat (p_buf p) + unat (p_buf_len p) = unat kb + 40960"
    using pool_init_inv[of 4 kb 40960 320 m] k r by (auto simp: is_power_of_two_def)
  have "8 \<le> unat tb" using t(1,2) dvd_imp_le[OF t(2)] by simp
  then obtain m2 fl2 where f: "free_list_init m1 fl tb 52428800 = Some (m2, fl2)" "fl_region fl2 = (unat tb, unat tb + 52428800)"
    using free_list_init_rep[of tb 52428800 m1 fl] t(3) r(3) by auto
  have "p_buf p = kb" "p_buf_len p = 40960" "p_chunk_size p = 320" using p(3,4,5) by (simp_all add: word_unat_eq_iff)
  then show thesis using p(1,2) f by (intro that[of m1 p m2 fl2]) (simp_all add: sz pool_inv_def)
qed

lemma held_replicate: "f z = None \<Longrightarrow> held f (replicate n z) = {}" and unshared_replicate: "f z = None \<Longrightarrow> unshared f (replicate n z)"
  by (auto simp: held_def unshared_def)

lemma init_first_result:
  assumes ok: "init_ok env" and cl: "closed_inv d" and e: "dev_errnum d = 0" and sys: "ie_munmap env" "ie_close env"
  shows "\<exists>d'. init_first env w d = Some d' \<and> (if opens env w
    then dev_initialized d' \<and> dev_errnum d' = 0 \<and> slots_inv d' \<and> geometry d' \<and> dev_fd d' = found_fds env ! unat w
    else closed_inv d' \<and> dev_errnum d' \<noteq> 0)"
proof -
  obtain d1 fd kh kb th tb where a: "init_acquire env w d = (d1, fd, (kh, kb), th, tb)" by (metis surj_pair)
  have run: "open_run (dev_calls d) no_resources = Some no_resources" using cl by (simp add: closed_inv_def)
  note r = init_acquire_result[OF a ok run e] and o = init_acquire_opens[OF a ok e]
  show ?thesis
  proof (cases "opens env w")
    case True
    then have z: "dev_errnum d1 = 0" using o(1) by simp
    note s = r(5)[OF z]
    have mk: "map_ok (Inr kb) 40960" "map_ok (Inr tb) 52428800" and ap: "unat kb + 40960 \<le> unat tb \<or> unat tb + 52428800 \<le> unat kb"
      using ok s by (auto simp: init_ok_def)
    obtain m1 p m2 fl2 where g: "pool_init (dev_mem d1) kb STRELA_KERNEL_MEMORY_SIZE (4 * STRELA_KERNEL_SIZE) 4 = Some (m1, p)"
      "free_list_init m1 (buffer_free_list d1) tb STRELA_TENSOR_MEMORY_SIZE = Some (m2, fl2)" "fl_region fl2 = (unat tb, unat tb + 52428800)"
      "pool_geom p" "p_buf p = kb" "p_buf_len p = 40960" "p_chunk_size p = 320" by (rule init_geometry[OF mk])
    define d' where "d' = d1\<lparr>dev_fd := fd, dev_initialized := True, tensors_bo_handle := th, tensors_bo_map := tb,
       kernels_bo_handle := kh, kernels_bo_map := kb, dev_mem := m2, kernel_pool := p, buffer_free_list := fl2,
       backward_compat_job := \<lparr>job_valid = False, job_handle = 0\<rparr>, dev_jobs := replicate STRELA_JOBS_MAX zero_slot\<rparr>"
    have "init_first env w d = Some d'" using a z g by (simp add: init_first_def strela_err d'_def)
    moreover have "{x \<in> {kb, tb}. x \<noteq> 0 \<and> x \<noteq> MAP_FAILED} = {tb, kb}" using mapped_neq[OF mk(1)] mapped_neq[OF mk(2)] by auto
    then have "slots_inv d'" using r(4) s
      by (simp add: slots_inv_def d'_def held_replicate unshared_replicate)
    moreover have "geometry d'" using g(3-7) mk ap s by (simp add: geometry_def d'_def map_ok_def maps_apart_def)
    ultimately show ?thesis using True o(2) z by (simp add: d'_def)
  next
    case False
    then have z: "dev_errnum d1 \<noteq> 0" using o(1) by simp
    obtain cs' where c: "strela_dev_deinit_internal True True tb kb fd = Some cs'" "open_run (dev_calls d1 @ cs') no_resources = Some no_resources"
      by (rule deinit_internal_run[OF r(4,6)])
    then have "init_first env w d = Some (log_calls cs' d1)"
      using a z sys r(1) cl by (simp add: init_first_def strela_err assert_c_def closed_inv_def)
    then show ?thesis using False z c(2) r(1) cl by (simp add: closed_inv_def)
  qed
qed

lemma init_closed:
  assumes "init_ok env" "ie_munmap env" "ie_close env" "\<forall>i. rel_ok (ie_release env i)" "unat w < 8" "closed_inv d"
  shows "\<exists>d'. strela_dev_init env w d = Some d' \<and> (if opens env w
    then strela_dev_ok d' \<and> lib_inv d' [Free (unat (tensors_bo_map d')) 52428800] (rev [0..<128])
      \<and> (\<forall>s \<in> set (dev_jobs d'). slot_phase s = STRELA_JOB_FREE) \<and> dev_fd d' = found_fds env ! unat w
    else closed_inv d' \<and> dev_errnum d' \<noteq> 0)"
proof -
  let ?d = "d\<lparr>dev_errnum := 0\<rparr>"
  have cl: "closed_inv ?d" "\<not> dev_initialized d" using assms(6) by (simp_all add: closed_inv_def)
  obtain d1 where d1: "init_first env w ?d = Some d1" "if opens env w
    then dev_initialized d1 \<and> dev_errnum d1 = 0 \<and> slots_inv d1 \<and> geometry d1 \<and> dev_fd d1 = found_fds env ! unat w
    else closed_inv d1 \<and> dev_errnum d1 \<noteq> 0" using init_first_result[OF assms(1) cl(1) _ assms(2,3), of w] by auto
  show ?thesis
  proof (cases "opens env w")
    case True
    then have i: "dev_initialized d1" "dev_errnum d1 = 0" "slots_inv d1" "geometry d1" "dev_fd d1 = found_fds env ! unat w" using d1(2) by simp_all
    have ok: "strela_dev_ok d1" using i by (simp add: strela_dev_ok_def strela_err)
    obtain d2 d' where r: "strela_job_free_all (ie_release env) d1 = Some d2" "d' = strela_kernel_free_all (strela_buffer_free_all d2)"
      "lib_inv d' [Free (unat (tensors_bo_map d1)) 52428800] (rev [0..<128])" "strela_dev_ok d'"
      "\<forall>s \<in> set (dev_jobs d'). slot_phase s = STRELA_JOB_FREE" "dev_fd d' = dev_fd d1" "tensors_bo_map d' = tensors_bo_map d1"
      by (rule reset_open[OF i(3) ok i(4) assms(4)])
    have "strela_dev_init env w d = Some d'"
      using d1(1) i(1,2) r(1,2,4) cl(2) assms(5)
      by (simp add: strela_dev_init_def strela_err assert_c_def STRELA_DEVICE_MAX_def strela_dev_ok_def)
    then show ?thesis using True r(3-7) i(5) by simp
  next
    case False
    then have "strela_dev_init env w d = Some d1"
      using d1 cl(2) assms(5) by (simp add: strela_dev_init_def strela_err assert_c_def STRELA_DEVICE_MAX_def closed_inv_def)
    then show ?thesis using False d1(2) by simp
  qed
qed

text \<open>Opening an open device again empties it and clears its error.\<close>

lemma init_open:
  assumes "\<forall>i. rel_ok (ie_release env i)" "unat w < 8" "lib_inv d bs fs"
  shows "\<exists>d'. strela_dev_init env w d = Some d' \<and> strela_dev_ok d' \<and> lib_inv d' [Free (unat (tensors_bo_map d')) 52428800] (rev [0..<128])
    \<and> (\<forall>s \<in> set (dev_jobs d'). slot_phase s = STRELA_JOB_FREE) \<and> dev_fd d' = dev_fd d"
proof -
  let ?d = "d\<lparr>dev_errnum := 0\<rparr>"
  have i: "dev_initialized d" "slots_inv ?d" "strela_dev_ok ?d" using assms(3) by (simp_all add: lib_inv_def)
  have g: "geometry ?d" using lib_inv_geometry[OF assms(3)] by (simp add: geometry_def maps_apart_def)
  obtain d2 d' where r: "strela_job_free_all (ie_release env) ?d = Some d2" "d' = strela_kernel_free_all (strela_buffer_free_all d2)"
    "lib_inv d' [Free (unat (tensors_bo_map ?d)) 52428800] (rev [0..<128])" "strela_dev_ok d'"
    "\<forall>s \<in> set (dev_jobs d'). slot_phase s = STRELA_JOB_FREE" "dev_fd d' = dev_fd ?d" "tensors_bo_map d' = tensors_bo_map ?d"
    by (rule reset_open[OF i(2,3) g assms(1)])
  have "strela_dev_init env w d = Some d'"
    using i(1) r(1,2,4) assms(2) by (auto simp: strela_dev_init_def strela_err assert_c_def STRELA_DEVICE_MAX_def strela_dev_ok_def)
  then show ?thesis using r(3-7) by simp
qed

section \<open>Closing\<close>

lemma geometry_maps:
  assumes "geometry d"
  shows "{x \<in> {kernels_bo_map d, tensors_bo_map d}. x \<noteq> 0 \<and> x \<noteq> MAP_FAILED} = dev_maps d" "kernels_bo_map d \<noteq> tensors_bo_map d"
proof -
  have k: "0 < unat (kernels_bo_map d)" "unat (kernels_bo_map d) + 40960 < 4294967296"
    using assms by (auto simp: geometry_def pool_geom_def)
  have t: "0 < unat (tensors_bo_map d)" "unat (tensors_bo_map d) + 52428800 < 4294967296" using assms by (simp_all add: geometry_def)
  have "x \<noteq> 0 \<and> x \<noteq> MAP_FAILED" if "0 < unat x" "unat x + 40960 < 4294967296" for x :: addr
    using that by (auto simp: MAP_FAILED_def)
  then have "kernels_bo_map d \<noteq> 0 \<and> kernels_bo_map d \<noteq> MAP_FAILED" "tensors_bo_map d \<noteq> 0 \<and> tensors_bo_map d \<noteq> MAP_FAILED"
    using k t by simp_all
  then show "{x \<in> {kernels_bo_map d, tensors_bo_map d}. x \<noteq> 0 \<and> x \<noteq> MAP_FAILED} = dev_maps d" by auto
  show "kernels_bo_map d \<noteq> tensors_bo_map d" using assms by (auto simp: geometry_def maps_apart_def)
qed

lemma deinit_ok:
  assumes "\<forall>i. rel_ok (env i)" "lib_inv d bs fs" "strela_dev_ok d"
  shows "\<exists>d'. strela_dev_deinit True True env d = Some d' \<and> closed_inv d' \<and> d' = zero_dev (dev_mem d) (dev_calls d')"
proof -
  have i: "dev_initialized d" "slots_inv d" "dev_fd d \<noteq> - 1" using assms(2) by (simp_all add: lib_inv_def)
  obtain js cs where j: "strela_job_free_all env d = Some (d\<lparr>dev_jobs := js, dev_calls := cs\<rparr>)"
    "slots_inv (d\<lparr>dev_jobs := js, dev_calls := cs\<rparr>)" "\<forall>s \<in> set js. slot_phase s = STRELA_JOB_FREE"
    by (rule free_all_total[OF assms(1) i(2) assms(3)])
  have "held slot_fd js = {}" "held slot_sync js = {}" using j(3) by (auto simp: held_def slot_fd_def slot_sync_def)
  then have "open_run cs no_resources = Some ({dev_fd d}, {}, dev_maps d, False)" using j(2) by (simp add: slots_inv_def)
  then have run: "open_run cs no_resources = Some (if dev_fd d = - 1 then {} else {dev_fd d}, {},
      {x \<in> {kernels_bo_map d, tensors_bo_map d}. x \<noteq> 0 \<and> x \<noteq> MAP_FAILED}, False)"
    using geometry_maps[OF lib_inv_geometry[OF assms(2)]] i(3) by simp
  obtain cs' where c: "strela_dev_deinit_internal True True (tensors_bo_map d) (kernels_bo_map d) (dev_fd d) = Some cs'"
    "open_run (cs @ cs') no_resources = Some no_resources"
    by (rule deinit_internal_run[OF run geometry_maps(2)[OF lib_inv_geometry[OF assms(2)]]])
  then have "strela_dev_deinit True True env d = Some (zero_dev (dev_mem d) (cs @ cs'))"
    using i(1) j(1) by (simp add: strela_dev_deinit_def)
  then show ?thesis using c(2) by (simp add: closed_inv_def zero_dev_def)
qed

end
