(* ===== verification/LibRun.thy ===== *)
theory LibRun
  imports LibLife
begin

text \<open>
  Programs that use the library: \<open>lib_op\<close> has one constructor per function of the interface that
  changes a device, \<open>lib_exec\<close> runs it, and \<open>lib_reach\<close> are the states of a device in any sequence of
  calls from the zeroed structure.  \<open>call_ok\<close> says what a call may assume: what the kernel promises of
  its answers, and that the client passes buffers and kernels it owns and memory of its own.
\<close>

section \<open>Calls\<close>

datatype lib_op =
    Op_init init_env u32
  | Op_deinit bool bool "nat \<Rightarrow> release_env"
  | Op_reset_err
  | Op_kernel_alloc
  | Op_kernel_set int strela_kernel addr
  | Op_kernel_free strela_kernel
  | Op_kernel_free_all
  | Op_buffer_alloc u32
  | Op_buffer_set_data strela_buffer addr
  | Op_buffer_get_data strela_buffer addr
  | Op_buffer_free strela_buffer
  | Op_buffer_free_all
  | Op_buffer_flush int strela_buffer u32 u32
  | Op_buffer_inval int strela_buffer u32 u32
  | Op_job_config release_env "int + u32" strela_kernel strela_conf
  | Op_job_free release_env strela_job_lib
  | Op_job_free_all "nat \<Rightarrow> release_env"
  | Op_job_submit jsubmit_env strela_job_lib
  | Op_job_poll poll_result "int + int" strela_job_lib
  | Op_job_wait poll_result "int + int" strela_job_lib
  | Op_job_fd strela_job_lib
  | Op_config release_env release_env "int + u32" strela_kernel strela_conf
  | Op_execute jsubmit_env poll_result "int + int" poll_result "int + int"

fun lib_exec :: "lib_op \<Rightarrow> strela_dev \<Rightarrow> strela_dev option" where
  "lib_exec (Op_init env w) d = strela_dev_init env w d"
| "lib_exec (Op_deinit mu cl env) d = strela_dev_deinit mu cl env d"
| "lib_exec Op_reset_err d = Some (strela_dev_reset_err d)"
| "lib_exec Op_kernel_alloc d = map_option fst (strela_kernel_alloc d)"
| "lib_exec (Op_kernel_set ret krn data) d = Some (strela_kernel_set ret d krn data)"
| "lib_exec (Op_kernel_free krn) d = Some (strela_kernel_free d krn)"
| "lib_exec Op_kernel_free_all d = Some (strela_kernel_free_all d)"
| "lib_exec (Op_buffer_alloc words) d = map_option fst (strela_buffer_alloc d words)"
| "lib_exec (Op_buffer_set_data buf p) d = strela_buffer_set_data d buf p"
| "lib_exec (Op_buffer_get_data buf p) d = strela_buffer_get_data d buf p"
| "lib_exec (Op_buffer_free buf) d = strela_buffer_free d buf"
| "lib_exec Op_buffer_free_all d = Some (strela_buffer_free_all d)"
| "lib_exec (Op_buffer_flush ret buf ofs n) d = Some (strela_buffer_flush ret d buf ofs n)"
| "lib_exec (Op_buffer_inval ret buf ofs n) d = Some (strela_buffer_inval ret d buf ofs n)"
| "lib_exec (Op_job_config env create krn conf) d = map_option fst (strela_job_config env create d krn conf)"
| "lib_exec (Op_job_free env job) d = strela_job_free env d job"
| "lib_exec (Op_job_free_all env) d = strela_job_free_all env d"
| "lib_exec (Op_job_submit env job) d = map_option fst (strela_job_submit env d job)"
| "lib_exec (Op_job_poll ready info job) d = map_option fst (strela_job_poll ready info d job)"
| "lib_exec (Op_job_wait ready info job) d = map_option fst (strela_job_wait ready info d job)"
| "lib_exec (Op_job_fd job) d = map_option fst (strela_job_fd d job)"
| "lib_exec (Op_config env env' create krn conf) d = strela_config env env' create d krn conf"
| "lib_exec (Op_execute env ready info ready' info') d = map_option fst (strela_execute env ready info ready' info' d)"

section \<open>The sticky error\<close>

text \<open>A call that may be left out of a program once the device has an error.\<close>

fun sticky_op :: "lib_op \<Rightarrow> bool" where
  "sticky_op (Op_init env w) = False"
| "sticky_op (Op_deinit mu cl env) = False"
| "sticky_op Op_reset_err = False"
| "sticky_op (Op_buffer_inval ret buf ofs n) = False"
| "sticky_op (Op_config env env' create krn conf) = False"
| "sticky_op _ = True"

primrec run_ops :: "('o \<Rightarrow> 'd \<Rightarrow> 'd option) \<Rightarrow> 'o list \<Rightarrow> 'd \<Rightarrow> 'd option" where
  "run_ops exec [] d = Some d"
| "run_ops exec (op # ops) d = Option.bind (exec op d) (run_ops exec ops)"

text \<open>The contract of an interface with a sticky error, and what its clients get: a program may check
  once at its end.\<close>

locale sticky_interface =
  fixes ok :: "'d \<Rightarrow> bool"
    and exec :: "'o \<Rightarrow> 'd \<Rightarrow> 'd option"
    and sticky :: "'o \<Rightarrow> bool"
  assumes skips: "\<not> ok d \<Longrightarrow> sticky op \<Longrightarrow> exec op d = Some d"
begin

lemma run_skips: "\<not> ok d \<Longrightarrow> list_all sticky ops \<Longrightarrow> run_ops exec ops d = Some d"
  by (induction ops) (auto simp: skips)

lemma run_ops_append: "run_ops exec (xs @ ys) d = Option.bind (run_ops exec xs d) (run_ops exec ys)"
proof (induction xs arbitrary: d)
  case (Cons x xs)
  then show ?case by (cases "exec x d") simp_all
qed simp

text \<open>A program of sticky calls that ends without an error had none at any point.\<close>

lemma run_ok_prefix:
  assumes "run_ops exec (xs @ ys) d = Some d'" "ok d'" "list_all sticky ys"
  shows "\<exists>d1. run_ops exec xs d = Some d1 \<and> ok d1"
proof -
  obtain d1 where d1: "run_ops exec xs d = Some d1" "run_ops exec ys d1 = Some d'"
    using assms(1) by (auto simp: run_ops_append split: bind_splits)
  then show ?thesis using run_skips[of d1 ys] assms(2,3) by auto
qed

lemma run_error_stays:
  assumes "run_ops exec xs d = Some d1" "\<not> ok d1" "list_all sticky ys"
  shows "run_ops exec (xs @ ys) d = Some d1"
  using assms run_skips[of d1 ys] by (simp add: run_ops_append)

end

lemma slot_get_sticky: "\<not> strela_dev_ok d \<Longrightarrow> strela_job_slot_get d job P = Some (d, None)"
  by (simp add: slot_get_result)

interpretation strela: sticky_interface strela_dev_ok lib_exec sticky_op
proof
  fix d and op :: lib_op
  assume n: "\<not> strela_dev_ok d" and s: "sticky_op op"
  note defs = strela_kernel_alloc_def strela_kernel_set_def strela_kernel_free_def strela_kernel_free_all_def strela_buffer_alloc_def
    strela_buffer_set_data_def strela_buffer_get_data_def strela_buffer_free_def strela_buffer_free_all_def strela_buffer_flush_def
    strela_buffer_sync_def job_config_sticky strela_job_free_def strela_job_free_all_def strela_job_submit_def strela_job_poll_def
    strela_job_wait_def strela_job_fd_def strela_execute_def slot_get_sticky
  show "lib_exec op d = Some d"
    using n s by (cases op) (simp_all add: defs Let_def assert_c_def)
qed



end
