(* ===== verification/LibSafe.thy ===== *)
theory LibSafe
  imports LibRun
begin

text \<open>
  Every call keeps the invariant of the device and none aborts, when the client passes what it owns and
  the kernel answers as it promises: the safety of any program that uses the library.
\<close>

section \<open>Calls of the job functions\<close>

text \<open>The job functions leave the memory, the allocators and the mappings alone.\<close>

definition same_mem :: "strela_dev \<Rightarrow> strela_dev \<Rightarrow> bool" where
  "same_mem d d' \<longleftrightarrow> dev_mem d' = dev_mem d \<and> tensors_bo_map d' = tensors_bo_map d \<and> kernels_bo_map d' = kernels_bo_map d
     \<and> kernel_pool d' = kernel_pool d \<and> buffer_free_list d' = buffer_free_list d \<and> dev_fd d' = dev_fd d
     \<and> dev_initialized d' = dev_initialized d
     \<and> tensors_bo_handle d' = tensors_bo_handle d \<and> kernels_bo_handle d' = kernels_bo_handle d"

lemma same_mem_refl [simp]: "same_mem d d" "same_mem d (d\<lparr>dev_errnum := e\<rparr>)" "same_mem d (log_calls cs d)" "same_mem d (set_slot i s d)"
  "same_mem d (d\<lparr>backward_compat_job := j\<rparr>)"
  by (simp_all add: same_mem_def set_slot_def)

lemma same_mem_trans: "same_mem d d' \<Longrightarrow> same_mem d' d'' \<Longrightarrow> same_mem d d''"
  by (simp add: same_mem_def)

lemma lib_inv_same_mem: "lib_inv d bs fs \<Longrightarrow> same_mem d d' \<Longrightarrow> slots_inv d' \<Longrightarrow> lib_inv d' bs fs"
  by (simp add: lib_inv_def same_mem_def heap_inv_def kernels_inv_def maps_apart_def)

lemma release_same_mem:
  assumes "strela_job_slot_release env d i = Some d'" "i < length (dev_jobs d)"
  shows "same_mem d d'"
  using release_frame[OF assms] by (auto simp: same_mem_def)

lemma job_free_total:
  assumes "rel_ok env"
  shows "\<exists>d'. strela_job_free env d job = Some d' \<and> same_mem d d'"
proof (cases "strela_dev_ok d")
  case True
  show ?thesis
  proof (cases "slot_of d job (NOT 0)")
    case (Some i)
    then have i: "i < length (dev_jobs d)" using slot_of_Some by blast
    obtain d' where "strela_job_slot_release env d i = Some d'"
      using release_total[OF _ assms i] True by (auto simp: strela_dev_ok_def)
    then show ?thesis using release_same_mem[OF _ i] True Some by (auto simp: strela_job_free_def slot_get_result)
  qed (use True in \<open>auto simp: strela_job_free_def slot_get_result strela_err\<close>)
qed (simp add: strela_job_free_def slot_get_result)

lemma job_config_total:
  assumes "create_ok create d"
  shows "\<exists>d' job. strela_job_config env create d krn conf = Some (d', job) \<and> same_mem d d'"
proof (cases "strela_dev_ok d")
  case True
  have "same_mem d (set_slot i s (log_calls cs d))" for i s cs by (simp add: same_mem_def set_slot_def)
  then show ?thesis unfolding job_config_result[OF True assms] by (auto simp: Let_def split: option.split sum.split)
qed (simp add: job_config_sticky)

lemma job_submit_total:
  assumes "js_close env"
  shows "\<exists>d' b. strela_job_submit env d job = Some (d', b) \<and> same_mem d d'"
proof -
  have "\<exists>d' b. strela_job_submit env d job = Some (d', b)"
    using assms by (auto simp: strela_job_submit_def slot_get_result Let_def assert_c_def split: option.splits)
  then obtain d' b where r: "strela_job_submit env d job = Some (d', b)" by blast
  have "same_mem d d'"
    using job_submit_result[OF r] by (auto simp: same_mem_def set_slot_def split: if_splits option.splits)
  then show ?thesis using r by blast
qed

lemma job_update_total:
  assumes "slot_of d job in_driver = Some i"
  shows "\<exists>d'. strela_job_update ready info d i = Some d' \<and> same_mem d d'"
proof -
  have "phase_number STRELA_JOB_CONFIGURED < phase_number (slot_phase (dev_jobs d ! i))" using slot_of_Some[OF assms] by auto
  then show ?thesis
    by (auto simp: strela_job_update_def assert_c_def Let_def split: poll_result.splits sum.splits)
qed

lemma job_poll_total: "\<exists>d' st. strela_job_poll ready info d job = Some (d', st) \<and> same_mem d d'"
proof (cases "strela_dev_ok d \<and> slot_of d job in_driver \<noteq> None")
  case True
  then obtain i where i: "slot_of d job in_driver = Some i" by blast
  then show ?thesis using True job_update_total[OF i, of ready info] by (auto simp: strela_job_poll_def slot_get_result Let_def)
qed (auto simp: strela_job_poll_def slot_get_result strela_err)

lemma job_wait_total: "\<exists>d' b. strela_job_wait ready info d job = Some (d', b) \<and> same_mem d d'"
proof (cases "strela_dev_ok d \<and> slot_of d job in_driver \<noteq> None")
  case True
  then obtain i where i: "slot_of d job in_driver = Some i" by blast
  then show ?thesis using True job_update_total[OF i, of ready info] by (auto simp: strela_job_wait_def slot_get_result)
qed (auto simp: strela_job_wait_def slot_get_result strela_err)

lemma job_fd_total: "\<exists>d' fd. strela_job_fd d job = Some (d', fd) \<and> same_mem d d'"
  by (auto simp: strela_job_fd_def slot_get_result split: option.splits)

section \<open>Calls of the kernel functions\<close>

lemma kernels_inv_count:
  assumes "kernels_inv d fs"
  shows "pool_geom (kernel_pool d)" "pool_count (kernel_pool d) = 128" "i \<in> set fs \<Longrightarrow> i < 128" "distinct fs"
    "pool_range (kernel_pool d) = {unat (kernels_bo_map d)..<unat (kernels_bo_map d) + 40960}"
  using assms by (auto simp: kernels_inv_def pool_inv_def pool_count_def)

lemma chunk_handle:
  assumes "kernels_inv d fs" "i < 128"
  shows "unat ((chunk_addr (kernel_pool d) i - p_buf (kernel_pool d)) div (STRELA_KERNEL_SIZE * 4)) = i"
proof -
  note k = kernels_inv_count[OF assms(1)]
  have c: "unat (p_chunk_size (kernel_pool d)) = 320" using assms(1) by (simp add: kernels_inv_def)
  have "unat (chunk_addr (kernel_pool d) i) = unat (p_buf (kernel_pool d)) + i * 320"
    using chunk_bounds(1)[OF k(1), of i] k(2) assms(2) c by simp
  then have "unat (chunk_addr (kernel_pool d) i - p_buf (kernel_pool d)) = i * 320" by (simp add: unat_sub_nowrap)
  then show ?thesis by (simp add: unat_div STRELA_KERNEL_SIZE_def)
qed

lemma slots_inv_mem [simp]: "slots_inv (d\<lparr>dev_mem := m\<rparr>) = slots_inv d" "slots_inv (d\<lparr>kernel_pool := p\<rparr>) = slots_inv d"
  "slots_inv (d\<lparr>buffer_free_list := fl\<rparr>) = slots_inv d" "slots_inv (d\<lparr>backward_compat_job := j\<rparr>) = slots_inv d"
  by (simp_all add: slots_inv_def)

lemma kernel_alloc_result:
  assumes inv: "lib_inv d bs fs" and ok: "strela_dev_ok d"
  shows "case fs of
      [] \<Rightarrow> strela_kernel_alloc d = Some (d\<lparr>dev_errnum := - STRELA_ERR_NO_MEM\<rparr>, \<lparr>kernel_valid = False, kernel_handle = 0\<rparr>)
    | i # fs' \<Rightarrow> \<exists>d'. strela_kernel_alloc d = Some (d', \<lparr>kernel_valid = True, kernel_handle = word_of_nat i\<rparr>)
        \<and> i < 128 \<and> i \<notin> set fs' \<and> strela_dev_ok d' \<and> lib_inv d' bs fs'"
proof (cases fs)
  case Nil
  then have "pool_inv (dev_mem d) (kernel_pool d) []" using inv by (simp add: lib_inv_def kernels_inv_def)
  from pool_alloc_empty[OF this] show ?thesis using ok Nil by (simp add: strela_kernel_alloc_def)
next
  case (Cons i fs')
  have ki: "kernels_inv d fs" and hi: "heap_inv d bs" using inv by (simp_all add: lib_inv_def)
  note k = kernels_inv_count[OF ki]
  let ?p = "kernel_pool d"
  have i: "i < 128" "i \<notin> set fs'" using k(3,4) Cons by auto
  obtain m h where a: "pool_alloc (dev_mem d) ?p = (m, ?p\<lparr>p_head := h\<rparr>, chunk_addr ?p i)" "pool_inv m (?p\<lparr>p_head := h\<rparr>) fs'"
    "\<forall>x. m x = (if unat (chunk_addr ?p i) \<le> unat x \<and> unat x < unat (chunk_addr ?p i) + unat (p_chunk_size ?p) then 0 else dev_mem d x)"
    using pool_alloc_cons[of "dev_mem d" ?p i fs'] ki Cons by (auto simp: kernels_inv_def)
  let ?d = "d\<lparr>dev_mem := m, kernel_pool := ?p\<lparr>p_head := h\<rparr>\<rparr>"
  have "changed_only (dev_mem d) m {unat (chunk_addr ?p i)..<unat (chunk_addr ?p i) + unat (p_chunk_size ?p)}"
    using a(3) by (auto simp: changed_only_def)
  then have ch: "changed_only (dev_mem d) (dev_mem ?d) (pool_range ?p)"
    using changed_only_mono chunk_in_range[OF k(1)] k(2) i(1) by auto
  have "heap_inv ?d bs"
    by (rule heap_inv_outside[OF hi ch]) (use k(5) inv in \<open>auto simp: lib_inv_def maps_apart_def\<close>)
  moreover have "kernels_inv ?d fs'" using ki a(2) by (simp add: kernels_inv_def)
  ultimately have "lib_inv ?d bs fs'" using inv by (simp add: lib_inv_def maps_apart_def)
  moreover have h: "word_of_nat i = (chunk_addr ?p i - p_buf ?p) div (STRELA_KERNEL_SIZE * 4)"
    using arg_cong[OF chunk_handle[OF ki i(1)], of "word_of_nat :: nat \<Rightarrow> u32"] by simp
  have "(chunk_addr ?p i - p_buf ?p) div (STRELA_KERNEL_SIZE * 4) < 128"
    using chunk_handle[OF ki i(1)] i(1) by (simp add: word_less_nat_alt)
  then have "strela_kernel_alloc d = Some (?d, \<lparr>kernel_valid = True, kernel_handle = word_of_nat i\<rparr>)"
    using ok a(1) chunk_nonnull[OF k(1)] k(2) i(1) unfolding h by (simp add: strela_kernel_alloc_def Let_def assert_c_def)
  moreover have "strela_dev_ok ?d" using ok by (simp add: strela_dev_ok_def)
  ultimately show ?thesis using Cons i by auto
qed

text \<open>Writing a kernel that is handed out touches neither the free ones nor the tensors.\<close>

lemma chunk_write:
  assumes "kernels_inv d fs" "i < 128" "i \<notin> set fs"
    "changed_only (dev_mem d) m {unat (chunk_addr (kernel_pool d) i)..<unat (chunk_addr (kernel_pool d) i) + 320}"
  shows "kernels_inv (d\<lparr>dev_mem := m\<rparr>) fs"
proof -
  note k = kernels_inv_count[OF assms(1)]
  let ?p = "kernel_pool d"
  have c: "unat (p_chunk_size ?p) = 320" using assms(1) by (simp add: kernels_inv_def)
  have "load32 m (chunk_addr ?p j) = load32 (dev_mem d) (chunk_addr ?p j)" if j: "j \<in> set fs" for j
  proof (rule load32_changed_only[OF assms(4)])
    have jl: "j < pool_count ?p" using k(2,3) j by simp
    show "aligned4 (chunk_addr ?p j)" by (rule chunk_aligned[OF k(1) jl])
    show "{unat (chunk_addr ?p j)..<unat (chunk_addr ?p j) + 4} \<inter> {unat (chunk_addr ?p i)..<unat (chunk_addr ?p i) + 320} = {}"
      using chunk_disjoint[OF k(1), of i j] jl k(2) assms(2,3) j c by fastforce
  qed
  then have "pool_inv m ?p fs" using assms(1) pool_chain_cong[of fs m ?p "dev_mem d" "p_head ?p"] by (simp add: kernels_inv_def pool_inv_def)
  then show ?thesis using assms(1) by (simp add: kernels_inv_def)
qed

lemma slots_inv_gem_sync [simp]: "slots_inv (log_calls [Ioctl_gem_sync args] d) = slots_inv d"
proof -
  have "Option.bind r (open_run [Ioctl_gem_sync args]) = r" for r by (cases r) simp_all
  then show ?thesis by (simp add: slots_inv_def)
qed

lemma sync_inv [simp]:
  "lib_inv (strela_sync ret d h flags ofs n) bs fs = lib_inv d bs fs"
  by (simp add: strela_sync_def Let_def lib_inv_def kernels_inv_def maps_apart_def)

lemma kernel_set_inv:
  assumes inv: "lib_inv d bs fs" and own: "kernel_ok krn \<Longrightarrow> unat (kernel_handle krn) \<notin> set fs"
  shows "lib_inv (strela_kernel_set ret d krn data) bs fs"
proof (cases "strela_dev_ok d \<and> kernel_ok krn")
  case False
  then show ?thesis using inv
    by (auto simp: strela_kernel_set_def Let_def kernel_ok_def not_less lib_inv_def kernels_inv_def maps_apart_def strela_err)
next
  case True
  let ?i = "unat (kernel_handle krn)" and ?p = "kernel_pool d"
  have ki: "kernels_inv d fs" and hi: "heap_inv d bs" using inv by (simp_all add: lib_inv_def)
  note k = kernels_inv_count[OF ki]
  have i: "?i < 128" using True by (simp add: kernel_ok_def word_less_nat_alt)
  have cs: "p_chunk_size ?p = 320" using ki by (simp add: kernels_inv_def)
  have ptr: "p_buf ?p + kernel_handle krn * STRELA_KERNEL_SIZE * 4 = chunk_addr ?p ?i"
    by (simp add: chunk_addr_def cs STRELA_KERNEL_SIZE_def)
  define m where "m = memmove_n (dev_mem d) (chunk_addr ?p ?i) data 320"
  have b: "unat (chunk_addr ?p ?i) + 320 \<le> 4294967296"
    using chunk_bounds[OF k(1), of ?i] k(1,2) i cs by (simp add: pool_geom_def)
  have ch: "changed_only (dev_mem d) m {unat (chunk_addr ?p ?i)..<unat (chunk_addr ?p ?i) + 320}"
    using memmove_n_apply[OF b] by (auto simp: changed_only_def m_def)
  have "kernels_inv (d\<lparr>dev_mem := m\<rparr>) fs" by (rule chunk_write[OF ki i own ch]) (use True in blast)
  moreover have "changed_only (dev_mem d) (dev_mem (d\<lparr>dev_mem := m\<rparr>)) (pool_range ?p)"
    using changed_only_mono[OF ch] chunk_in_range[OF k(1), of ?i] k(2) i cs by simp
  then have "heap_inv (d\<lparr>dev_mem := m\<rparr>) bs"
    by (rule heap_inv_outside[OF hi]) (use k(5) inv in \<open>auto simp: lib_inv_def maps_apart_def\<close>)
  ultimately have "lib_inv (d\<lparr>dev_mem := m\<rparr>) bs fs" using inv by (simp add: lib_inv_def maps_apart_def)
  moreover have "\<not> 128 \<le> kernel_handle krn" "kernel_valid krn" using True by (simp_all add: kernel_ok_def not_le)
  ultimately show ?thesis using True
    by (simp add: strela_kernel_set_def Let_def ptr m_def) (simp add: STRELA_KERNEL_SIZE_def)
qed

section \<open>Calls of the buffer functions\<close>

lemma free_bytes_region:
  assumes "heap_inv d bs"
  shows "free_bytes bs \<subseteq> {unat (tensors_bo_map d)..<unat (tensors_bo_map d) + 52428800}"
proof -
  have "layout_ok (unat (tensors_bo_map d)) (unat (tensors_bo_map d) + 52428800) bs"
    using assms flh.rep_layout[of "dev_mem d" "buffer_free_list d" bs] by (auto simp: heap_inv_def)
  then show ?thesis using tiles_inside[of _ _ bs] by (fastforce simp: free_bytes_def layout_ok_def)
qed

lemma payload_region:
  assumes "heap_inv d bs" "b \<in> useds bs"
  shows "payload b \<subseteq> {unat (tensors_bo_map d)..<unat (tensors_bo_map d) + 52428800}"
  using block_inside(1,2)[OF assms] by (auto simp: payload_def)

text \<open>A change of the heap that stays inside the tensor memory.\<close>

lemma lib_inv_heap:
  assumes "lib_inv d bs fs" "heap_inv (d\<lparr>dev_mem := m, buffer_free_list := fl\<rparr>) bs'"
    "changed_only (dev_mem d) m {unat (tensors_bo_map d)..<unat (tensors_bo_map d) + 52428800}"
  shows "lib_inv (d\<lparr>dev_mem := m, buffer_free_list := fl\<rparr>) bs' fs"
proof -
  have "kernels_inv (d\<lparr>dev_mem := m, buffer_free_list := fl\<rparr>) fs"
    by (rule kernels_inv_outside[where d = d and A = "{unat (tensors_bo_map d)..<unat (tensors_bo_map d) + 52428800}"])
       (use assms in \<open>auto simp: lib_inv_def maps_apart_def\<close>)
  then show ?thesis using assms(1,2) by (simp add: lib_inv_def maps_apart_def)
qed

lemma lib_inv_errnum [simp]: "lib_inv (d\<lparr>dev_errnum := e\<rparr>) bs fs = lib_inv d bs fs"
  by (simp add: lib_inv_def kernels_inv_def maps_apart_def)

lemma buffer_alloc_safe:
  assumes inv: "lib_inv d bs fs" and w: "unat words \<le> 1073741788"
  shows "\<exists>d' buf bs'. strela_buffer_alloc d words = Some (d', buf) \<and> lib_inv d' bs' fs"
proof (cases "strela_dev_ok d")
  case True
  have hi: "heap_inv d bs" using inv by (simp add: lib_inv_def)
  show ?thesis using buffer_alloc_result[OF True hi w] lib_inv_heap[OF inv] changed_only_mono[OF _ free_bytes_region[OF hi]] inv
    by (metis lib_inv_errnum)
next
  case False
  then show ?thesis using inv by (auto simp: strela_buffer_alloc_def)
qed

lemma buffer_free_safe:
  assumes inv: "lib_inv d bs fs" and own: "strela_dev_ok d \<and> buffer_valid buf \<Longrightarrow> \<exists>b. owns d bs buf b"
  shows "\<exists>d' bs'. strela_buffer_free d buf = Some d' \<and> lib_inv d' bs' fs"
proof (cases "strela_dev_ok d \<and> buffer_valid buf")
  case True
  then obtain b where b: "owns d bs buf b" using own by blast
  have hi: "heap_inv d bs" using inv by (simp add: lib_inv_def)
  obtain m fl bs' where f: "strela_buffer_free d buf = Some (d\<lparr>dev_mem := m, buffer_free_list := fl\<rparr>)"
    "heap_inv (d\<lparr>dev_mem := m, buffer_free_list := fl\<rparr>) bs'" "changed_only (dev_mem d) m (free_bytes bs')"
    by (rule used_after_free[OF hi b]) (use True in auto)
  have "changed_only (dev_mem d) m {unat (tensors_bo_map d)..<unat (tensors_bo_map d) + 52428800}"
    using changed_only_mono[OF f(3)] free_bytes_region[OF f(2)] by simp
  then show ?thesis using f(1) lib_inv_heap[OF inv f(2)] by blast
next
  case False
  then show ?thesis using inv by (auto simp: strela_buffer_free_def)
qed

text \<open>Memory of the client, outside the two mappings.\<close>

definition client_range :: "strela_dev \<Rightarrow> addr \<Rightarrow> nat \<Rightarrow> bool" where
  "client_range d p n \<longleftrightarrow> unat p + n \<le> 4294967296
     \<and> {unat p..<unat p + n} \<inter> {unat (tensors_bo_map d)..<unat (tensors_bo_map d) + 52428800} = {}
     \<and> {unat p..<unat p + n} \<inter> {unat (kernels_bo_map d)..<unat (kernels_bo_map d) + 40960} = {}"

lemma buffer_set_data_safe:
  assumes inv: "lib_inv d bs fs" and own: "strela_dev_ok d \<and> buffer_valid buf \<Longrightarrow> \<exists>b. owns d bs buf b"
  shows "\<exists>d'. strela_buffer_set_data d buf src = Some d' \<and> lib_inv d' bs fs"
proof (cases "strela_dev_ok d \<and> buffer_valid buf")
  case True
  then obtain b where b: "owns d bs buf b" using own by blast
  have hi: "heap_inv d bs" and bu: "b \<in> useds bs" using inv b by (simp_all add: lib_inv_def owns_def)
  define m where "m = memmove_n (dev_mem d) (tensors_bo_map d + offset_words_from_base buf * 4) src (unat (size_words buf * 4))"
  have ch: "changed_only (dev_mem d) m (payload b)" unfolding m_def by (rule copy_into_payload(1)[OF hi b])
  have "heap_inv (d\<lparr>dev_mem := m, buffer_free_list := buffer_free_list d\<rparr>) bs"
    using hi flh.client_write[OF _ bu ch] by (simp add: heap_inv_def)
  from lib_inv_heap[OF inv this changed_only_mono[OF ch payload_region[OF hi bu]]]
  have "lib_inv (d\<lparr>dev_mem := m\<rparr>) bs fs" by simp
  then show ?thesis using True by (simp add: strela_buffer_set_data_def strela_buffer_to_ptr_def m_def)
next
  case False
  then show ?thesis using inv by (auto simp: strela_buffer_set_data_def)
qed

lemma buffer_get_data_safe:
  assumes inv: "lib_inv d bs fs" and own: "strela_dev_ok d \<and> buffer_valid buf \<Longrightarrow> client_range d dst (unat (size_words buf * 4))"
  shows "\<exists>d'. strela_buffer_get_data d buf dst = Some d' \<and> lib_inv d' bs fs"
proof (cases "strela_dev_ok d \<and> buffer_valid buf")
  case True
  let ?n = "unat (size_words buf * 4)"
  have cr: "client_range d dst ?n" using own True by blast
  define m where "m = memmove_n (dev_mem d) dst (tensors_bo_map d + offset_words_from_base buf * 4) ?n"
  have "unat dst + ?n \<le> 4294967296" using cr by (simp add: client_range_def)
  from memmove_n_apply[OF this] have ch: "changed_only (dev_mem d) (dev_mem (d\<lparr>dev_mem := m\<rparr>)) {unat dst..<unat dst + ?n}"
    by (auto simp: changed_only_def m_def)
  have "heap_inv (d\<lparr>dev_mem := m\<rparr>) bs" by (rule heap_inv_outside[OF _ ch]) (use inv cr in \<open>auto simp: lib_inv_def client_range_def\<close>)
  moreover have "kernels_inv (d\<lparr>dev_mem := m\<rparr>) fs" by (rule kernels_inv_outside[OF _ ch]) (use inv cr in \<open>auto simp: lib_inv_def client_range_def\<close>)
  ultimately have "lib_inv (d\<lparr>dev_mem := m\<rparr>) bs fs" using inv by (simp add: lib_inv_def maps_apart_def)
  then show ?thesis using True by (simp add: strela_buffer_get_data_def strela_buffer_to_ptr_def m_def)
next
  case False
  then show ?thesis using inv by (auto simp: strela_buffer_get_data_def)
qed

lemma buffer_sync_inv: "lib_inv d bs fs \<Longrightarrow> lib_inv (strela_buffer_sync ret d buf flags ofs n) bs fs"
  by (simp add: strela_buffer_sync_def Let_def)

section \<open>The old interface\<close>

lemma config_safe:
  assumes inv: "lib_inv d bs fs" and env: "rel_ok env"
    and create: "\<And>d1. (if job_valid (backward_compat_job d) then strela_job_free env d (backward_compat_job d) else Some d) = Some d1
       \<Longrightarrow> create_ok create d1"
  shows "\<exists>d'. strela_config env env' create d krn conf = Some d' \<and> lib_inv d' bs fs"
proof -
  obtain d1 where d1: "(if job_valid (backward_compat_job d) then strela_job_free env d (backward_compat_job d) else Some d) = Some d1" "same_mem d d1"
    using job_free_total[OF env, of d "backward_compat_job d"] by (cases "job_valid (backward_compat_job d)") auto
  have si: "slots_inv d" using inv by (simp add: lib_inv_def)
  then have s1: "slots_inv d1" using d1(1) job_free_inv by (auto split: if_splits)
  obtain d2 job where d2: "strela_job_config env' create d1 krn conf = Some (d2, job)" "same_mem d1 d2"
    using job_config_total[OF create[OF d1(1)], of env' krn conf] by blast
  have "slots_inv (d2\<lparr>backward_compat_job := job\<rparr>)" using job_config_inv[OF d2(1) s1 create[OF d1(1)]] by simp
  moreover have "same_mem d (d2\<lparr>backward_compat_job := job\<rparr>)" using d1(2) d2(2) by (simp add: same_mem_def)
  moreover have "strela_config env env' create d krn conf = Some (d2\<lparr>backward_compat_job := job\<rparr>)"
    using d1(1) d2(1) by (auto simp: strela_config_def)
  ultimately show ?thesis using lib_inv_same_mem[OF inv] by blast
qed

text \<open>The wait of \<^verbatim>\<open>strela_execute\<close> ends with the fence signalled or with an error: the driver fails a job
  before the two seconds are over.\<close>

definition wait_done :: "poll_result \<Rightarrow> int + int \<Rightarrow> bool" where
  "wait_done ready info \<longleftrightarrow> (case ready of Poll_ready \<Rightarrow> True | Poll_timeout \<Rightarrow> False | Poll_error e \<Rightarrow> e \<noteq> EINTR \<and> e \<noteq> 0)
     \<and> (case info of Inl e \<Rightarrow> e \<noteq> 0 | Inr st \<Rightarrow> True)"

lemma submitted_slot:
  assumes r: "strela_job_submit env d job = Some (d1, b)" and ok: "strela_dev_ok d1" and s: "submit_ok env d job"
  obtains i fd where "js_export env = Inr fd" "fd \<noteq> - 1" "slot_of d job submittable = Some i" "js_submit env = 0" "strela_dev_ok d"
    "d1 = set_slot i (submit_slot env (dev_jobs d ! i)) (log_calls (submit_calls env (dev_jobs d ! i)) d)"
    "slot_of d1 job in_driver = Some i" "i < length (dev_jobs d1)" "slot_phase (dev_jobs d1 ! i) = STRELA_JOB_SUBMITTED"
    "slot_fence_fd (dev_jobs d1 ! i) = fd"
proof -
  note res = job_submit_result[OF r]
  have okd: "strela_dev_ok d" using res ok by (auto split: if_splits)
  then have e: "dev_errnum d = 0" by (simp add: strela_dev_ok_def strela_err)
  obtain i where i: "slot_of d job submittable = Some i" using res ok okd by (auto simp: strela_err split: option.splits)
  have z: "js_submit env = 0" using res ok okd i by (auto simp: split: if_splits)
  obtain fd where fd: "js_export env = Inr fd" "fresh_fd d i fd"
    using s i res ok okd z by (auto simp: submit_ok_def split: sum.splits)
  have d1: "d1 = set_slot i (submit_slot env (dev_jobs d ! i)) (log_calls (submit_calls env (dev_jobs d ! i)) d)"
    using res okd i z fd e by (auto intro!: strela_dev.equality)
  have il: "i < length (dev_jobs d)" "i = unat (job_handle job)" "job_valid job" using i by (auto simp: slot_of_def split: if_splits)
  have ph: "slot_phase (dev_jobs d1 ! i) = STRELA_JOB_SUBMITTED" "slot_fence_fd (dev_jobs d1 ! i) = fd"
    using il(1) fd(1) by (simp_all add: d1 submit_slot_def)
  have l: "length (dev_jobs d1) = length (dev_jobs d)" by (simp add: d1)
  have "slot_of d1 job in_driver = Some i" using il ph(1) l by (simp add: slot_of_def)
  then show thesis using fd i z okd d1 il(1) ph l by (intro that[of fd i]) (simp_all add: fresh_fd_def)
qed

lemma wait_result:
  assumes "strela_dev_ok d" "slot_of d job in_driver = Some i" "slot_phase (dev_jobs d ! i) = STRELA_JOB_SUBMITTED" "wait_done ready info"
  shows "\<exists>d' b. strela_job_wait ready info d job = Some (d', b) \<and> (case (ready, info) of
      (Poll_ready, Inr st) \<Rightarrow> b \<and> d' = set_slot i ((dev_jobs d ! i)\<lparr>slot_status := st, slot_phase := STRELA_JOB_DONE\<rparr>) d
    | _ \<Rightarrow> \<not> b \<and> \<not> strela_dev_ok d')"
proof -
  have i: "i < length (dev_jobs d)" using slot_of_Some[OF assms(2)] by simp
  show ?thesis using assms i
    by (cases ready; cases info) (auto simp: strela_job_wait_def slot_get_result strela_job_update_def assert_c_def Let_def wait_done_def)
qed

lemma execute_result:
  assumes inv: "slots_inv d" and env: "js_close env" "submit_ok env d (backward_compat_job d)" "wait_done ready info"
  shows "\<exists>d' st. strela_execute env ready info ready' info' d = Some (d', st) \<and> slots_inv d' \<and> same_mem d d' \<and> st \<noteq> STRELA_JOB_PENDING"
proof -
  let ?job = "backward_compat_job d"
  obtain d1 b where d1: "strela_job_submit env d ?job = Some (d1, b)" "same_mem d d1" using job_submit_total[OF env(1)] by blast
  have s1: "slots_inv d1" by (rule job_submit_inv[OF d1(1) inv env(2)])
  show ?thesis
  proof (cases "strela_dev_ok d1")
    case False
    then have "strela_execute env ready info ready' info' d = Some (d1, STRELA_JOB_FAILED)"
      using d1(1) by (simp add: strela_execute_def strela_job_wait_def strela_job_poll_def slot_get_sticky assert_c_def)
    then show ?thesis using s1 d1(2) by simp
  next
    case True
    then obtain i fd where i: "fd \<noteq> - 1" "slot_of d1 ?job in_driver = Some i" "i < length (dev_jobs d1)"
      "slot_phase (dev_jobs d1 ! i) = STRELA_JOB_SUBMITTED" "slot_fence_fd (dev_jobs d1 ! i) = fd"
      using submitted_slot[OF d1(1) True env(2)] by metis
    obtain d2 b2 where d2: "strela_job_wait ready info d1 ?job = Some (d2, b2)" "same_mem d1 d2" using job_wait_total by blast
    have "poll_ok ready d1 ?job" using i by (simp add: poll_ok_def)
    then have s2: "slots_inv d2" by (rule job_wait_inv[OF d2(1) s1])
    note w = wait_result[OF True i(2,4) env(3)]
    show ?thesis
    proof (cases "strela_dev_ok d2")
      case False
      then have "strela_execute env ready info ready' info' d = Some (d2, STRELA_JOB_FAILED)"
        using d1(1) d2(1) by (simp add: strela_execute_def strela_job_poll_def slot_get_sticky assert_c_def)
      then show ?thesis using s2 same_mem_trans[OF d1(2) d2(2)] by simp
    next
      case True
      then obtain st where e: "d2 = set_slot i ((dev_jobs d1 ! i)\<lparr>slot_status := st, slot_phase := STRELA_JOB_DONE\<rparr>) d1"
        using w d2(1) by (auto split: poll_result.splits sum.splits)
      have j: "job_valid ?job" "unat (job_handle ?job) = i" using i(2) by (auto simp: slot_of_def split: if_splits)
      have "slot_of d2 ?job in_driver = Some i" using j i(3) by (simp add: e slot_of_def)
      then have "strela_job_poll ready' info' d2 ?job = Some (d2, if 0 < st then STRELA_JOB_OK else STRELA_JOB_FAILED)"
        using True i(3) by (simp add: strela_job_poll_def slot_get_result strela_job_update_def assert_c_def Let_def e)
      then have "strela_execute env ready info ready' info' d = Some (d2, if 0 < st then STRELA_JOB_OK else STRELA_JOB_FAILED)"
        using d1(1) d2(1) by (simp add: strela_execute_def assert_c_def)
      then show ?thesis using s2 same_mem_trans[OF d1(2) d2(2)] by simp
    qed
  qed
qed

section \<open>All calls\<close>

definition dev_inv :: "strela_dev \<Rightarrow> layout \<Rightarrow> nat list \<Rightarrow> bool" where
  "dev_inv d bs fs \<longleftrightarrow> (if dev_initialized d then lib_inv d bs fs else closed_inv d)"

text \<open>What a call may assume when the buffers in use are those of \<open>bs\<close> and the kernels in \<open>fs\<close> are free.
  The last three conditions on \<^verbatim>\<open>strela_dev_deinit\<close>, on the size of a buffer and on a job that is submitted
  again (in \<open>submit_ok\<close>) exclude defects of the library.\<close>

fun call_cond :: "lib_op \<Rightarrow> strela_dev \<Rightarrow> layout \<Rightarrow> nat list \<Rightarrow> bool" where
  "call_cond (Op_init env w) d bs fs \<longleftrightarrow> init_ok env \<and> ie_munmap env \<and> ie_close env \<and> (\<forall>i. rel_ok (ie_release env i)) \<and> unat w < 8"
| "call_cond (Op_deinit mu cl env) d bs fs \<longleftrightarrow> mu \<and> cl \<and> (\<forall>i. rel_ok (env i)) \<and> (dev_initialized d \<longrightarrow> strela_dev_ok d)"
| "call_cond (Op_kernel_set ret krn data) d bs fs \<longleftrightarrow> (kernel_ok krn \<longrightarrow> unat (kernel_handle krn) \<notin> set fs)"
| "call_cond (Op_buffer_alloc words) d bs fs \<longleftrightarrow> unat words \<le> 1073741788"
| "call_cond (Op_buffer_set_data buf p) d bs fs \<longleftrightarrow> (strela_dev_ok d \<and> buffer_valid buf \<longrightarrow> (\<exists>b. owns d bs buf b))"
| "call_cond (Op_buffer_get_data buf p) d bs fs \<longleftrightarrow> (strela_dev_ok d \<and> buffer_valid buf \<longrightarrow> client_range d p (unat (size_words buf * 4)))"
| "call_cond (Op_buffer_free buf) d bs fs \<longleftrightarrow> (strela_dev_ok d \<and> buffer_valid buf \<longrightarrow> (\<exists>b. owns d bs buf b))"
| "call_cond (Op_job_config env create krn conf) d bs fs \<longleftrightarrow> create_ok create d"
| "call_cond (Op_job_free env job) d bs fs \<longleftrightarrow> rel_ok env"
| "call_cond (Op_job_free_all env) d bs fs \<longleftrightarrow> (\<forall>i. rel_ok (env i))"
| "call_cond (Op_job_submit env job) d bs fs \<longleftrightarrow> js_close env \<and> submit_ok env d job"
| "call_cond (Op_job_poll ready info job) d bs fs \<longleftrightarrow> poll_ok ready d job"
| "call_cond (Op_job_wait ready info job) d bs fs \<longleftrightarrow> poll_ok ready d job"
| "call_cond (Op_config env env' create krn conf) d bs fs \<longleftrightarrow> rel_ok env
     \<and> (case (if job_valid (backward_compat_job d) then strela_job_free env d (backward_compat_job d) else Some d) of
          None \<Rightarrow> True | Some d1 \<Rightarrow> create_ok create d1)"
| "call_cond (Op_execute env ready info ready' info') d bs fs \<longleftrightarrow> js_close env \<and> submit_ok env d (backward_compat_job d) \<and> wait_done ready info"
| "call_cond _ d bs fs \<longleftrightarrow> True"

lemma closed_step:
  assumes "\<not> dev_initialized d" "closed_inv d" "call_cond op d bs fs"
  shows "\<exists>d' bs' fs'. lib_exec op d = Some d' \<and> dev_inv d' bs' fs'"
proof (cases "sticky_op op")
  case True
  then have "lib_exec op d = Some d" using strela.skips[of d op] assms(1) by (simp add: strela_dev_ok_def)
  then show ?thesis using assms(1,2) by (auto simp: dev_inv_def)
next
  case False
  have cl: "dev_inv d' bs fs" if "\<not> dev_initialized d'" "dev_calls d' = dev_calls d" for d'
    using that assms(2) by (simp add: dev_inv_def closed_inv_def)
  have n: "\<not> strela_dev_ok d" using assms(1) by (simp add: strela_dev_ok_def)
  show ?thesis
  proof (cases op)
    case (Op_init env w)
    then have "init_ok env" "ie_munmap env" "ie_close env" "\<forall>i. rel_ok (ie_release env i)" "unat w < 8" using assms(3) by simp_all
    from init_closed[OF this assms(2)] obtain d' where r: "strela_dev_init env w d = Some d'" "if opens env w
        then strela_dev_ok d' \<and> lib_inv d' [Free (unat (tensors_bo_map d')) 52428800] (rev [0..<128])
          \<and> (\<forall>s \<in> set (dev_jobs d'). slot_phase s = STRELA_JOB_FREE) \<and> dev_fd d' = found_fds env ! unat w
        else closed_inv d' \<and> dev_errnum d' \<noteq> 0" by blast
    then have "dev_inv d' [Free (unat (tensors_bo_map d')) 52428800] (rev [0..<128])"
      by (auto simp: dev_inv_def lib_inv_def closed_inv_def split: if_splits)
    then show ?thesis using r(1) Op_init by auto
  next
    case (Op_deinit mu c env)
    then show ?thesis using assms(1) cl[of "zero_dev (dev_mem d) (dev_calls d)"] by (auto simp: strela_dev_deinit_def zero_dev_def)
  next
    case Op_reset_err
    then show ?thesis using assms(1) cl[of d] by (auto simp: strela_dev_reset_err_def)
  next
    case (Op_buffer_inval ret buf ofs n)
    have "dev_inv (strela_buffer_inval ret d buf ofs n) bs fs"
      by (rule cl) (use assms(1) in \<open>simp_all add: strela_buffer_inval_def strela_buffer_sync_def strela_dev_ok_def Let_def\<close>)
    then show ?thesis using Op_buffer_inval by auto
  next
    case (Op_config env env' create krn conf)
    have f: "(if job_valid (backward_compat_job d) then strela_job_free env d (backward_compat_job d) else Some d) = Some d"
      using n by (simp add: strela_job_free_def slot_get_sticky)
    have "strela_config env env' create d krn conf = Some (d\<lparr>backward_compat_job := \<lparr>job_valid = False, job_handle = 0\<rparr>\<rparr>)"
      using n unfolding strela_config_def f by (simp add: job_config_sticky)
    then show ?thesis using Op_config assms(1) cl[of "d\<lparr>backward_compat_job := \<lparr>job_valid = False, job_handle = 0\<rparr>\<rparr>"] by auto
  qed (use False in simp_all)
qed

lemma open_job_step:
  assumes "lib_inv d bs fs" "same_mem d d'" "slots_inv d'"
  shows "dev_inv d' bs fs"
  using lib_inv_same_mem[OF assms] by (auto simp: dev_inv_def lib_inv_def)

lemma lib_inv_dev_inv: "lib_inv d bs fs \<Longrightarrow> dev_inv d bs fs"
  by (simp add: dev_inv_def lib_inv_def)

text \<open>Resetting the pool, the heap and the slots of an open device.\<close>

lemma kernel_free_all_safe:
  assumes inv: "lib_inv d bs fs"
  shows "\<exists>fs'. lib_inv (strela_kernel_free_all d) bs fs'"
proof (cases "strela_dev_ok d")
  case True
  have ki: "kernels_inv d fs" and hi: "heap_inv d bs" using inv by (simp_all add: lib_inv_def)
  obtain m p where k: "strela_kernel_free_all d = d\<lparr>dev_mem := m, kernel_pool := p\<rparr>"
    "kernels_inv (d\<lparr>dev_mem := m, kernel_pool := p\<rparr>) (rev [0..<128])"
    "changed_only (dev_mem d) m {unat (kernels_bo_map d)..<unat (kernels_bo_map d) + 40960}"
    by (rule kernels_reset[of d]) (use ki True in \<open>auto simp: kernels_inv_def pool_inv_def\<close>)
  have "heap_inv (d\<lparr>dev_mem := m, kernel_pool := p\<rparr>) bs"
    by (rule heap_inv_outside[OF hi, where A = "{unat (kernels_bo_map d)..<unat (kernels_bo_map d) + 40960}"])
       (use k(3) inv in \<open>auto simp: lib_inv_def maps_apart_def\<close>)
  then have "lib_inv (strela_kernel_free_all d) bs (rev [0..<128])" using k(1,2) inv by (simp add: lib_inv_def maps_apart_def)
  then show ?thesis ..
qed (use inv in \<open>auto simp: strela_kernel_free_all_def\<close>)

lemma buffer_free_all_safe:
  assumes inv: "lib_inv d bs fs"
  shows "\<exists>bs'. lib_inv (strela_buffer_free_all d) bs' fs"
proof (cases "strela_dev_ok d")
  case True
  note g = lib_inv_geometry[OF inv, unfolded geometry_def]
  obtain m fl where h: "strela_buffer_free_all d = d\<lparr>dev_mem := m, buffer_free_list := fl\<rparr>"
    "heap_inv (d\<lparr>dev_mem := m, buffer_free_list := fl\<rparr>) [Free (unat (tensors_bo_map d)) 52428800]"
    "changed_only (dev_mem d) m {unat (tensors_bo_map d)..<unat (tensors_bo_map d) + 52428800}"
    by (rule heap_reset[of d]) (use g True in auto)
  from lib_inv_heap[OF inv h(2,3)] show ?thesis unfolding h(1) ..
qed (use inv in \<open>auto simp: strela_buffer_free_all_def\<close>)

lemma job_free_all_safe:
  assumes "slots_inv d" "\<forall>i. rel_ok (env i)"
  shows "\<exists>d'. strela_job_free_all env d = Some d' \<and> same_mem d d' \<and> slots_inv d'"
proof (cases "strela_dev_ok d")
  case True
  obtain js cs where "strela_job_free_all env d = Some (d\<lparr>dev_jobs := js, dev_calls := cs\<rparr>)"
    "slots_inv (d\<lparr>dev_jobs := js, dev_calls := cs\<rparr>)" by (rule free_all_total[OF _ assms(1) True, of env]) (use assms(2) in auto)
  then show ?thesis by (simp add: same_mem_def)
qed (use assms(1) in \<open>simp add: strela_job_free_all_def same_mem_def\<close>)

text \<open>The operations on jobs touch the slots and the calls only.\<close>

fun job_op :: "lib_op \<Rightarrow> bool" where
  "job_op (Op_job_config env create krn conf) = True"
| "job_op (Op_job_free env job) = True"
| "job_op (Op_job_free_all envs) = True"
| "job_op (Op_job_submit senv job) = True"
| "job_op (Op_job_poll ready info job) = True"
| "job_op (Op_job_wait ready info job) = True"
| "job_op (Op_job_fd job) = True"
| "job_op (Op_execute senv ready info ready' info') = True"
| "job_op _ = False"

lemma job_op_step:
  assumes si: "slots_inv d" and c: "call_cond op d bs fs" and "job_op op"
  shows "\<exists>d'. lib_exec op d = Some d' \<and> same_mem d d' \<and> slots_inv d'"
proof (cases op)
  case (Op_job_config env create krn conf)
  then show ?thesis using job_config_total[of create d env krn conf] job_config_inv[OF _ si, of env create krn conf] c by fastforce
next
  case (Op_job_free env job)
  then show ?thesis using job_free_total[of env d job] job_free_inv[OF _ si, of env job] c by fastforce
next
  case (Op_job_free_all env)
  then show ?thesis using job_free_all_safe[OF si] c by simp
next
  case (Op_job_submit env job)
  then show ?thesis using job_submit_total[of env d job] job_submit_inv[OF _ si, of env job] c by fastforce
next
  case (Op_job_poll ready info job)
  then show ?thesis using job_poll_total[of ready info d job] job_poll_inv[OF _ si, of ready info job] c by fastforce
next
  case (Op_job_wait ready info job)
  then show ?thesis using job_wait_total[of ready info d job] job_wait_inv[OF _ si, of ready info job] c by fastforce
next
  case (Op_job_fd job)
  then show ?thesis using job_fd_total[of d job] job_fd_inv[OF _ si, of job] by fastforce
next
  case (Op_execute env ready info ready' info')
  then show ?thesis using execute_result[OF si, of env ready info ready' info'] c by fastforce
qed (use assms(3) in simp_all)

lemma open_step:
  assumes inv: "lib_inv d bs fs" and c: "call_cond op d bs fs"
  shows "\<exists>d' bs' fs'. lib_exec op d = Some d' \<and> dev_inv d' bs' fs'"
proof -
  have init: "dev_initialized d" using inv by (simp add: lib_inv_def)
  have keep: "\<exists>d' bs' fs'. lib_exec op d = Some d' \<and> dev_inv d' bs' fs'" if "lib_exec op d = Some d1" "lib_inv d1 bs1 fs1" for d1 bs1 fs1
    using that lib_inv_dev_inv by blast
  have same: ?thesis if "job_op op"
    using job_op_step[OF _ c that] open_job_step[OF inv] inv by (auto simp: lib_inv_def)
  show ?thesis
  proof (cases op)
    case (Op_init env w)
    then obtain d' where "strela_dev_init env w d = Some d'" "lib_inv d' [Free (unat (tensors_bo_map d')) 52428800] (rev [0..<128])"
      using init_open[OF _ _ inv, of env w] c by auto
    then show ?thesis using keep Op_init by simp
  next
    case (Op_deinit mu cl env)
    then obtain d' where "strela_dev_deinit True True env d = Some d'" "closed_inv d'"
      using deinit_ok[OF _ inv, of env] c init by auto
    then show ?thesis using Op_deinit c by (auto simp: dev_inv_def closed_inv_def)
  next
    case Op_kernel_alloc
    show ?thesis
    proof (cases "strela_dev_ok d")
      case True
      then show ?thesis using kernel_alloc_result[OF inv True] inv keep Op_kernel_alloc
        by (cases fs) (auto intro: lib_inv_dev_inv)
    qed (use keep[of d bs fs] inv Op_kernel_alloc in \<open>simp add: strela_kernel_alloc_def\<close>)
  next
    case (Op_buffer_flush ret buf ofs n)
    have "lib_inv (strela_buffer_flush ret d buf ofs n) bs fs" using inv buffer_sync_inv[OF inv] by (simp add: strela_buffer_flush_def Let_def)
    then show ?thesis using keep Op_buffer_flush by simp
  next
    case (Op_buffer_inval ret buf ofs n)
    have "lib_inv (strela_buffer_inval ret d buf ofs n) bs fs" using inv by (simp add: strela_buffer_inval_def Let_def buffer_sync_inv)
    then show ?thesis using keep Op_buffer_inval by simp
  next
    case (Op_config env env' create krn conf)
    then have "\<exists>d'. strela_config env env' create d krn conf = Some d' \<and> lib_inv d' bs fs"
      using c by (intro config_safe[OF inv]) auto
    then show ?thesis using keep Op_config by auto
  next
    case (Op_kernel_set ret krn data)
    then show ?thesis using keep[OF _ kernel_set_inv[OF inv, of krn ret data]] c by simp
  next
    case (Op_buffer_set_data buf p)
    then show ?thesis using buffer_set_data_safe[OF inv, of buf p] c keep by auto
  next
    case (Op_buffer_get_data buf p)
    then show ?thesis using buffer_get_data_safe[OF inv, of buf p] c keep by auto
  qed (use same keep[of _ bs fs] inv c buffer_alloc_safe[OF inv] buffer_free_safe[OF inv] kernel_free_all_safe[OF inv]
        buffer_free_all_safe[OF inv] lib_inv_dev_inv
      in \<open>(fastforce simp: strela_dev_reset_err_def strela_kernel_free_def)+\<close>)
qed

section \<open>Programs\<close>

definition call_ok :: "lib_op \<Rightarrow> strela_dev \<Rightarrow> bool" where
  "call_ok op d \<longleftrightarrow> (\<exists>bs fs. dev_inv d bs fs \<and> call_cond op d bs fs)"

inductive lib_reach :: "strela_dev \<Rightarrow> bool" where
  start: "lib_reach (zero_dev m [])"
| call: "lib_reach d \<Longrightarrow> call_ok op d \<Longrightarrow> lib_exec op d = Some d' \<Longrightarrow> lib_reach d'"

lemma call_safe:
  assumes "call_ok op d"
  shows "\<exists>d' bs' fs'. lib_exec op d = Some d' \<and> dev_inv d' bs' fs'"
proof -
  obtain bs fs where i: "dev_inv d bs fs" "call_cond op d bs fs" using assms by (auto simp: call_ok_def)
  show ?thesis
  proof (cases "dev_initialized d")
    case True
    then show ?thesis using i by (intro open_step) (simp_all add: dev_inv_def)
  next
    case False
    then show ?thesis using i by (intro closed_step) (simp_all add: dev_inv_def)
  qed
qed

lemma reach_inv: "lib_reach d \<Longrightarrow> \<exists>bs fs. dev_inv d bs fs"
proof (induction rule: lib_reach.induct)
  case (start m)
  show ?case by (simp add: dev_inv_def zero_dev_def closed_inv_def)
next
  case (call d op d')
  then show ?case using call_safe[of op d] by auto
qed

end
