(* ===== verification/Shared.thy ===== *)
theory Shared
  imports LibSafe
begin

text \<open>
  The tensor memory is one buffer object: the library sees its bytes in a mapping, the device its
  words.  After the device has written words, the mapping shows them (the buffer objects of the driver
  are synchronised around a job), and everything else in the client's memory is as it was.
\<close>

unbundle bit_operations_syntax

section \<open>Words and bytes\<close>

lemma load32_byte:
  assumes "j < 4"
  shows "ucast (drop_bit (8 * j) (load32 m a)) = m (a + word_of_nat j)"
proof (rule bit_word_eqI)
  fix n assume n: "n < LENGTH(8)"
  consider "j = 0" | "j = 1" | "j = 2" | "j = 3" using assms by linarith
  then show "bit (ucast (drop_bit (8 * j) (load32 m a)) :: u8) n \<longleftrightarrow> bit (m (a + word_of_nat j)) n"
    using n by cases (auto simp: load32_def bit_simps dest: bit_imp_le_length)
qed

text \<open>The client's memory with the \<open>n\<close> words \<open>w\<close> at \<open>base\<close>, as a mapping of the object that holds them.\<close>

definition object_view :: "mem \<Rightarrow> addr \<Rightarrow> nat \<Rightarrow> (nat \<Rightarrow> u32) \<Rightarrow> mem" where
  "object_view m base n w = (\<lambda>a. if unat base \<le> unat a \<and> unat a < unat base + n * 4
     then ucast (drop_bit (8 * ((unat a - unat base) mod 4)) (w ((unat a - unat base) div 4))) else m a)"

definition word_addr :: "addr \<Rightarrow> nat \<Rightarrow> addr" where
  "word_addr base k = base + word_of_nat (k * 4)"

definition mapped :: "mem \<Rightarrow> addr \<Rightarrow> nat \<Rightarrow> (nat \<Rightarrow> u32) \<Rightarrow> bool" where
  "mapped m base n w \<longleftrightarrow> (\<forall>k < n. load32 m (word_addr base k) = w k)"

lemma unat_word_addr:
  assumes "unat base + n * 4 \<le> 4294967296" "k < n" "j < 4"
  shows "unat (word_addr base k + word_of_nat j) = unat base + k * 4 + j"
proof -
  have "unat (word_of_nat (k * 4) :: u32) = k * 4" "unat (word_of_nat j :: u32) = j"
    using assms by (intro unat_of_nat_32; linarith)+
  then show ?thesis using assms by (simp add: word_addr_def unat_add_nowrap)
qed

lemma object_view_mapped:
  assumes "unat base + n * 4 \<le> 4294967296"
  shows "mapped (object_view m base n w) base n w"
  unfolding mapped_def
proof (intro allI impI)
  fix k assume k: "k < n"
  let ?m = "object_view m base n w" and ?a = "word_addr base k"
  have byte: "?m (?a + word_of_nat j) = ucast (drop_bit (8 * j) (w k))" if "j < 4" for j
    using that k by (simp add: object_view_def unat_word_addr[OF assms k that])
  have "load32 ?m ?a = load32 (store32 m ?a (w k)) ?a"
    using byte[of 0] byte[of 1] byte[of 2] byte[of 3] by (simp add: load32_def store32_def)
  then show "load32 ?m ?a = w k" by (simp add: load32_store32_same)
qed

lemma object_view_changed:
  assumes "unat base + n * 4 \<le> 4294967296" "mapped m base n w0" "\<And>k. k < n \<Longrightarrow> k \<notin> K \<Longrightarrow> w k = w0 k"
  shows "changed_only m (object_view m base n w) (\<Union>k \<in> K. {unat base + k * 4..<unat base + k * 4 + 4})"
  unfolding changed_only_def
proof (intro allI impI)
  fix a :: addr assume a: "unat a \<notin> (\<Union>k \<in> K. {unat base + k * 4..<unat base + k * 4 + 4})"
  show "object_view m base n w a = m a"
  proof (cases "unat base \<le> unat a \<and> unat a < unat base + n * 4")
    case True
    let ?i = "unat a - unat base"
    have k: "?i div 4 < n" and j: "?i mod 4 < 4" using True by auto
    have i: "unat a = unat base + ?i div 4 * 4 + ?i mod 4" using True by simp
    then have "?i div 4 \<notin> K" using a j by fastforce
    then have "w (?i div 4) = load32 m (word_addr base (?i div 4))" using assms(2,3) k by (simp add: mapped_def)
    moreover have "word_addr base (?i div 4) + word_of_nat (?i mod 4) = a"
      using unat_word_addr[OF assms(1) k j] i by (simp add: word_unat_eq_iff)
    ultimately show ?thesis using True load32_byte[OF j, of m "word_addr base (?i div 4)"] by (simp add: object_view_def)
  qed (auto simp: object_view_def)
qed

section \<open>The library's invariant under the device's writes\<close>

text \<open>A device that writes inside buffers in use leaves the allocators and the jobs alone.\<close>

lemma device_writes_inv:
  assumes inv: "lib_inv d bs fs" and ch: "changed_only (dev_mem d) m' (\<Union> (payload ` useds bs))"
  shows "lib_inv (d\<lparr>dev_mem := m'\<rparr>) bs fs"
proof -
  have hi: "heap_inv d bs" and ki: "kernels_inv d fs" and ap: "maps_apart d" using inv by (simp_all add: lib_inv_def)
  have rep: "fl_rep (dev_mem d) (buffer_free_list d) bs" using hi by (simp add: heap_inv_def)
  have "finite (useds bs)" by (simp add: useds_def)
  from flh.client_writes[OF this rep _ ch] have "fl_rep m' (buffer_free_list d) bs" by blast
  then have "heap_inv (d\<lparr>dev_mem := m'\<rparr>) bs" using hi by (simp add: heap_inv_def)
  moreover have "kernels_inv (d\<lparr>dev_mem := m'\<rparr>) fs"
  proof (rule kernels_inv_outside[OF ki])
    have "payload b \<subseteq> {unat (tensors_bo_map d)..<unat (tensors_bo_map d) + 52428800}" if "b \<in> useds bs" for b
      using block_inside(1,2)[OF hi that] by (auto simp: payload_def)
    then show "\<Union> (payload ` useds bs) \<inter> {unat (kernels_bo_map d)..<unat (kernels_bo_map d) + 40960} = {}"
      using ap unfolding maps_apart_def by fastforce
  qed (use ch in simp_all)
  ultimately show ?thesis using inv by (simp add: lib_inv_def slots_inv_def maps_apart_def)
qed

end
