(* ===== verification/LibProps.thy ===== *)
theory LibProps
  imports LibSafe
begin

text \<open>
  The properties of the user library as a whole, and of its requests at the driver.
\<close>

section \<open>An open device\<close>

text \<open>A kernel that has one device and answers every call.\<close>

definition good_release :: release_env where
  "good_release = \<lparr>rel_wait = True, rel_close = True, rel_destroy = True\<rparr>"

definition good_init :: init_env where
  "good_init = \<lparr>ie_accel = two_cards, ie_gem_kernels = Inr 1, ie_map_kernels = Inr 0x20000000, ie_gem_tensors = Inr 2,
     ie_map_tensors = Inr 0x10000000, ie_munmap = True, ie_close = True, ie_release = (\<lambda>_. good_release)\<rparr>"

lemma rel_ok_good [simp]: "rel_ok good_release"
  by (simp add: rel_ok_def good_release_def)

lemma good_init_ok [simp]:
  "init_ok good_init" "ie_munmap good_init" "ie_close good_init" "ie_release good_init i = good_release"
  by (auto simp: init_ok_def good_init_def accel_ok_def two_cards_def answer_ok_def map_ok_def)

lemma good_init_opens: "opens good_init 0" "found_fds good_init ! 0 = 5"
proof -
  have "found_fds good_init = [5, 5]"
    by (simp add: found_fds_def good_init_def strela_fds_def map_filter_simps visible_def strela_fd_def two_cards_def strcmp_eq_def STRELA_DRM_NAME_def)
  then show "opens good_init 0" "found_fds good_init ! 0 = 5" by (simp_all add: opens_def good_init_def)
qed

lemma zero_closed: "closed_inv (zero_dev m [])"
  by (simp add: closed_inv_def zero_dev_def)

lemma open_device:
  obtains d where "lib_reach d" "strela_dev_ok d" "lib_inv d [Free (unat (tensors_bo_map d)) 52428800] (rev [0..<128])"
    "\<forall>s \<in> set (dev_jobs d). slot_phase s = STRELA_JOB_FREE" "dev_fd d = 5" "strela_dev_init good_init 0 (zero_dev (\<lambda>_. 0) []) = Some d"
proof -
  let ?z = "zero_dev (\<lambda>_. 0) []"
  obtain d where i: "strela_dev_init good_init 0 ?z = Some d" "strela_dev_ok d" "lib_inv d [Free (unat (tensors_bo_map d)) 52428800] (rev [0..<128])"
    "\<forall>s \<in> set (dev_jobs d). slot_phase s = STRELA_JOB_FREE" "dev_fd d = 5"
    using init_closed[of good_init 0 ?z] zero_closed good_init_opens by auto
  have "call_ok (Op_init good_init 0) ?z"
    using zero_closed by (auto simp: call_ok_def dev_inv_def zero_dev_def)
  then have "lib_reach d" using lib_reach.call[OF lib_reach.start] i(1) by simp
  then show thesis using i by (intro that)
qed

text \<open>The same device with one job configured, and with that job submitted.\<close>

definition no_conf :: strela_conf where
  "no_conf = \<lparr>inp0_offset = 0, inp0_count = 0, inp0_stride = 0, inp1_offset = 0, inp1_count = 0, inp1_stride = 0,
     inp2_offset = 0, inp2_count = 0, inp2_stride = 0, inp3_offset = 0, inp3_count = 0, inp3_stride = 0,
     out0_offset = 0, out0_count = 0, out1_offset = 0, out1_count = 0, out2_offset = 0, out2_count = 0, out3_offset = 0, out3_count = 0\<rparr>"

definition first_kernel :: strela_kernel where "first_kernel = \<lparr>kernel_valid = True, kernel_handle = 0\<rparr>"

definition first_job :: strela_job_lib where "first_job = \<lparr>job_valid = True, job_handle = 0\<rparr>"

lemma slots_length: "lib_inv d bs fs \<Longrightarrow> length (dev_jobs d) = 16"
  by (simp add: lib_inv_def slots_inv_def STRELA_JOBS_MAX_def)

lemma free_first:
  assumes "length js = 16" "\<forall>s \<in> set js. slot_phase s = STRELA_JOB_FREE"
  shows "find_free_slot 0 js = Some 0"
  using assms by (cases js) auto

lemma configured_device:
  obtains d bs fs where "lib_reach d" "strela_dev_ok d" "lib_inv d bs fs" "dev_fd d = 5"
    "slot_phase (dev_jobs d ! 0) = STRELA_JOB_CONFIGURED" "slot_fence_fd (dev_jobs d ! 0) = - 1"
    "sub_out_syncobj (slot_submit (dev_jobs d ! 0)) = 9" "held slot_fd (dev_jobs d) = {}" "held slot_sync (dev_jobs d) = {9}"
proof -
  obtain d where d: "lib_reach d" "strela_dev_ok d" "lib_inv d [Free (unat (tensors_bo_map d)) 52428800] (rev [0..<128])"
    "\<forall>s \<in> set (dev_jobs d). slot_phase s = STRELA_JOB_FREE" "dev_fd d = 5" by (rule open_device)
  have none: "held slot_sync (dev_jobs d) = {}" "held slot_fd (dev_jobs d) = {}" using d(4) by (auto simp: held_def slot_sync_def slot_fd_def)
  then have c: "create_ok (Inr 9) d" by (simp add: create_ok_def fresh_sync_def)
  have l: "0 < length (dev_jobs d)" using slots_length[OF d(3)] by simp
  let ?s = "(dev_jobs d ! 0)\<lparr>slot_phase := STRELA_JOB_CONFIGURED, slot_fence_fd := - 1, slot_submit := conf_submit d first_kernel no_conf 9\<rparr>"
  let ?d = "set_slot 0 ?s (log_calls [Syncobj_created 9] d)"
  have r: "strela_job_config good_release (Inr 9) d first_kernel no_conf = Some (?d, first_job)"
    using free_first[OF slots_length[OF d(3)] d(4)] by (simp add: job_config_result[OF d(2) c] kernel_ok_def first_kernel_def first_job_def)
  have si: "slots_inv d" "slots_inv ?d" using d(3) job_config_inv[OF r _ c] by (simp_all add: lib_inv_def)
  have "call_ok (Op_job_config good_release (Inr 9) first_kernel no_conf) d" using c lib_inv_dev_inv[OF d(3)] by (auto simp: call_ok_def)
  then have "lib_reach ?d" using lib_reach.call[OF d(1)] r by simp
  moreover have "lib_inv ?d [Free (unat (tensors_bo_map d)) 52428800] (rev [0..<128])"
    by (rule lib_inv_same_mem[OF d(3) _ si(2)]) (simp add: same_mem_def set_slot_def)
  moreover have "held slot_sync (dev_jobs ?d) = {9}" "held slot_fd (dev_jobs ?d) = {}"
    using si(1) l none by (simp_all add: held_update slots_inv_def slot_sync_def slot_fd_def)
  ultimately show thesis using d(2,5) l by (intro that[of ?d]) simp_all
qed

definition good_submit :: jsubmit_env where
  "good_submit = \<lparr>js_submit = 0, js_close = True, js_export = Inr 7\<rparr>"

lemma first_submittable:
  assumes "lib_inv d bs fs" "slot_phase (dev_jobs d ! 0) = STRELA_JOB_CONFIGURED" "dev_fd d = 5" "held slot_fd (dev_jobs d) = {}"
  shows "slot_of d first_job submittable = Some 0" "submit_ok good_submit d first_job" "call_ok (Op_job_submit good_submit first_job) d"
proof -
  have l: "0 < length (dev_jobs d)" using slots_length[OF assms(1)] by simp
  show so: "slot_of d first_job submittable = Some 0" using assms(2) l by (simp add: slot_of_def first_job_def)
  have un: "unshared slot_fd (dev_jobs d)" using assms(1) by (simp add: lib_inv_def slots_inv_def)
  show "submit_ok good_submit d first_job"
    using so assms(3,4) held_update[OF un l, of zero_slot] by (simp add: submit_ok_def good_submit_def fresh_fd_def)
  then show "call_ok (Op_job_submit good_submit first_job) d"
    using lib_inv_dev_inv[OF assms(1)] by (auto simp: call_ok_def good_submit_def)
qed

lemma submitted_device:
  obtains d bs fs where "lib_reach d" "strela_dev_ok d" "lib_inv d bs fs" "held slot_fd (dev_jobs d) = {7}"
    "slot_phase (dev_jobs d ! 0) = STRELA_JOB_SUBMITTED" "slot_fence_fd (dev_jobs d ! 0) = 7" "dev_fd d = 5"
proof -
  obtain d bs fs where d: "lib_reach d" "strela_dev_ok d" "lib_inv d bs fs" "dev_fd d = 5"
    "slot_phase (dev_jobs d ! 0) = STRELA_JOB_CONFIGURED" "slot_fence_fd (dev_jobs d ! 0) = - 1" "held slot_fd (dev_jobs d) = {}"
    by (rule configured_device)
  have l: "0 < length (dev_jobs d)" "length (dev_jobs d) = 16" using slots_length[OF d(3)] by simp_all
  have si: "slots_inv d" using d(3) by (simp add: lib_inv_def)
  then have un: "unshared slot_fd (dev_jobs d)" by (simp add: slots_inv_def)
  note f = first_submittable[OF d(3,5,4,7)]
  obtain d' b where r: "strela_job_submit good_submit d first_job = Some (d', b)" "same_mem d d'"
    using job_submit_total[of good_submit d first_job] by (auto simp: good_submit_def)
  have d': "d' = (set_slot 0 (submit_slot good_submit (dev_jobs d ! 0)) (log_calls (submit_calls good_submit (dev_jobs d ! 0)) d))\<lparr>dev_errnum := 0\<rparr>"
    using job_submit_result[OF r(1)] d(2) f(1) by (simp add: good_submit_def)
  have err0: "STRELA_ERR_OK = 0" by (simp add: strela_err)
  have "lib_reach d'" using lib_reach.call[OF d(1) f(3)] r by simp
  moreover have "lib_inv d' bs fs" by (rule lib_inv_same_mem[OF d(3) r(2) job_submit_inv[OF r(1) si f(2)]])
  moreover have "held slot_fd (dev_jobs d') = {7}"
    using un l d(7) by (simp add: d' held_update slot_fd_def submit_slot_def good_submit_def)
  moreover have "strela_dev_ok d'" using d(2) by (simp add: d' strela_dev_ok_def err0)
  moreover have "slot_phase (dev_jobs d' ! 0) = STRELA_JOB_SUBMITTED" "slot_fence_fd (dev_jobs d' ! 0) = 7" "dev_fd d' = 5"
    using l d(4) by (simp_all add: d' submit_slot_def good_submit_def)
  ultimately show thesis by (intro that[of d'])
qed

section \<open>Opening and closing\<close>

text \<open>C13. \<^verbatim>\<open>strela_dev_init\<close> of a closed device succeeds exactly when \<^verbatim>\<open>/dev/accel\<close> has that many strela files and
  the four calls do.  Then the device uses the descriptor of that file, has all 128 kernels and the
  whole tensor memory free, and no job.  Otherwise it reports an error and has given back every
  descriptor, mapping and directory it opened.  Neither case trips an assertion.\<close>

theorem strela_dev_init_exact:
  assumes "init_ok env" "ie_munmap env" "ie_close env" "\<forall>i. rel_ok (ie_release env i)" "unat w < 8" "closed_inv d"
  shows "\<exists>d'. strela_dev_init env w d = Some d' \<and> (if opens env w
    then strela_dev_ok d' \<and> lib_inv d' [Free (unat (tensors_bo_map d')) 52428800] (rev [0..<128])
      \<and> (\<forall>s \<in> set (dev_jobs d'). slot_phase s = STRELA_JOB_FREE) \<and> dev_fd d' = found_fds env ! unat w
    else closed_inv d' \<and> dev_errnum d' \<noteq> 0)"
  using assms by (rule init_closed)

theorem strela_dev_init_exact_witness:
  "\<exists>d d'. strela_dev_init good_init 0 (zero_dev (\<lambda>_. 0) []) = Some d \<and> strela_dev_ok d \<and> dev_fd d = 5
    \<and> strela_dev_init good_init 2 (zero_dev (\<lambda>_. 0) []) = Some d' \<and> closed_inv d' \<and> dev_errnum d' \<noteq> 0"
proof -
  let ?z = "zero_dev (\<lambda>_. 0) []"
  have "\<not> opens good_init 2"
    by (simp add: opens_def found_fds_def good_init_def strela_fds_def map_filter_simps visible_def strela_fd_def two_cards_def strcmp_eq_def STRELA_DRM_NAME_def)
  then show ?thesis
    using strela_dev_init_exact[of good_init 0 ?z] strela_dev_init_exact[of good_init 2 ?z] zero_closed good_init_opens by auto
qed

text \<open>\<^verbatim>\<open>strela_dev_deinit\<close> of a device with a pending error skips the release of the jobs: it zeroes the
  device while the fence descriptors of all its jobs stay open, and waits for none of them.\<close>

theorem deinit_error_leaks:
  assumes "lib_inv d bs fs" "\<not> strela_dev_ok d"
  shows "\<exists>d'. strela_dev_deinit True True env d = Some d' \<and> d' = zero_dev (dev_mem d) (dev_calls d')
    \<and> open_run (dev_calls d') no_resources = Some (held slot_fd (dev_jobs d), held slot_sync (dev_jobs d), {}, False)
    \<and> (\<exists>cs. dev_calls d' = dev_calls d @ cs \<and> (\<forall>fd. Waited_fence fd \<notin> set cs) \<and> (\<forall>h. Waited_syncobj h \<notin> set cs))"
proof -
  let ?t = "tensors_bo_map d" and ?k = "kernels_bo_map d"
  have i: "dev_initialized d" "slots_inv d" "dev_fd d \<noteq> - 1" using assms(1) by (simp_all add: lib_inv_def)
  note g = geometry_maps[OF lib_inv_geometry[OF assms(1)]]
  then have n: "?t \<noteq> 0" "?t \<noteq> MAP_FAILED" "?k \<noteq> 0" "?k \<noteq> MAP_FAILED" by auto
  have r: "strela_dev_deinit True True env d = Some (zero_dev (dev_mem d) (dev_calls d @ [Unmapped ?t, Unmapped ?k, Fd_closed (dev_fd d)]))"
    using i assms(2) n by (simp add: strela_dev_deinit_def strela_job_free_all_def strela_dev_deinit_internal_def assert_c_def)
  have "open_run (dev_calls d @ [Unmapped ?t, Unmapped ?k, Fd_closed (dev_fd d)]) no_resources
      = Some (held slot_fd (dev_jobs d), held slot_sync (dev_jobs d), {}, False)"
    using i(2) g(2) by (auto simp: slots_inv_def)
  then show ?thesis using r by (simp add: zero_dev_def)
qed

theorem deinit_error_leaks_witness:
  "\<exists>d d'. \<not> strela_dev_ok d \<and> strela_dev_deinit True True (\<lambda>_. good_release) d = Some d' \<and> \<not> dev_initialized d'
    \<and> (\<exists>S. open_run (dev_calls d') no_resources = Some ({7}, S, {}, False))"
proof -
  obtain d bs fs where d: "lib_inv d bs fs" "held slot_fd (dev_jobs d) = {7}" by (rule submitted_device)
  let ?d = "d\<lparr>dev_errnum := 5\<rparr>"
  have i: "lib_inv ?d bs fs" "\<not> strela_dev_ok ?d" using d(1) by simp_all
  obtain d' where r: "strela_dev_deinit True True (\<lambda>_. good_release) ?d = Some d'" "d' = zero_dev (dev_mem ?d) (dev_calls d')"
    "open_run (dev_calls d') no_resources = Some (held slot_fd (dev_jobs ?d), held slot_sync (dev_jobs ?d), {}, False)"
    using deinit_error_leaks[OF i, of "\<lambda>_. good_release"] by blast
  have "\<not> dev_initialized d'" by (subst r(2)) (simp add: zero_dev_def)
  then show ?thesis using r(1,3) d(2) i(2) by (intro exI[of _ ?d] exI[of _ d']) simp
qed

section \<open>Programs that use the library\<close>





text \<open>C33. \<^verbatim>\<open>strela_kernel_alloc\<close> hands out the next free kernel, always one of 128 and never one in use, and
  reports \<^verbatim>\<open>NO_MEM\<close> exactly when none is free.\<close>

theorem strela_kernel_alloc_exact:
  assumes "lib_inv d bs fs" "strela_dev_ok d"
  shows "case fs of
      [] \<Rightarrow> strela_kernel_alloc d = Some (d\<lparr>dev_errnum := - STRELA_ERR_NO_MEM\<rparr>, \<lparr>kernel_valid = False, kernel_handle = 0\<rparr>)
    | i # fs' \<Rightarrow> \<exists>d'. strela_kernel_alloc d = Some (d', \<lparr>kernel_valid = True, kernel_handle = word_of_nat i\<rparr>)
        \<and> i < 128 \<and> i \<notin> set fs' \<and> strela_dev_ok d' \<and> lib_inv d' bs fs'"
  using assms by (rule kernel_alloc_result)

theorem strela_kernel_alloc_exact_witness:
  "\<exists>d d'. lib_reach d \<and> strela_kernel_alloc d = Some (d', \<lparr>kernel_valid = True, kernel_handle = 127\<rparr>) \<and> strela_dev_ok d'"
proof -
  obtain d where d: "lib_reach d" "strela_dev_ok d" "lib_inv d [Free (unat (tensors_bo_map d)) 52428800] (rev [0..<128])" by (rule open_device)
  have "[0..<128] = [0..<127] @ [127]" using upt_Suc_append[of 0 127] by simp
  then have "rev [0..<128] = (127 :: nat) # rev [0..<127]" by simp
  then show ?thesis using strela_kernel_alloc_exact[OF d(3,2)] d(1) by auto
qed

section \<open>Jobs\<close>

lemma execute_done:
  assumes "slots_inv d" "strela_dev_ok d" "slot_of d (backward_compat_job d) submittable = Some i"
    and "js_submit env = 0" "js_close env" "js_export env = Inr fd" "fresh_fd d i fd"
  shows "\<exists>d'. same_mem d d' \<and> strela_execute env Poll_ready (Inr st) ready' info' d = Some (d', if 0 < st then STRELA_JOB_OK else STRELA_JOB_FAILED)
    \<and> strela_dev_ok d' \<and> slots_inv d' \<and> slot_of d' (backward_compat_job d') submittable = Some i
    \<and> slot_phase (dev_jobs d' ! i) = STRELA_JOB_DONE \<and> slot_status (dev_jobs d' ! i) = st \<and> slot_fence_fd (dev_jobs d' ! i) = fd
    \<and> dev_calls d' = dev_calls d @ [Ioctl_submit (slot_submit (dev_jobs d ! i))]
        @ (if slot_phase (dev_jobs d ! i) = STRELA_JOB_DONE then [Fd_closed (slot_fence_fd (dev_jobs d ! i))] else []) @ [Fd_opened fd]"
proof -
  let ?job = "backward_compat_job d"
  have sok: "submit_ok env d ?job" using assms(3,6,7) by (simp add: submit_ok_def)
  obtain d1 b where r: "strela_job_submit env d ?job = Some (d1, b)" using job_submit_total[OF assms(5)] by blast
  have e: "dev_errnum d = 0" using assms(2) by (simp add: strela_dev_ok_def strela_err)
  have d1: "d1 = set_slot i (submit_slot env (dev_jobs d ! i)) (log_calls (submit_calls env (dev_jobs d ! i)) d)"
    using job_submit_result[OF r] assms e by (auto intro!: strela_dev.equality)
  have j: "job_valid ?job" "unat (job_handle ?job) = i" "i < length (dev_jobs d)" using assms(3) by (auto simp: slot_of_def split: if_splits)
  have ok1: "strela_dev_ok d1" using assms(2) by (simp add: d1)
  have so: "slot_of d1 ?job in_driver = Some i" using j by (simp add: slot_of_def d1 submit_slot_def)
  define d2 where "d2 = set_slot i ((dev_jobs d1 ! i)\<lparr>slot_status := st, slot_phase := STRELA_JOB_DONE\<rparr>) d1"
  have w: "strela_job_wait Poll_ready (Inr st) d1 ?job = Some (d2, True)"
    using ok1 so j by (simp add: strela_job_wait_def slot_get_result strela_job_update_def assert_c_def Let_def d2_def d1 submit_slot_def)
  have "poll_ok Poll_ready d1 ?job" using so j assms(6,7) by (simp add: poll_ok_def d1 submit_slot_def fresh_fd_def)
  then have inv: "slots_inv d2" using job_wait_inv[OF w job_submit_inv[OF r assms(1) sok]] by blast
  have so2: "slot_of d2 ?job in_driver = Some i" using j by (simp add: slot_of_def d2_def d1)
  have ok2: "strela_dev_ok d2" using ok1 by (simp add: d2_def)
  have pl: "strela_job_poll ready' info' d2 ?job = Some (d2, if 0 < st then STRELA_JOB_OK else STRELA_JOB_FAILED)"
    using ok2 so2 j by (simp add: strela_job_poll_def slot_get_result strela_job_update_def assert_c_def Let_def d2_def d1)
  have run: "strela_execute env Poll_ready (Inr st) ready' info' d = Some (d2, if 0 < st then STRELA_JOB_OK else STRELA_JOB_FAILED)"
    using r w pl by (simp add: strela_execute_def assert_c_def)
  have "backward_compat_job d2 = ?job" by (simp add: d2_def d1 set_slot_def)
  then have "slot_of d2 (backward_compat_job d2) submittable = Some i" using j by (simp add: slot_of_def d2_def d1)
  moreover have "dev_calls d2 = dev_calls d @ submit_calls env (dev_jobs d ! i)" by (simp add: d2_def d1)
  moreover have "slot_phase (dev_jobs d2 ! i) = STRELA_JOB_DONE" "slot_status (dev_jobs d2 ! i) = st" "slot_fence_fd (dev_jobs d2 ! i) = fd"
    using j assms(6) by (simp_all add: d2_def d1 submit_slot_def)
  moreover have "same_mem d d2" by (simp add: same_mem_def d2_def d1 set_slot_def)
  ultimately show ?thesis using run ok2 inv assms(6) by (intro exI[of _ d2]) (simp add: submit_calls_def)
qed

text \<open>C14. \<^verbatim>\<open>strela_execute\<close> on a job that is configured or done submits the request of its slot once, closes the
  fence of an earlier run, and reports the status of the fence it waited for.  The job is done
  afterwards and can be executed again.\<close>

theorem strela_execute_exact:
  assumes "slots_inv d" "strela_dev_ok d" "slot_of d (backward_compat_job d) submittable = Some i"
    and "js_submit env = 0" "js_close env" "js_export env = Inr fd" "fresh_fd d i fd"
  shows "\<exists>d'. strela_execute env Poll_ready (Inr st) ready' info' d = Some (d', if 0 < st then STRELA_JOB_OK else STRELA_JOB_FAILED)
    \<and> strela_dev_ok d' \<and> slots_inv d' \<and> slot_of d' (backward_compat_job d') submittable = Some i
    \<and> slot_phase (dev_jobs d' ! i) = STRELA_JOB_DONE \<and> slot_status (dev_jobs d' ! i) = st \<and> slot_fence_fd (dev_jobs d' ! i) = fd
    \<and> dev_calls d' = dev_calls d @ [Ioctl_submit (slot_submit (dev_jobs d ! i))]
        @ (if slot_phase (dev_jobs d ! i) = STRELA_JOB_DONE then [Fd_closed (slot_fence_fd (dev_jobs d ! i))] else []) @ [Fd_opened fd]"
  using execute_done[OF assms] by blast

lemma configured_compat:
  obtains d where "slots_inv d" "strela_dev_ok d" "slot_of d (backward_compat_job d) submittable = Some 0" "fresh_fd d 0 7"
    "slot_phase (dev_jobs d ! 0) = STRELA_JOB_CONFIGURED" "backward_compat_job d = first_job"
proof -
  obtain d bs fs where d: "strela_dev_ok d" "lib_inv d bs fs" "dev_fd d = 5"
    "slot_phase (dev_jobs d ! 0) = STRELA_JOB_CONFIGURED" "held slot_fd (dev_jobs d) = {}" by (rule configured_device)
  have l: "0 < length (dev_jobs d)" and si: "slots_inv d" using slots_length[OF d(2)] d(2) by (simp_all add: lib_inv_def)
  have un: "unshared slot_fd (dev_jobs d)" using si by (simp add: slots_inv_def)
  show thesis
    by (rule that[of "d\<lparr>backward_compat_job := first_job\<rparr>"])
       (use d l si held_update[OF un l, of zero_slot] in \<open>simp_all add: slot_of_def first_job_def fresh_fd_def\<close>)
qed

theorem strela_execute_exact_witness:
  "\<exists>d d'. strela_execute good_submit Poll_ready (Inr 1) Poll_timeout (Inr 0) d = Some (d', STRELA_JOB_OK) \<and> strela_dev_ok d'
    \<and> slot_phase (dev_jobs d' ! 0) = STRELA_JOB_DONE"
proof -
  obtain d where d: "slots_inv d" "strela_dev_ok d" "slot_of d (backward_compat_job d) submittable = Some 0" "fresh_fd d 0 7"
    by (rule configured_compat)
  have g: "js_submit good_submit = 0" "js_close good_submit" "js_export good_submit = Inr 7" by (simp_all add: good_submit_def)
  show ?thesis using strela_execute_exact[OF d(1-3) g d(4), of 1 Poll_timeout "Inr 0"] by auto
qed

text \<open>When a job that has run is submitted again and the export of its new fence fails, the slot keeps the
  number of the descriptor that was just closed.  Freeing the job later waits on that number and
  closes it, although it is no longer the library's (by then it may be another file of the process).\<close>

theorem resubmit_keeps_closed_fd:
  assumes inv: "slots_inv d" and ok: "strela_dev_ok d" and so: "slot_of d job submittable = Some i" and dn: "slot_phase (dev_jobs d ! i) = STRELA_JOB_DONE"
    and env: "js_submit env = 0" "js_close env" "js_export env = Inl e" "e \<noteq> 0" and rel: "rel_ok renv"
  shows "\<exists>d1 d2. strela_job_submit env d job = Some (d1, False)
    \<and> slot_fence_fd (dev_jobs d1 ! i) = slot_fence_fd (dev_jobs d ! i) \<and> Fd_closed (slot_fence_fd (dev_jobs d ! i)) \<in> set (dev_calls d1)
    \<and> strela_job_free renv (strela_dev_reset_err d1) job = Some d2 \<and> open_run (dev_calls d1) no_resources \<noteq> None
    \<and> open_run (dev_calls d2) no_resources = None"
proof -
  let ?s = "dev_jobs d ! i"
  let ?fd = "slot_fence_fd ?s"
  have j: "job_valid job" "unat (job_handle job) = i" "i < length (dev_jobs d)" using so by (auto simp: slot_of_def split: if_splits)
  obtain d1 b where r: "strela_job_submit env d job = Some (d1, b)" using job_submit_total[OF env(2)] by blast
  have cs: "submit_calls env ?s = [Ioctl_submit (slot_submit ?s), Fd_closed ?fd]" using dn env(3) by (simp add: submit_calls_def)
  have d1: "d1 = (set_slot i (submit_slot env ?s) (log_calls (submit_calls env ?s) d))\<lparr>dev_errnum := e\<rparr>" "b = strela_dev_ok d1"
    using job_submit_result[OF r] ok so env by simp_all
  then have b: "b = False" using env(4) by simp
  have sok: "slot_ok ?s" by (rule slots_inv_nth(1)[OF inv j(3)])
  then have fd: "?fd \<noteq> - 1" "slot_fd ?s = Some ?fd" using dn by (simp_all add: slot_ok_def slot_fd_def)
  have sy: "slot_sync ?s = Some (sub_out_syncobj (slot_submit ?s))" using dn by (simp add: slot_sync_def)
  let ?F = "insert (dev_fd d) (held slot_fd (dev_jobs d))" and ?S = "held slot_sync (dev_jobs d)"
  have mem: "?fd \<in> ?F" "sub_out_syncobj (slot_submit ?s) \<in> ?S" using slots_inv_nth(2,3)[OF inv j(3)] fd sy by auto
  have run1: "open_run (dev_calls d1) no_resources = Some (?F - {?fd}, ?S, dev_maps d, False)"
    using inv mem cs by (simp add: d1 slots_inv_def)
  have ph: "slot_phase (dev_jobs d1 ! i) = STRELA_JOB_SUBMITTED" "slot_fence_fd (dev_jobs d1 ! i) = ?fd"
    "slot_submit (dev_jobs d1 ! i) = slot_submit ?s" using j(3) env(3) by (simp_all add: d1 submit_slot_def)
  let ?d = "strela_dev_reset_err d1"
  have init: "dev_initialized d1" using ok by (simp add: d1 strela_dev_ok_def)
  then have dd: "dev_jobs ?d = dev_jobs d1" "dev_calls ?d = dev_calls d1" "strela_dev_ok ?d" "dev_initialized ?d" "length (dev_jobs d1) = length (dev_jobs d)"
    by (simp_all add: strela_dev_reset_err_def strela_dev_ok_def d1(1))
  have il: "i < length (dev_jobs ?d)" using dd j(3) by simp
  obtain d2 where f: "strela_job_slot_release renv ?d i = Some d2" using release_total[OF dd(4) rel il] by blast
  have so2: "slot_of ?d job (NOT 0) = Some i" using j dd phase_sets(1) unfolding slot_of_def by (metis (no_types))
  then have fr: "strela_job_free renv ?d job = Some d2" using f dd(3) by (simp add: strela_job_free_def slot_get_result)
  have "dev_calls d2 = dev_calls d1 @ release_calls (dev_jobs d1 ! i)" using release_result[OF f il] ph dd by simp
  then have "open_run (dev_calls d2) no_resources = None"
    using run1 ph(1,2) fd(1) by (simp add: release_calls_def)
  moreover have "Fd_closed ?fd \<in> set (dev_calls d1)" by (simp add: d1 cs)
  ultimately show ?thesis using r b ph(2) fr run1 by (intro exI[of _ d1] exI[of _ d2]) simp
qed

theorem resubmit_keeps_closed_fd_witness:
  "\<exists>d d1 d2. slots_inv d \<and> strela_dev_ok d \<and> strela_job_submit (good_submit\<lparr>js_export := Inl 24\<rparr>) d first_job = Some (d1, False)
    \<and> strela_job_free good_release (strela_dev_reset_err d1) first_job = Some d2 \<and> open_run (dev_calls d2) no_resources = None"
proof -
  obtain d bs fs where d: "strela_dev_ok d" "lib_inv d bs fs" "slot_phase (dev_jobs d ! 0) = STRELA_JOB_SUBMITTED" "slot_fence_fd (dev_jobs d ! 0) = 7"
    by (rule submitted_device)
  have l: "0 < length (dev_jobs d)" and si: "slots_inv d" using slots_length[OF d(2)] d(2) by (simp_all add: lib_inv_def)
  let ?d = "set_slot 0 ((dev_jobs d ! 0)\<lparr>slot_status := 1, slot_phase := STRELA_JOB_DONE\<rparr>) d"
  have so: "slot_of d first_job in_driver = Some 0" using d(3) l by (simp add: slot_of_def first_job_def)
  have w: "strela_job_wait Poll_ready (Inr 1) d first_job = Some (?d, True)"
    using d(1,3) so l by (simp add: strela_job_wait_def slot_get_result strela_job_update_def assert_c_def Let_def)
  have i: "slots_inv ?d" by (rule job_wait_inv[OF w si]) (use so d(4) in \<open>simp add: poll_ok_def\<close>)
  have "strela_dev_ok ?d" "slot_of ?d first_job submittable = Some 0" "slot_phase (dev_jobs ?d ! 0) = STRELA_JOB_DONE"
    using d(1) l by (simp_all add: slot_of_def first_job_def)
  from resubmit_keeps_closed_fd[OF i this, of "good_submit\<lparr>js_export := Inl 24\<rparr>" 24 good_release]
  show ?thesis using i \<open>strela_dev_ok ?d\<close> by (auto simp: good_submit_def)
qed

section \<open>The requests at the driver\<close>

lemma strided_get_fits:
  assumes "env_gem_lookup env (bd_handle src) = Some obj" "binding_fits (unat (gem_size (sd_objs sdev obj))) src"
  shows "strela_strided_binding_get env src dst sdev
    = (emit [Gem_lookup obj] sdev, \<lparr>bnd_obj = Some obj, bnd_offset = bd_offset src, bnd_count = bd_count src\<rparr>, 0)"
  using assms binding_check_iff[of "ucast (gem_size (sd_objs sdev obj))" src] by (simp add: strela_strided_binding_get_def)

text \<open>The object of a handle, and that the binding lies inside it.\<close>

definition binding_ok :: "submit_env \<Rightarrow> (nat \<Rightarrow> gem_obj) \<Rightarrow> drm_strela_strided_binding \<Rightarrow> bool" where
  "binding_ok env objs b = (case env_gem_lookup env (bd_handle b) of None \<Rightarrow> False | Some obj \<Rightarrow> binding_fits (unat (gem_size (objs obj))) b)"

lemma strided_get_ok: "binding_ok env (sd_objs sdev) src \<Longrightarrow> \<exists>cs b. strela_strided_binding_get env src dst sdev = (emit cs sdev, b, 0)"
  using strided_get_fits[of env src] by (fastforce simp: binding_ok_def split: option.splits)

lemma submit_cols_ok:
  assumes "\<forall>i \<in> set is. binding_ok env (sd_objs sdev) (sub_inputs args ! i) \<and> binding_ok env (sd_objs sdev) (unstrided (sub_outputs args ! i))"
  shows "\<exists>cs job'. submit_cols env args is job sdev = (emit cs sdev, job', 0)"
  using assms
proof (induction "is" arbitrary: job sdev)
  case Nil
  show ?case by (intro exI[of _ "[]"] exI[of _ job]) simp
next
  case (Cons i "is")
  have ok: "binding_ok env (sd_objs sdev) (sub_inputs args ! i)" "binding_ok env (sd_objs sdev) (unstrided (sub_outputs args ! i))" using Cons.prems by simp_all
  obtain cs1 b1 where g1: "strela_strided_binding_get env (sub_inputs args ! i) (job_inputs job ! i) sdev = (emit cs1 sdev, b1, 0)"
    using strided_get_ok[OF ok(1)] by blast
  obtain cs2 b2 where g2: "strela_strided_binding_get env (unstrided (sub_outputs args ! i)) (job_outputs job ! i) (emit cs1 sdev) = (emit cs2 (emit cs1 sdev), b2, 0)"
    using strided_get_ok[of env "emit cs1 sdev" "unstrided (sub_outputs args ! i)" "job_outputs job ! i"] ok(2) by auto
  obtain job1 where col: "submit_col env args i job sdev = (emit (cs1 @ cs2) sdev, job1, 0)"
    using g1 g2 by (simp add: submit_col_def strela_binding_get_alt Let_def)
  obtain cs job' where "submit_cols env args is job1 (emit (cs1 @ cs2) sdev) = (emit cs (emit (cs1 @ cs2) sdev), job', 0)"
    using Cons.IH[of "emit (cs1 @ cs2) sdev" job1] Cons.prems by auto
  then show ?case using col by auto
qed

text \<open>The driver accepts a submit without flags whose bindings all fit, and the bindings the library writes.\<close>

lemma submit_accepts:
  assumes env: "env_job env = Some j" "env_fence env = Some f" "env_sched_job_init env = 0"
      "env_syncobj_find env (sub_out_syncobj a) = Some so"
    and fl: "sub_flags a = 0" "sub_pad a = 0"
    and conf: "binding_ok env (sd_objs sdev) (unstrided (sub_config a))"
    and cols: "\<And>n. n < STRELA_NUM_IO_COLS \<Longrightarrow> binding_ok env (sd_objs sdev) (sub_inputs a ! n)
      \<and> binding_ok env (sd_objs sdev) (unstrided (sub_outputs a ! n))"
  shows "snd (strela_submit_ioctl env a sdev) = 0"
proof -
  let ?s = "emit [Sched_job_init j] (emit [Fence_init f (sd_fence_seqno sdev + 1)] (sdev\<lparr>sd_fence_seqno := sd_fence_seqno sdev + 1\<rparr>))"
  have so: "sd_objs ?s = sd_objs sdev" by simp
  obtain cs b where g: "strela_binding_get env (sub_config a) (job_config (zeroed_job f)) ?s = (emit cs ?s, b, 0)"
    using strided_get_ok[of env ?s] conf so unfolding strela_binding_get_alt by metis
  have pre: "\<forall>n \<in> set [0..<STRELA_NUM_IO_COLS]. binding_ok env (sd_objs (emit cs ?s)) (sub_inputs a ! n)
      \<and> binding_ok env (sd_objs (emit cs ?s)) (unstrided (sub_outputs a ! n))" using cols by simp
  obtain cs' job' where c: "submit_cols env a [0..<STRELA_NUM_IO_COLS] ((zeroed_job f)\<lparr>job_config := b\<rparr>) (emit cs ?s) = (emit cs' (emit cs ?s), job', 0)"
    using submit_cols_ok[OF pre] by blast
  have "submit_resolve env a j (zeroed_job f) ?s = (emit [Syncobj_find so] (emit cs' (emit cs ?s)), job', Some so, 0)"
    using g c fl env(4) by (simp add: submit_resolve_def Let_def)
  then show ?thesis using env(1-3) fl by (simp add: strela_submit_ioctl_def Let_def)
qed

lemma conf_submit_bindings:
  assumes "kernel_ok krn" and env: "env_gem_lookup env (kernels_bo_handle d) = Some k" "unat (gem_size (objs k)) = 40960"
      "env_gem_lookup env (tensors_bo_handle d) = Some t" "unat (gem_size (objs t)) = 52428800"
    and cols: "\<And>b. b \<in> set (sub_inputs (conf_submit d krn conf h)) \<union> unstrided ` set (sub_outputs (conf_submit d krn conf h)) \<Longrightarrow> binding_fits 52428800 b"
  shows "binding_ok env objs (unstrided (sub_config (conf_submit d krn conf h)))"
    and "n < STRELA_NUM_IO_COLS \<Longrightarrow> binding_ok env objs (sub_inputs (conf_submit d krn conf h) ! n)
      \<and> binding_ok env objs (unstrided (sub_outputs (conf_submit d krn conf h) ! n))"
proof -
  let ?a = "conf_submit d krn conf h"
  have kh: "unat (kernel_handle krn) < 128" using assms(1) by (simp add: kernel_ok_def word_less_nat_alt)
  have uk: "unat (kernel_handle krn * 80) = unat (kernel_handle krn) * 80" using unat_mult_nowrap[of "kernel_handle krn" 80] kh by simp
  show "binding_ok env objs (unstrided (sub_config ?a))"
    using env(1,2) kh uk by (simp add: binding_ok_def conf_submit_def Let_def unstrided_def STRELA_KERNEL_SIZE_def binding_fits_def)
  have hd: "bd_handle b = tensors_bo_handle d" if "b \<in> set (sub_inputs ?a) \<union> unstrided ` set (sub_outputs ?a)" for b
    using that by (auto simp: conf_submit_def Let_def unstrided_def)
  have tb: "binding_ok env objs b" if "b \<in> set (sub_inputs ?a) \<union> unstrided ` set (sub_outputs ?a)" for b
    using cols[OF that] hd[OF that] env(3,4) by (simp add: binding_ok_def)
  have l4: "length (sub_inputs ?a) = 4" "length (sub_outputs ?a) = 4" by (simp_all add: conf_submit_def Let_def)
  show "binding_ok env objs (sub_inputs ?a ! n) \<and> binding_ok env objs (unstrided (sub_outputs ?a ! n))" if "n < STRELA_NUM_IO_COLS"
    using that l4 by (auto intro!: tb simp: STRELA_NUM_IO_COLS_def)
qed

text \<open>C12. A job that \<^verbatim>\<open>strela_job_config\<close> accepts, for a kernel of the library and columns that fit the tensor
  memory and the size registers, is a request that the driver's \<^verbatim>\<open>strela_submit_ioctl\<close> accepts: the kernel always lies
  inside the kernel object.\<close>

theorem configured_job_accepted:
  assumes cfg: "strela_job_config renv create d krn conf = Some (d', job)" "job_valid job" and ok: "strela_dev_ok d" "create_ok create d"
    and len: "length (dev_jobs d) = STRELA_JOBS_MAX"
    and env: "env_job env = Some j" "env_fence env = Some f" "env_sched_job_init env = 0"
      "\<And>h. create = Inr h \<Longrightarrow> env_syncobj_find env h = Some so"
      "env_gem_lookup env (kernels_bo_handle d) = Some k" "unat (gem_size (sd_objs sdev k)) = 40960"
      "env_gem_lookup env (tensors_bo_handle d) = Some t" "unat (gem_size (sd_objs sdev t)) = 52428800"
    and cols: "\<And>h b. b \<in> set (sub_inputs (conf_submit d krn conf h)) \<union> unstrided ` set (sub_outputs (conf_submit d krn conf h)) \<Longrightarrow> binding_fits 52428800 b"
  shows "snd (strela_submit_ioctl env (slot_submit (dev_jobs d' ! unat (job_handle job))) sdev) = 0"
proof -
  obtain i h where i: "find_free_slot 0 (dev_jobs d) = Some i" "create = Inr h" "kernel_ok krn" "job_handle job = word_of_nat i"
    and d': "d' = set_slot i ((dev_jobs d ! i)\<lparr>slot_phase := STRELA_JOB_CONFIGURED, slot_fence_fd := - 1,
              slot_submit := conf_submit d krn conf h\<rparr>) (log_calls [Syncobj_created h] d)"
    using cfg unfolding job_config_result[OF ok] by (auto simp: Let_def split: if_splits option.splits sum.splits)
  have il: "i < 16" "i < length (dev_jobs d)" using find_free_slot_spec[OF i(1)] len by (simp_all add: STRELA_JOBS_MAX_def)
  then have ui: "unat (job_handle job) = i" unfolding i(4) by (simp add: unsigned_of_nat take_bit_nat_eq_self)
  let ?a = "conf_submit d krn conf h"
  have sub: "slot_submit (dev_jobs d' ! unat (job_handle job)) = ?a" using il(2) by (simp add: ui d')
  have fl: "sub_flags ?a = 0" "sub_pad ?a = 0" "sub_out_syncobj ?a = h" by (simp_all add: conf_submit_def Let_def)
  note bs = conf_submit_bindings[OF i(3) env(5-8) cols]
  show ?thesis unfolding sub using env(4)[OF i(2)] fl bs by (intro submit_accepts[OF env(1-3)]) auto
qed

definition system_env :: submit_env where
  "system_env = \<lparr>env_job = Some 1, env_fence = Some 2, env_sched_job_init = 0, env_add_dependency = 0,
     env_gem_lookup = (\<lambda>h. if h = 1 then Some 7 else if h = 2 then Some 8 else None), env_syncobj_find = (\<lambda>h. if h = 9 then Some 3 else None)\<rparr>"

definition system_device :: strela_device where
  "system_device = (idle_device True)\<lparr>sd_objs := (\<lambda>x. \<lparr>gem_size = (if x = 7 then 40960 else 52428800), gem_dma_addr = 0, gem_vaddr = None\<rparr>)\<rparr>"

definition copy_conf :: strela_conf where
  "copy_conf = no_conf\<lparr>inp0_offset := 16, inp0_count := 64, inp0_stride := 1, out0_offset := 128, out0_count := 64\<rparr>"

theorem configured_job_accepted_witness:
  "\<exists>m fl d'. strela_job_config good_release (Inr 9) ((sample_dev m fl)\<lparr>dev_jobs := replicate 16 zero_slot\<rparr>) first_kernel copy_conf = Some (d', first_job)
    \<and> snd (strela_submit_ioctl system_env (slot_submit (dev_jobs d' ! 0)) system_device) = 0"
proof -
  obtain m fl where s: "strela_dev_ok (sample_dev m fl)" by (rule sample_empty)
  let ?d = "(sample_dev m fl)\<lparr>dev_jobs := replicate 16 zero_slot\<rparr>"
  have ok: "strela_dev_ok ?d" "create_ok (Inr 9) ?d" "length (dev_jobs ?d) = STRELA_JOBS_MAX"
    using s by (simp_all add: create_ok_def fresh_sync_def held_replicate STRELA_JOBS_MAX_def)
  have "find_free_slot 0 (dev_jobs ?d) = Some 0" by (rule free_first) (auto simp: zero_slot_def)
  then obtain d' where c: "strela_job_config good_release (Inr 9) ?d first_kernel copy_conf = Some (d', first_job)"
    by (simp add: job_config_result[OF ok(1,2)] kernel_ok_def first_kernel_def first_job_def)
  have "snd (strela_submit_ioctl system_env (slot_submit (dev_jobs d' ! unat (job_handle first_job))) system_device) = 0"
    by (rule configured_job_accepted[OF c _ ok, where j = 1 and f = 2 and k = 7 and t = 8 and so = 3])
       (auto simp: first_job_def system_env_def system_device_def sample_dev_def conf_submit_def Let_def copy_conf_def no_conf_def unstrided_def binding_fits_def)
  then show ?thesis using c by (auto simp: first_job_def)
qed

end
