(* ===== verification/System.thy ===== *)
theory System
  imports Shared LibProps MachineProps
begin

text \<open>
  The library and the driver together: a job that \<^verbatim>\<open>strela_config\<close> builds and \<^verbatim>\<open>strela_execute\<close> runs goes through the
  driver's submit, the scheduler's run callback and the worker of a simulated device, and the answers
  of the kernel to the library are what the driver computed.
\<close>

section \<open>The driver's part\<close>

text \<open>
  An idle simulated device takes a submit: the ioctl, and if it succeeds the scheduler runs the job and
  the worker comes to rest; a job that has signalled is handed over to be freed.
\<close>

definition driver_execute :: "submit_env \<Rightarrow> drm_strela_submit \<Rightarrow> machine \<Rightarrow> (machine \<times> int \<times> bool) option" where
  "driver_execute env args m =
     (let (d, ret) = strela_submit_ioctl env args (m_dev m); j = the (env_job env) in
      if ret \<noteq> 0 then Some (m\<lparr>m_dev := d\<rparr>, ret, False)
      else do {
        (d, f) \<leftarrow> strela_run_job j d;
        (d, pc) \<leftarrow> sim_worker 12 Sim_queued d;
        Some (if signaled d f then (m\<lparr>m_dev := d, m_sim := pc, m_done := m_done m @ [j]\<rparr>, 0, True)
              else (m\<lparr>m_dev := d, m_sim := pc, m_run := Some j\<rparr>, 0, False))
      })"

definition idle_sim :: "machine \<Rightarrow> bool" where
  "idle_sim m \<longleftrightarrow> reachable m \<and> sd_is_sim (m_dev m) \<and> m_run m = None \<and> m_tdr m = Tdr_idle \<and> m_queue m = []"

lemma sim_worker_steps:
  "sim_worker n pc d = Some (d', pc') \<Longrightarrow> machine_step\<^sup>*\<^sup>* (m\<lparr>m_dev := d, m_sim := pc\<rparr>) (m\<lparr>m_dev := d', m_sim := pc'\<rparr>)"
proof (induction n arbitrary: pc d)
  case (Suc n)
  obtain d1 pc1 where w: "strela_sim_work pc d = Some (d1, pc1)" "sim_worker n pc1 d1 = Some (d', pc')"
    using Suc.prems by (auto split: bind_splits)
  have "machine_step (m\<lparr>m_dev := d, m_sim := pc\<rparr>) (m\<lparr>m_dev := d1, m_sim := pc1\<rparr>)"
    using machine_step.sim[of "m\<lparr>m_dev := d, m_sim := pc\<rparr>" d1 pc1] w(1) by simp
  then show ?case using Suc.IH[OF w(2)] by (rule converse_rtranclp_into_rtranclp)
qed simp

text \<open>The submitted job is accepted, runs, signals and leaves the device idle again.\<close>

lemma driver_executes:
  assumes idle: "idle_sim m" and fresh: "fresh_alloc env (m_dev m)" and j: "env_job env = Some j"
    and sub: "strela_submit_ioctl env args (m_dev m) = (d1, 0)"
    and fed: "\<And>i. i < STRELA_NUM_IO_COLS \<Longrightarrow> bd_count (sub_outputs args ! i) \<le> bd_count (sub_inputs args ! i)"
  obtains m' job where "driver_execute env args m = Some (m', 0, True)" "idle_sim m'" "m_done m' = m_done m @ [j]"
    "job_bound env (sd_objs (m_dev m)) args job"
    "columns_independent job \<Longrightarrow> copied job STRELA_NUM_IO_COLS (sd_objs (m_dev m)) (sd_objs (m_dev m'))"
    "same_objs (sd_objs (m_dev m)) (sd_objs (m_dev m'))"
proof -
  have r: "reachable m" "sd_is_sim (m_dev m)" "m_run m = None" "m_tdr m = Tdr_idle" "m_queue m = []" using idle by (simp_all add: idle_sim_def)
  let ?m1 = "m\<lparr>m_dev := d1, m_queue := [j]\<rparr>"
  have r1: "reachable ?m1" 
  proof -
    have "?m1 = m\<lparr>m_dev := d1, m_queue := m_queue m @ [j], m_client := (m_client m)(j := m_client m j)\<rparr>"
      by (rule machine.equality) (simp_all add: r(5))
    then show ?thesis using step_submit[OF fresh sub j, of "m_client m j"] r(1) reachable.step by metis
  qed
  note inv = reachable_inv[OF r1]
  obtain job where job: "sd_jobs d1 j = Some job" "job_bound env (sd_objs (m_dev m)) args job" and same: "sd_objs d1 = sd_objs (m_dev m)" "sd_is_sim d1"
    using submit_success_job[OF sub j] r(2) by auto
  have none: "sd_active d1 = None" using inv_no_run[OF inv] r(3) by simp
  obtain d2 f where run: "strela_run_job j d1 = Some (d2, f)"
    by (rule inv_run[OF inv, of "[]" j "[]"]) (use r(3,4) in simp_all)
  have st: "job_ok (sd_objs d1) job" "\<forall>x. gem_ok (sd_objs d1 x)" using inv_facts(1)[OF inv] job(1) by (auto simp: static_inv_def)
  have ns: "\<not> signaled d1 (job_hw_fence job)" using inv_unsignaled[OF inv, of j job] job(1) by simp
  have fed': "\<forall>i < STRELA_NUM_IO_COLS. bnd_count (job_outputs job ! i) \<le> bnd_count (job_inputs job ! i)"
    using job(2) fed by (auto simp: job_bound_def col_bound_def bound_def unstrided_def)
  obtain d3 where d3: "f = job_hw_fence job" "sim_worker 12 Sim_queued d2 = Some (d3, Sim_idle)"
    "sd_jobs d3 j = Some (job\<lparr>job_phase := STRELA_JOB_PHASE_EXEC\<rparr>)" "signaled d3 f" "sd_is_sim d3" "same_objs (sd_objs d1) (sd_objs d3)"
    "columns_independent job \<Longrightarrow> copied job STRELA_NUM_IO_COLS (sd_objs d1) (sd_objs d3)"
    using sim_run_settles[OF run same(2) none job(1) st ns] unfolding if_P[OF fed'] by metis
  let ?m2 = "m\<lparr>m_dev := d2, m_run := Some j, m_queue := [], m_sim := Sim_queued\<rparr>"
  let ?m' = "m\<lparr>m_dev := d3, m_sim := Sim_idle, m_done := m_done m @ [j]\<rparr>"
  have sim: "sd_is_sim d2" by (rule run_job_sim[OF run same(2) none]) (use same(2) in simp)
  have "machine_step ?m1 ?m2" using step_run[of ?m1 j "[]" d2 f] r(3,4,5) run sim by simp
  moreover have "machine_step\<^sup>*\<^sup>* ?m2 (?m2\<lparr>m_dev := d3, m_sim := Sim_idle\<rparr>)"
  proof -
    have "?m2\<lparr>m_dev := d2, m_sim := Sim_queued\<rparr> = ?m2" by (rule machine.equality) simp_all
    then show ?thesis using sim_worker_steps[OF d3(2), of ?m2] by (simp only:)
  qed
  moreover have "machine_step (?m2\<lparr>m_dev := d3, m_sim := Sim_idle\<rparr>) ?m'"
  proof -
    have "?m' = ?m2\<lparr>m_dev := d3, m_sim := Sim_idle, m_run := None, m_done := m_done m @ [j]\<rparr>"
      by (rule machine.equality) (simp_all add: r)
    then show ?thesis using machine_step.complete[of "?m2\<lparr>m_dev := d3, m_sim := Sim_idle\<rparr>" j] d3(1,3,4) r(4) by simp
  qed
  ultimately have "reachable ?m'" using r1 reachable_steps by (meson rtranclp.rtrancl_into_rtrancl converse_rtranclp_into_rtranclp)
  moreover have "driver_execute env args m = Some (?m', 0, True)"
    using sub j run d3(2,4) by (simp add: driver_execute_def)
  ultimately show thesis using that[of ?m' job] job(2) d3(5-7) same(1) r by (simp add: idle_sim_def)
qed

section \<open>A request on one object\<close>

text \<open>
  The words of a request, by column: output word \<open>k\<close> of column \<open>i\<close> and the input word it is copied from.  All
  columns of the library lie in one object.
\<close>

definition in_word :: "drm_strela_submit \<Rightarrow> nat \<Rightarrow> nat \<Rightarrow> nat" where
  "in_word a i k = unat (bd_offset (sub_inputs a ! i)) + k * unat (bd_stride (sub_inputs a ! i))"

definition out_word :: "drm_strela_submit \<Rightarrow> nat \<Rightarrow> nat \<Rightarrow> nat" where
  "out_word a i k = unat (bd_offset (sub_outputs a ! i)) + k"

definition out_len :: "drm_strela_submit \<Rightarrow> nat \<Rightarrow> nat" where
  "out_len a i = unat (bd_count (sub_outputs a ! i))"

text \<open>No word is read or written after the request itself has written it.\<close>

definition submit_independent :: "drm_strela_submit \<Rightarrow> bool" where
  "submit_independent a \<longleftrightarrow> (\<forall>i < STRELA_NUM_IO_COLS. \<forall>k < out_len a i.
     (\<forall>l < k. in_word a i k \<noteq> out_word a i l)
     \<and> (\<forall>j < i. \<forall>l < out_len a j. out_word a j l \<noteq> out_word a i k \<and> out_word a j l \<noteq> in_word a i k))"

definition submit_fed :: "drm_strela_submit \<Rightarrow> bool" where
  "submit_fed a \<longleftrightarrow> (\<forall>i < STRELA_NUM_IO_COLS. bd_count (sub_outputs a ! i) \<le> bd_count (sub_inputs a ! i))"

definition one_object :: "submit_env \<Rightarrow> drm_strela_submit \<Rightarrow> nat \<Rightarrow> bool" where
  "one_object env a t \<longleftrightarrow> (\<forall>i < STRELA_NUM_IO_COLS. env_gem_lookup env (bd_handle (sub_inputs a ! i)) = Some t
     \<and> env_gem_lookup env (bd_handle (sub_outputs a ! i)) = Some t)"

lemma bound_column:
  assumes "job_bound env objs a job" "one_object env a t" "submit_fed a" "i < STRELA_NUM_IO_COLS"
  shows "writes job i z k \<longleftrightarrow> z = t \<and> (\<exists>l < out_len a i. k = out_word a i l)"
    "reads job i z k \<longleftrightarrow> z = t \<and> (\<exists>l < out_len a i. k = in_word a i l)"
    "source job i objs0 (out_word a i l) = obj_word objs0 t (in_word a i l)"
    "col_ordered (job_inputs job ! i) (job_input_strides job ! i) (job_outputs job ! i) \<longleftrightarrow>
       (\<forall>k < out_len a i. \<forall>l < k. in_word a i k \<noteq> out_word a i l)"
proof -
  have c: "job_inputs job ! i = \<lparr>bnd_obj = Some t, bnd_offset = bd_offset (sub_inputs a ! i), bnd_count = bd_count (sub_inputs a ! i)\<rparr>"
    "job_outputs job ! i = \<lparr>bnd_obj = Some t, bnd_offset = bd_offset (sub_outputs a ! i), bnd_count = bd_count (sub_outputs a ! i)\<rparr>"
    "job_input_strides job ! i = bd_stride (sub_inputs a ! i)"
    using assms(1,2,4) by (auto simp: job_bound_def col_bound_def bound_def unstrided_def one_object_def)
  have "unat (bd_count (sub_outputs a ! i)) \<le> unat (bd_count (sub_inputs a ! i))"
    using assms(3,4) by (simp add: submit_fed_def word_le_nat_alt)
  then have n: "col_len (job_inputs job ! i) (job_outputs job ! i) = out_len a i" by (simp add: c col_len_def out_len_def)
  have "(\<exists>l < out_len a i. k = out_word a i l) \<longleftrightarrow> unat (bd_offset (sub_outputs a ! i)) \<le> k \<and> k < unat (bd_offset (sub_outputs a ! i)) + out_len a i"
    by (auto simp: out_word_def intro: exI[of _ "k - unat (bd_offset (sub_outputs a ! i))"])
  then show "writes job i z k \<longleftrightarrow> z = t \<and> (\<exists>l < out_len a i. k = out_word a i l)"
    using n by (auto simp: writes_def col_writes_def c)
  show "reads job i z k \<longleftrightarrow> z = t \<and> (\<exists>l < out_len a i. k = in_word a i l)"
    using n by (auto simp: reads_def c in_word_def)
  show "source job i objs0 (out_word a i l) = obj_word objs0 t (in_word a i l)"
    by (simp add: source_def col_source_def c in_word_def out_word_def)
  show "col_ordered (job_inputs job ! i) (job_input_strides job ! i) (job_outputs job ! i) \<longleftrightarrow>
       (\<forall>k < out_len a i. \<forall>l < k. in_word a i k \<noteq> out_word a i l)"
    unfolding col_ordered_def n by (auto simp: c in_word_def out_word_def)
qed

lemma submit_copies:
  assumes b: "job_bound env objs a job" "one_object env a t" "submit_fed a" and ind: "submit_independent a"
    and cp: "columns_independent job \<Longrightarrow> copied job STRELA_NUM_IO_COLS objs objs'"
  shows "i < STRELA_NUM_IO_COLS \<Longrightarrow> k < out_len a i \<Longrightarrow> obj_word objs' t (out_word a i k) = obj_word objs t (in_word a i k)"
    "(\<And>i k. i < STRELA_NUM_IO_COLS \<Longrightarrow> k < out_len a i \<Longrightarrow> n \<noteq> out_word a i k) \<Longrightarrow> obj_word objs' t n = obj_word objs t n"
proof -
  note col = bound_column[OF b]
  have "columns_independent job" unfolding columns_independent_def
  proof (intro allI impI conjI)
    fix i assume i: "i < STRELA_NUM_IO_COLS"
    show "col_ordered (job_inputs job ! i) (job_input_strides job ! i) (job_outputs job ! i)"
      using ind i by (simp add: col(4)[OF i] submit_independent_def)
    fix j z k assume j: "j < i" "writes job j z k"
    have "j < STRELA_NUM_IO_COLS" using i j(1) by simp
    then obtain l where l: "l < out_len a j" "k = out_word a j l" using j(2) col(1) by blast
    show "\<not> writes job i z k" "\<not> reads job i z k" using ind i j(1) l by (auto simp: col(1,2)[OF i] submit_independent_def)
  qed
  note cp' = cp[OF this, unfolded copied_def]
  show "obj_word objs' t (out_word a i k) = obj_word objs t (in_word a i k)" if "i < STRELA_NUM_IO_COLS" "k < out_len a i"
    using cp' that col(1,3)[OF that(1)] by metis
  show "obj_word objs' t n = obj_word objs t n" if "\<And>i k. i < STRELA_NUM_IO_COLS \<Longrightarrow> k < out_len a i \<Longrightarrow> n \<noteq> out_word a i k"
    using cp' that col(1) by metis
qed

section \<open>The library's part\<close>

lemma config_ready:
  assumes cfg: "strela_config renv renv' (Inr h) d0 krn conf = Some d" and ok: "strela_dev_ok d" and env: "rel_ok renv" and inv: "slots_inv d0"
    and create: "\<And>d1. (if job_valid (backward_compat_job d0) then strela_job_free renv d0 (backward_compat_job d0) else Some d0) = Some d1
       \<Longrightarrow> create_ok (Inr h) d1"
  obtains i where "slot_of d (backward_compat_job d) submittable = Some i" "slot_submit (dev_jobs d ! i) = conf_submit d krn conf h"
    "slot_phase (dev_jobs d ! i) = STRELA_JOB_CONFIGURED" "kernel_ok krn" "unat (job_handle (backward_compat_job d)) = i"
proof -
  obtain d1 where d1: "(if job_valid (backward_compat_job d0) then strela_job_free renv d0 (backward_compat_job d0) else Some d0) = Some d1" "same_mem d0 d1"
    using job_free_total[OF env, of d0 "backward_compat_job d0"] by (cases "job_valid (backward_compat_job d0)") auto
  have s1: "slots_inv d1" using d1(1) inv job_free_inv by (auto split: if_splits)
  obtain d2 job where d2: "strela_job_config renv' (Inr h) d1 krn conf = Some (d2, job)" "d = d2\<lparr>backward_compat_job := job\<rparr>"
    using cfg d1(1) by (auto simp: strela_config_def split: bind_splits if_splits)
  have ok1: "strela_dev_ok d1"
  proof (rule ccontr)
    assume "\<not> strela_dev_ok d1"
    then have "d2 = d1" using d2(1) by (simp add: strela_job_config_def Let_def)
    then show False using ok d2(2) \<open>\<not> strela_dev_ok d1\<close> by (simp add: strela_dev_ok_def)
  qed
  have ok2: "strela_dev_ok d2" using ok d2(2) by (simp add: strela_dev_ok_def)
  obtain i where i: "find_free_slot 0 (dev_jobs d1) = Some i" "kernel_ok krn" "job = \<lparr>job_valid = True, job_handle = word_of_nat i\<rparr>"
    and e: "d2 = set_slot i ((dev_jobs d1 ! i)\<lparr>slot_phase := STRELA_JOB_CONFIGURED, slot_fence_fd := - 1,
              slot_submit := conf_submit d1 krn conf h\<rparr>) (log_calls [Syncobj_created h] d1)"
    using d2(1) ok2 unfolding job_config_result[OF ok1 create[OF d1(1)]]
    by (auto simp: Let_def strela_err strela_dev_ok_def split: if_splits option.splits)
  have il: "i < 16" "i < length (dev_jobs d1)" using find_free_slot_spec[OF i(1)] s1 by (simp_all add: slots_inv_def STRELA_JOBS_MAX_def)
  have ui: "unat (word_of_nat i :: u32) = i" using il(1) by (intro unat_of_nat_32) simp
  have "conf_submit d1 krn conf h = conf_submit d krn conf h" by (simp add: d2(2) e conf_submit_def set_slot_def)
  then show thesis using that[of i] i il ui by (simp add: d2(2) e slot_of_def)
qed

section \<open>The two together\<close>

text \<open>
  \<^verbatim>\<open>strela_execute\<close> with the answers of the driver: the submit returns what the ioctl returned, the fence
  signals when the worker has signalled it, and then the mapping of the tensor object shows its words.
\<close>

definition system_execute ::
  "submit_env \<Rightarrow> int \<Rightarrow> strela_dev \<Rightarrow> machine \<Rightarrow> (strela_dev \<times> machine \<times> strela_job_state) option" where
  "system_execute env fd d m = do {
     (m, ret, finished) \<leftarrow> driver_execute env (slot_submit (dev_jobs d ! unat (job_handle (backward_compat_job d)))) m;
     let ready = (if finished then Poll_ready else Poll_timeout);
     (d, state) \<leftarrow> strela_execute \<lparr>js_submit = - ret, js_close = True, js_export = Inr fd\<rparr> ready (Inr 1) ready (Inr 1) d;
     let t = the (env_gem_lookup env (tensors_bo_handle d));
     Some (d\<lparr>dev_mem := object_view (dev_mem d) (tensors_bo_map d) 13107200 (obj_word (sd_objs (m_dev m)) t)\<rparr>, m, state)
   }"

text \<open>The client's handles name the two objects of the driver, and the mapping shows the tensor object \<open>t\<close>.\<close>

definition attached :: "submit_env \<Rightarrow> strela_dev \<Rightarrow> strela_device \<Rightarrow> nat \<Rightarrow> nat \<Rightarrow> bool" where
  "attached env d sdev k t \<longleftrightarrow> env_gem_lookup env (kernels_bo_handle d) = Some k \<and> unat (gem_size (sd_objs sdev k)) = 40960
     \<and> env_gem_lookup env (tensors_bo_handle d) = Some t \<and> unat (gem_size (sd_objs sdev t)) = 52428800
     \<and> mapped (dev_mem d) (tensors_bo_map d) 13107200 (obj_word (sd_objs sdev) t)"

text \<open>The allocations of a submit succeed and the sync object is known.\<close>

definition grants :: "submit_env \<Rightarrow> strela_device \<Rightarrow> u32 \<Rightarrow> bool" where
  "grants env sdev h \<longleftrightarrow> env_job env \<noteq> None \<and> env_fence env \<noteq> None \<and> env_sched_job_init env = 0 \<and> fresh_alloc env sdev
     \<and> env_syncobj_find env h \<noteq> None"

text \<open>What a request may name: ranges inside the tensor memory, outputs inside buffers in use.\<close>

definition request_ok :: "strela_dev \<Rightarrow> layout \<Rightarrow> drm_strela_submit \<Rightarrow> bool" where
  "request_ok d bs a \<longleftrightarrow> submit_fed a \<and> submit_independent a
     \<and> (\<forall>b \<in> set (sub_inputs a) \<union> unstrided ` set (sub_outputs a). binding_fits 52428800 b)
     \<and> (\<forall>i < STRELA_NUM_IO_COLS. out_len a i \<noteq> 0 \<longrightarrow> (\<exists>b \<in> useds bs.
          {unat (tensors_bo_map d) + out_word a i 0 * 4..<unat (tensors_bo_map d) + out_word a i (out_len a i) * 4} \<subseteq> payload b))"

definition out_bytes :: "strela_dev \<Rightarrow> drm_strela_submit \<Rightarrow> nat set" where
  "out_bytes d a = (\<Union>i \<in> {..<STRELA_NUM_IO_COLS}. \<Union>k \<in> {..<out_len a i}.
     {unat (tensors_bo_map d) + out_word a i k * 4..<unat (tensors_bo_map d) + out_word a i k * 4 + 4})"

lemma out_bytes_owned:
  assumes "request_ok d bs a"
  shows "out_bytes d a \<subseteq> \<Union> (payload ` useds bs)"
proof
  fix x assume "x \<in> out_bytes d a"
  then obtain i k where i: "i < STRELA_NUM_IO_COLS" "k < out_len a i"
    and x: "unat (tensors_bo_map d) + out_word a i k * 4 \<le> x" "x < unat (tensors_bo_map d) + out_word a i k * 4 + 4"
    by (auto simp: out_bytes_def)
  obtain b where b: "b \<in> useds bs"
    "{unat (tensors_bo_map d) + out_word a i 0 * 4..<unat (tensors_bo_map d) + out_word a i (out_len a i) * 4} \<subseteq> payload b"
    using assms i by (auto simp: request_ok_def)
  have "x \<in> {unat (tensors_bo_map d) + out_word a i 0 * 4..<unat (tensors_bo_map d) + out_word a i (out_len a i) * 4}"
    using x i(2) by (simp add: out_word_def)
  then show "x \<in> \<Union> (payload ` useds bs)" using b by blast
qed

text \<open>What the client's memory shows after the device has run an accepted request.\<close>

lemma view_after_copy:
  assumes inv: "lib_inv d bs fs" and at: "mapped (dev_mem d) (tensors_bo_map d) 13107200 (obj_word objs t)" and rq: "request_ok d bs a"
    and cp: "\<And>i k. i < STRELA_NUM_IO_COLS \<Longrightarrow> k < out_len a i \<Longrightarrow> obj_word objs' t (out_word a i k) = obj_word objs t (in_word a i k)"
      "\<And>n. (\<And>i k. i < STRELA_NUM_IO_COLS \<Longrightarrow> k < out_len a i \<Longrightarrow> n \<noteq> out_word a i k) \<Longrightarrow> obj_word objs' t n = obj_word objs t n"
    and one: "\<And>i. i < STRELA_NUM_IO_COLS \<Longrightarrow> bd_count (sub_outputs a ! i) \<le> bd_count (sub_inputs a ! i)"
    and len: "length (sub_inputs a) = STRELA_NUM_IO_COLS" "length (sub_outputs a) = STRELA_NUM_IO_COLS"
  defines "m' \<equiv> object_view (dev_mem d) (tensors_bo_map d) 13107200 (obj_word objs' t)"
  shows "mapped m' (tensors_bo_map d) 13107200 (obj_word objs' t)" "changed_only (dev_mem d) m' (out_bytes d a)"
    "i < STRELA_NUM_IO_COLS \<Longrightarrow> k < out_len a i \<Longrightarrow>
       load32 m' (word_addr (tensors_bo_map d) (out_word a i k)) = load32 (dev_mem d) (word_addr (tensors_bo_map d) (in_word a i k))"
proof -
  let ?K = "{n. \<exists>i < STRELA_NUM_IO_COLS. \<exists>k < out_len a i. n = out_word a i k}"
  have "unat (tensors_bo_map d) + 52428800 \<le> 4294967296" using lib_inv_geometry[OF inv] by (simp add: geometry_def)
  then have b: "unat (tensors_bo_map d) + 13107200 * 4 \<le> 4294967296" by simp
  show mp: "mapped m' (tensors_bo_map d) 13107200 (obj_word objs' t)" unfolding m'_def by (rule object_view_mapped[OF b])
  have "(\<Union>n \<in> ?K. {unat (tensors_bo_map d) + n * 4..<unat (tensors_bo_map d) + n * 4 + 4}) = out_bytes d a"
    by (auto simp: out_bytes_def)
  then show "changed_only (dev_mem d) m' (out_bytes d a)"
    using object_view_changed[OF b at, of ?K "obj_word objs' t"] cp(2) unfolding m'_def by fastforce
  assume i: "i < STRELA_NUM_IO_COLS" "k < out_len a i"
  have f: "binding_fits 52428800 (sub_inputs a ! i)" "binding_fits 52428800 (unstrided (sub_outputs a ! i))"
    using rq i(1) len by (auto simp: request_ok_def)
  have ki: "k < unat (bd_count (sub_inputs a ! i))" "k < unat (bd_count (unstrided (sub_outputs a ! i)))"
    using i(2) one[OF i(1)] by (simp_all add: out_len_def word_le_nat_alt unstrided_def)
  have "in_word a i k < 13107200" "out_word a i k < 13107200"
    using binding_fits_words[OF f(1) ki(1)] binding_fits_words[OF f(2) ki(2)] by (simp_all add: in_word_def out_word_def unstrided_def)
  then show "load32 m' (word_addr (tensors_bo_map d) (out_word a i k)) = load32 (dev_mem d) (word_addr (tensors_bo_map d) (in_word a i k))"
    using mp at cp(1)[OF i] by (simp add: mapped_def)
qed

lemma conf_submit_shape:
  "length (sub_inputs (conf_submit d krn conf h)) = STRELA_NUM_IO_COLS" "length (sub_outputs (conf_submit d krn conf h)) = STRELA_NUM_IO_COLS"
  "sub_flags (conf_submit d krn conf h) = 0" "sub_pad (conf_submit d krn conf h) = 0" "sub_out_syncobj (conf_submit d krn conf h) = h"
  by (simp_all add: conf_submit_def Let_def STRELA_NUM_IO_COLS_def)

lemma conf_submit_one_object:
  assumes "env_gem_lookup env (tensors_bo_handle d) = Some t"
  shows "one_object env (conf_submit d krn conf h) t"
proof -
  have "bd_handle b = tensors_bo_handle d" if "b \<in> set (sub_inputs (conf_submit d krn conf h))" for b
    using that by (auto simp: conf_submit_def Let_def)
  moreover have "bd_handle b = tensors_bo_handle d" if "b \<in> set (sub_outputs (conf_submit d krn conf h))" for b
    using that by (auto simp: conf_submit_def Let_def)
  ultimately show ?thesis using assms conf_submit_shape(1,2)[of d krn conf h] by (simp add: one_object_def)
qed

text \<open>The driver runs the job of the slot, and the tensor object holds the copies.\<close>

lemma driver_runs_conf:
  assumes idle: "idle_sim m" and g: "grants env (m_dev m) h" and at: "attached env d (m_dev m) k t" and krn: "kernel_ok krn"
    and rq: "request_ok d bs (conf_submit d krn conf h)"
  defines "a \<equiv> conf_submit d krn conf h"
  obtains m' where "driver_execute env a m = Some (m', 0, True)" "idle_sim m'" "same_objs (sd_objs (m_dev m)) (sd_objs (m_dev m'))"
    "\<And>i l. i < STRELA_NUM_IO_COLS \<Longrightarrow> l < out_len a i \<Longrightarrow>
       obj_word (sd_objs (m_dev m')) t (out_word a i l) = obj_word (sd_objs (m_dev m)) t (in_word a i l)"
    "\<And>n. (\<And>i l. i < STRELA_NUM_IO_COLS \<Longrightarrow> l < out_len a i \<Longrightarrow> n \<noteq> out_word a i l) \<Longrightarrow>
       obj_word (sd_objs (m_dev m')) t n = obj_word (sd_objs (m_dev m)) t n"
proof -
  obtain j f so where e: "env_job env = Some j" "env_fence env = Some f" "env_sched_job_init env = 0" "fresh_alloc env (m_dev m)"
    "env_syncobj_find env h = Some so" using g by (auto simp: grants_def)
  have lk: "env_gem_lookup env (kernels_bo_handle d) = Some k" "unat (gem_size (sd_objs (m_dev m) k)) = 40960"
    "env_gem_lookup env (tensors_bo_handle d) = Some t" "unat (gem_size (sd_objs (m_dev m) t)) = 52428800" using at by (simp_all add: attached_def)
  note bs = conf_submit_bindings[OF krn lk, of conf h, folded a_def]
  have r: "submit_fed a" "submit_independent a" "\<And>b. b \<in> set (sub_inputs a) \<union> unstrided ` set (sub_outputs a) \<Longrightarrow> binding_fits 52428800 b"
    using rq by (auto simp: request_ok_def a_def)
  have "snd (strela_submit_ioctl env a (m_dev m)) = 0"
    by (rule submit_accepts[OF e(1-3)]) (use e(5) bs r(3) conf_submit_shape[of d krn conf h] in \<open>auto simp: a_def\<close>)
  then obtain d1 where sub: "strela_submit_ioctl env a (m_dev m) = (d1, 0)" by (metis prod.collapse)
  have fed: "bd_count (sub_outputs a ! i) \<le> bd_count (sub_inputs a ! i)" if "i < STRELA_NUM_IO_COLS" for i
    using r(1) that by (simp add: submit_fed_def)
  obtain m' job where m': "driver_execute env a m = Some (m', 0, True)" "idle_sim m'" "job_bound env (sd_objs (m_dev m)) a job"
    "columns_independent job \<Longrightarrow> copied job STRELA_NUM_IO_COLS (sd_objs (m_dev m)) (sd_objs (m_dev m'))"
    "same_objs (sd_objs (m_dev m)) (sd_objs (m_dev m'))"
    using driver_executes[OF idle e(4,1) sub fed] by metis
  have one: "one_object env a t" unfolding a_def by (rule conf_submit_one_object[OF lk(3)])
  show thesis using that[OF m'(1,2,5)] submit_copies[OF m'(3) one r(1,2) m'(4)] by blast
qed

lemma execute_copies:
  assumes inv: "lib_inv d bs fs" and ok: "strela_dev_ok d" and krn: "kernel_ok krn"
    and slot: "slot_of d (backward_compat_job d) submittable = Some i" "slot_submit (dev_jobs d ! i) = conf_submit d krn conf h"
    and fd: "fresh_fd d i fd" and idle: "idle_sim m" and g: "grants env (m_dev m) h" and at: "attached env d (m_dev m) k t"
    and rq: "request_ok d bs (conf_submit d krn conf h)"
  defines "a \<equiv> conf_submit d krn conf h"
  shows "\<exists>d' m'. system_execute env fd d m = Some (d', m', STRELA_JOB_OK) \<and> lib_inv d' bs fs \<and> strela_dev_ok d'
    \<and> idle_sim m' \<and> attached env d' (m_dev m') k t
    \<and> (\<forall>c < STRELA_NUM_IO_COLS. \<forall>l < out_len a c. load32 (dev_mem d') (word_addr (tensors_bo_map d) (out_word a c l))
         = load32 (dev_mem d) (word_addr (tensors_bo_map d) (in_word a c l)))
    \<and> changed_only (dev_mem d) (dev_mem d') (out_bytes d a)"
proof -
  let ?env = "\<lparr>js_submit = - 0, js_close = True, js_export = Inr fd\<rparr>"
  obtain m' where m': "driver_execute env a m = Some (m', 0, True)" "idle_sim m'" "same_objs (sd_objs (m_dev m)) (sd_objs (m_dev m'))"
    and cp: "\<And>i l. i < STRELA_NUM_IO_COLS \<Longrightarrow> l < out_len a i \<Longrightarrow>
       obj_word (sd_objs (m_dev m')) t (out_word a i l) = obj_word (sd_objs (m_dev m)) t (in_word a i l)"
    "\<And>n. (\<And>i l. i < STRELA_NUM_IO_COLS \<Longrightarrow> l < out_len a i \<Longrightarrow> n \<noteq> out_word a i l) \<Longrightarrow>
       obj_word (sd_objs (m_dev m')) t n = obj_word (sd_objs (m_dev m)) t n"
    using driver_runs_conf[OF idle g at krn rq] unfolding a_def by metis
  have si: "slots_inv d" using inv by (simp add: lib_inv_def)
  obtain d2 where d2: "same_mem d d2" "strela_execute ?env Poll_ready (Inr 1) Poll_ready (Inr 1) d = Some (d2, STRELA_JOB_OK)" "strela_dev_ok d2" "slots_inv d2"
    using execute_done[OF si ok slot(1) _ _ _ fd, of ?env 1 Poll_ready "Inr 1"] by auto
  have i2: "lib_inv d2 bs fs" by (rule lib_inv_same_mem[OF inv d2(1,4)])
  have same: "dev_mem d2 = dev_mem d" "tensors_bo_map d2 = tensors_bo_map d" "tensors_bo_handle d2 = tensors_bo_handle d"
    "kernels_bo_handle d2 = kernels_bo_handle d" using d2(1) by (simp_all add: same_mem_def)
  have mp: "mapped (dev_mem d) (tensors_bo_map d) 13107200 (obj_word (sd_objs (m_dev m)) t)"
    and lk: "env_gem_lookup env (tensors_bo_handle d) = Some t" using at by (simp_all add: attached_def)
  have rq': "request_ok d bs a" using rq by (simp add: a_def)
  have fed: "bd_count (sub_outputs a ! i) \<le> bd_count (sub_inputs a ! i)" if "i < STRELA_NUM_IO_COLS" for i
    using rq' that by (simp add: request_ok_def submit_fed_def)
  note v = view_after_copy[OF inv mp rq' cp fed conf_submit_shape(1,2)[of d krn conf h, folded a_def]]
  let ?m = "object_view (dev_mem d) (tensors_bo_map d) 13107200 (obj_word (sd_objs (m_dev m')) t)"
  let ?d = "d2\<lparr>dev_mem := ?m\<rparr>"
  have "changed_only (dev_mem d2) ?m (\<Union> (payload ` useds bs))"
    unfolding same(1) by (rule changed_only_mono[OF v(2) out_bytes_owned[OF rq']])
  then have "lib_inv ?d bs fs" by (rule device_writes_inv[OF i2])
  moreover have "attached env ?d (m_dev m') k t"
    using at v(1) m'(3) same by (simp add: attached_def same_objs_def)
  moreover have "unat (job_handle (backward_compat_job d)) = i" using slot(1) by (auto simp: slot_of_def split: if_splits)
  then have "system_execute env fd d m = Some (?d, m', STRELA_JOB_OK)"
    using m'(1) d2(2) slot(2) lk same by (simp add: system_execute_def a_def)
  moreover have "strela_dev_ok ?d" using d2(3) by (simp add: strela_dev_ok_def)
  ultimately show ?thesis using m'(2) v(2,3) by (intro exI[of _ ?d] exI[of _ m']) simp
qed

section \<open>An example\<close>

text \<open>
  An open device with one buffer of 64 words, and a driver that has its two objects.  The job copies the
  first half of the buffer to the second.
\<close>

definition half_conf :: "u32 \<Rightarrow> strela_conf" where
  "half_conf ofs = no_conf\<lparr>inp0_offset := ofs, inp0_count := 32, inp0_stride := 1, out0_offset := ofs + 32, out0_count := 32\<rparr>"

definition client_device :: "mem \<Rightarrow> addr \<Rightarrow> strela_device" where
  "client_device mem base = (idle_device True)\<lparr>sd_objs := (\<lambda>x. if x = 8
     then \<lparr>gem_size = 52428800, gem_dma_addr = 0, gem_vaddr = Some (map (\<lambda>k. load32 mem (word_addr base k)) [0..<13107200])\<rparr>
     else \<lparr>gem_size = 40960, gem_dma_addr = 0, gem_vaddr = Some (replicate 10240 0)\<rparr>)\<rparr>"

lemma client_idle: "idle_sim (machine_init (client_device mem base))"
proof -
  have "fresh_device (client_device mem base)"
    by (simp add: fresh_device_def client_device_def idle_device_def gem_ok_def del: upt_rec_numeral)
  then show ?thesis using reachable.init by (simp add: idle_sim_def machine_init_def client_device_def idle_device_def)
qed

lemma client_grants: "grants system_env (m_dev (machine_init (client_device mem base))) 9"
  by (simp add: grants_def system_env_def fresh_alloc_def machine_init_def client_device_def idle_device_def)

lemma client_attached:
  assumes "kernels_bo_handle d = 1" "tensors_bo_handle d = 2"
  shows "attached system_env d (m_dev (machine_init (client_device (dev_mem d) (tensors_bo_map d)))) 7 8"
  using assms by (simp add: attached_def system_env_def machine_init_def client_device_def mapped_def obj_word_def del: upt_rec_numeral)

lemma buffer_client:
  obtains d bs fs buf b where "lib_inv d bs fs" "strela_dev_ok d" "\<forall>s \<in> set (dev_jobs d). slot_phase s = STRELA_JOB_FREE"
    "dev_fd d = 5" "\<not> job_valid (backward_compat_job d)" "kernels_bo_handle d = 1" "tensors_bo_handle d = 2"
    "owns d bs buf b" "size_words buf = 64"
proof -
  obtain d where d: "strela_dev_ok d" "lib_inv d [Free (unat (tensors_bo_map d)) 52428800] (rev [0..<128])"
    "\<forall>s \<in> set (dev_jobs d). slot_phase s = STRELA_JOB_FREE" "dev_fd d = 5" by (rule open_device)
  define e where "e = d\<lparr>backward_compat_job := \<lparr>job_valid = False, job_handle = 0\<rparr>, kernels_bo_handle := 1, tensors_bo_handle := 2\<rparr>"
  let ?bs = "[Free (unat (tensors_bo_map d)) 52428800]"
  have ie: "lib_inv e ?bs (rev [0..<128])" using d(2) by (simp add: e_def lib_inv_def slots_inv_def heap_inv_def kernels_inv_def maps_apart_def)
  have oe: "strela_dev_ok e" using d(1) by (simp add: e_def strela_dev_ok_def)
  have hi: "heap_inv e ?bs" using ie by (simp add: lib_inv_def)
  have "fits (eff_size (64 * 4) 64) 64 (Free (unat (tensors_bo_map d)) 52428800)"
    using pad_of_props(2)[of 64 "unat (tensors_bo_map d)" 12] by (simp add: fits_def eff_size_def eff_align_def round_up_def)
  then have nf: "\<not> (\<forall>b \<in> set ?bs. \<not> fits (eff_size (64 * 4) 64) 64 b)" by simp
  obtain d' buf bs' b m fl where r: "strela_buffer_alloc e 64 = Some (d', buf)" "d' = e\<lparr>dev_mem := m, buffer_free_list := fl\<rparr>"
    "changed_only (dev_mem e) m (free_bytes ?bs)" "strela_dev_ok d'" "heap_inv d' bs'" "owns d' bs' buf b" "size_words buf = 64"
    using buffer_alloc_result[OF oe hi, of 64] nf by auto
  have "free_bytes ?bs \<subseteq> {unat (tensors_bo_map e)..<unat (tensors_bo_map e) + 52428800}" by (auto simp: free_bytes_def e_def)
  then have "lib_inv d' bs' (rev [0..<128])" unfolding r(2)
    using lib_inv_heap[OF ie r(5)[unfolded r(2)]] changed_only_mono[OF r(3)] by blast
  then show thesis using that[of d' bs' "rev [0..<128]" buf b] r d(3,4) by (simp add: e_def)
qed

lemma half_request:
  assumes "lib_inv d bs fs" "owns d bs buf b" "size_words buf = 64"
  shows "request_ok d bs (conf_submit d krn (half_conf (offset_words_from_base buf)) h)"
proof -
  let ?o = "offset_words_from_base buf" let ?a = "conf_submit d krn (half_conf ?o) h"
  have hi: "heap_inv d bs" using assms(1) by (simp add: lib_inv_def)
  have le: "unat ?o + 64 \<le> 13107200" using owns_ptr(5)[OF hi assms(2)] assms(3) by simp
  then have u: "unat (?o + 32) = unat ?o + 32" using unat_add_nowrap[of ?o 32] by simp
  have c1: "out_len ?a i = 0" if "i < 4" "i \<noteq> 0" for i
  proof -
    have "i = 1 \<or> i = 2 \<or> i = 3" using that by linarith
    then show ?thesis by (auto simp: out_len_def conf_submit_def Let_def half_conf_def no_conf_def)
  qed
  have "out_len ?a 0 = 32" by (simp add: out_len_def conf_submit_def Let_def half_conf_def)
  note c = c1 this
  have w: "out_word ?a 0 k = unat ?o + 32 + k" "in_word ?a 0 k = unat ?o + k" for k
    using u by (simp_all add: out_word_def in_word_def conf_submit_def Let_def half_conf_def)
  have "submit_independent ?a" unfolding submit_independent_def
  proof (intro allI impI)
    fix i k assume i: "i < STRELA_NUM_IO_COLS" "k < out_len ?a i"
    then have "i = 0" using c(1)[of i] by (cases "i = 0") (auto simp: STRELA_NUM_IO_COLS_def)
    then show "(\<forall>l < k. in_word ?a i k \<noteq> out_word ?a i l)
        \<and> (\<forall>j < i. \<forall>l < out_len ?a j. out_word ?a j l \<noteq> out_word ?a i k \<and> out_word ?a j l \<noteq> in_word ?a i k)"
      using i(2) c(2) by (simp add: w)
  qed
  moreover have "submit_fed ?a"
    by (auto simp: submit_fed_def conf_submit_def Let_def half_conf_def no_conf_def STRELA_NUM_IO_COLS_def numeral_eq_Suc less_Suc_eq)
  moreover have "\<forall>b \<in> set (sub_inputs ?a) \<union> unstrided ` set (sub_outputs ?a). binding_fits 52428800 b"
    using le u by (auto simp: conf_submit_def Let_def half_conf_def no_conf_def binding_fits_def unstrided_def)
  moreover have "\<exists>b \<in> useds bs. {unat (tensors_bo_map d) + out_word ?a i 0 * 4..<unat (tensors_bo_map d) + out_word ?a i (out_len ?a i) * 4} \<subseteq> payload b"
    if i: "i < STRELA_NUM_IO_COLS" "out_len ?a i \<noteq> 0" for i
  proof -
    have "i = 0" using i c(1)[of i] by (cases "i = 0") (auto simp: STRELA_NUM_IO_COLS_def)
    then show ?thesis using assms(2,3) by (intro bexI[of _ b]) (auto simp: w c(2) owns_def payload_def)
  qed
  ultimately show ?thesis by (simp add: request_ok_def)
qed

text \<open>Configuring a job on a device with all slots free takes the first.\<close>

lemma config_first:
  assumes inv: "lib_inv d bs fs" and ok: "strela_dev_ok d" and free: "\<forall>s \<in> set (dev_jobs d). slot_phase s = STRELA_JOB_FREE"
    and nj: "\<not> job_valid (backward_compat_job d)" and h: "h \<noteq> 0"
  obtains d' where "strela_config renv renv' (Inr h) d first_kernel conf = Some d'" "strela_dev_ok d'" "create_ok (Inr h) d" "lib_inv d' bs fs"
    "dev_fd d' = dev_fd d" "held slot_fd (dev_jobs d') = {}" "dev_mem d' = dev_mem d" "tensors_bo_map d' = tensors_bo_map d"
    "kernels_bo_handle d' = kernels_bo_handle d" "tensors_bo_handle d' = tensors_bo_handle d"
proof -
  have none: "held slot_sync (dev_jobs d) = {}" "held slot_fd (dev_jobs d) = {}" using free by (auto simp: held_def slot_sync_def slot_fd_def)
  then have c: "create_ok (Inr h) d" using h by (simp add: create_ok_def fresh_sync_def)
  have si: "slots_inv d" and l: "0 < length (dev_jobs d)" using inv slots_length[OF inv] by (simp_all add: lib_inv_def)
  let ?s = "(dev_jobs d ! 0)\<lparr>slot_phase := STRELA_JOB_CONFIGURED, slot_fence_fd := - 1, slot_submit := conf_submit d first_kernel conf h\<rparr>"
  let ?d = "set_slot 0 ?s (log_calls [Syncobj_created h] d)"
  have r: "strela_job_config renv' (Inr h) d first_kernel conf = Some (?d, first_job)"
    using free_first[OF slots_length[OF inv] free] by (simp add: job_config_result[OF ok c] kernel_ok_def first_kernel_def first_job_def)
  have "slots_inv (?d\<lparr>backward_compat_job := first_job\<rparr>)" using job_config_inv[OF r si c] by (simp add: slots_inv_def)
  then have "lib_inv (?d\<lparr>backward_compat_job := first_job\<rparr>) bs fs"
    by (rule lib_inv_same_mem[OF inv, rotated]) (simp add: same_mem_def set_slot_def)
  moreover have "held slot_fd (dev_jobs ?d) = {}" using si l none by (simp add: held_update slots_inv_def slot_fd_def)
  ultimately show thesis using that[of "?d\<lparr>backward_compat_job := first_job\<rparr>"] r nj ok c
    by (simp add: strela_config_def strela_dev_ok_def set_slot_def)
qed

section \<open>A request the driver refuses\<close>

lemma submit_objs:
  assumes "strela_submit_ioctl env args d = (d', ret)"
  shows "sd_objs d' = sd_objs d"
proof -
  have r: "sd_objs d2 = sd_objs d1" if "submit_resolve env args j (zeroed_job f) d1 = (d2, job, so, r)" for j f d1 d2 job so r
    by (rule submit_resolve_result[OF that]) simp
  show ?thesis using assms
    by (auto simp: strela_submit_ioctl_def Let_def strela_job_put_bindings_def dest!: r split: if_splits option.splits prod.splits)
qed

text \<open>The object shows the same words, so the client's memory is the same.\<close>

lemma object_view_same:
  assumes "unat base + n * 4 \<le> 4294967296" "mapped m base n w"
  shows "object_view m base n w = m"
proof -
  have "changed_only m (object_view m base n w) {}" using object_view_changed[OF assms, of "{}" w] by simp
  then show ?thesis by (simp add: changed_only_def fun_eq_iff)
qed

lemma execute_refused:
  assumes inv: "lib_inv d bs fs" and ok: "strela_dev_ok d" and slot: "slot_of d (backward_compat_job d) submittable = Some i"
    and at: "attached env d (m_dev m) k t"
    and ref: "strela_submit_ioctl env (slot_submit (dev_jobs d ! i)) (m_dev m) = (sdev, ret)" "ret \<noteq> 0"
  shows "system_execute env fd d m = Some ((log_calls [Ioctl_submit (slot_submit (dev_jobs d ! i))] d)\<lparr>dev_errnum := - ret\<rparr>,
    m\<lparr>m_dev := sdev\<rparr>, STRELA_JOB_FAILED)"
proof -
  let ?env = "\<lparr>js_submit = - ret, js_close = True, js_export = Inr fd\<rparr>"
  let ?d = "(log_calls [Ioctl_submit (slot_submit (dev_jobs d ! i))] d)\<lparr>dev_errnum := - ret\<rparr>"
  have ui: "unat (job_handle (backward_compat_job d)) = i" using slot by (auto simp: slot_of_def split: if_splits)
  have n: "\<not> strela_dev_ok ?d" using ref(2) by (simp add: strela_dev_ok_def strela_err)
  have "strela_execute ?env Poll_timeout (Inr 1) Poll_timeout (Inr 1) d = Some (?d, STRELA_JOB_FAILED)"
    using ok slot ref(2) n
    by (simp add: strela_execute_def strela_job_submit_def slot_get_result strela_job_wait_def strela_job_poll_def assert_c_def Let_def)
  moreover have b: "unat (tensors_bo_map d) + 13107200 * 4 \<le> 4294967296" using lib_inv_geometry[OF inv] by (simp add: geometry_def)
  have "object_view (dev_mem d) (tensors_bo_map d) 13107200 (obj_word (sd_objs sdev) t) = dev_mem d"
    using object_view_same[OF b] at submit_objs[OF ref(1)] by (simp add: attached_def)
  ultimately show ?thesis using ref ui at by (simp add: system_execute_def driver_execute_def attached_def)
qed

end
