(* ===== verification/LibAbi.thy ===== *)
theory LibAbi
  imports LibProps
begin

text \<open>
  The requests that the library sends.  Whatever a program asks for, a submit has the shape that the
  interface of the driver prescribes and names the two objects of the device, and a cache
  synchronisation has valid flags and lies inside the object that it names.
\<close>

section \<open>Well-formed requests\<close>

definition submit_wf :: "strela_dev \<Rightarrow> drm_strela_submit \<Rightarrow> bool" where
  "submit_wf d a \<longleftrightarrow> length (sub_inputs a) = STRELA_NUM_IO_COLS \<and> length (sub_outputs a) = STRELA_NUM_IO_COLS
     \<and> (\<forall>b \<in> set (sub_inputs a). bd_handle b = tensors_bo_handle d) \<and> (\<forall>b \<in> set (sub_outputs a). bd_handle b = tensors_bo_handle d)
     \<and> bd_handle (sub_config a) = kernels_bo_handle d \<and> bd_count (sub_config a) = STRELA_KERNEL_SIZE
     \<and> unat (bd_offset (sub_config a)) * 4 + 320 \<le> unat STRELA_KERNEL_MEMORY_SIZE
     \<and> sub_out_syncobj a \<noteq> 0 \<and> sub_flags a = 0 \<and> sub_in_syncobj a = 0 \<and> sub_pad a = 0"

text \<open>The number of bytes of the object behind a handle is that of the pool or that of the heap.\<close>

definition sync_wf :: "strela_dev \<Rightarrow> drm_strela_gem_sync \<Rightarrow> bool" where
  "sync_wf d a \<longleftrightarrow> gs_flags a \<in> {DRM_STRELA_SYNC_FINI OR DRM_STRELA_SYNC_WRITE, DRM_STRELA_SYNC_PREP OR DRM_STRELA_SYNC_READ}
     \<and> gs_length a \<noteq> 0 \<and> 4 dvd unat (gs_offset a) \<and> 4 dvd unat (gs_length a)
     \<and> (gs_handle a = kernels_bo_handle d \<and> unat (gs_offset a) + unat (gs_length a) \<le> unat STRELA_KERNEL_MEMORY_SIZE
        \<or> gs_handle a = tensors_bo_handle d \<and> unat (gs_offset a) + unat (gs_length a) \<le> unat STRELA_TENSOR_MEMORY_SIZE)"

fun request_wf :: "strela_dev \<Rightarrow> lcall \<Rightarrow> bool" where
  "request_wf d (Ioctl_submit a) = submit_wf d a"
| "request_wf d (Ioctl_gem_sync a) = sync_wf d a"
| "request_wf d _ = True"

definition slots_wf :: "strela_dev \<Rightarrow> bool" where
  "slots_wf d \<longleftrightarrow> (\<forall>s \<in> set (dev_jobs d). slot_phase s \<noteq> STRELA_JOB_FREE \<longrightarrow> submit_wf d (slot_submit s))"

text \<open>A call sends only well-formed requests, keeps the two objects, and what it leaves in the slots is
  well-formed again.\<close>

definition sends :: "strela_dev \<Rightarrow> strela_dev \<Rightarrow> bool" where
  "sends d d' \<longleftrightarrow> tensors_bo_handle d' = tensors_bo_handle d \<and> kernels_bo_handle d' = kernels_bo_handle d \<and> slots_wf d'
     \<and> (\<exists>cs. dev_calls d' = dev_calls d @ cs \<and> list_all (request_wf d) cs)"

lemma request_wf_cong:
  assumes "tensors_bo_handle d' = tensors_bo_handle d" "kernels_bo_handle d' = kernels_bo_handle d"
  shows "request_wf d' c = request_wf d c" "submit_wf d' a = submit_wf d a"
  using assms by (cases c; simp add: submit_wf_def sync_wf_def)+

lemma slots_wf_cong:
  assumes "tensors_bo_handle d' = tensors_bo_handle d" "kernels_bo_handle d' = kernels_bo_handle d" "dev_jobs d' = dev_jobs d"
  shows "slots_wf d' = slots_wf d"
  using assms by (simp add: slots_wf_def request_wf_cong(2)[OF assms(1,2)])

lemma sends_quiet:
  assumes "slots_wf d" "tensors_bo_handle d' = tensors_bo_handle d" "kernels_bo_handle d' = kernels_bo_handle d"
    "dev_jobs d' = dev_jobs d" "dev_calls d' = dev_calls d"
  shows "sends d d'"
  using assms slots_wf_cong[OF assms(2-4)] by (simp add: sends_def)

lemma sends_refl [simp]: "sends d d = slots_wf d"
  by (simp add: sends_def)

lemma sends_trans [trans]: "sends d d1 \<Longrightarrow> sends d1 d2 \<Longrightarrow> sends d d2"
  by (auto simp: sends_def list_all_iff request_wf_cong(1)[of d1 d])

lemma sends_slots: "sends d d' \<Longrightarrow> slots_wf d'"
  by (simp add: sends_def)

lemma sends_errnum: "sends d d' \<Longrightarrow> sends d (d'\<lparr>dev_errnum := e\<rparr>)"
  by (auto simp: sends_def slots_wf_cong[of "d'\<lparr>dev_errnum := e\<rparr>" d'])

lemma sends_log: "sends d d' \<Longrightarrow> list_all (request_wf d) cs \<Longrightarrow> sends d (log_calls cs d')"
  by (auto simp: sends_def slots_wf_cong[of "log_calls cs d'" d'])

lemma sends_slot:
  assumes "sends d d'" "slot_phase s = STRELA_JOB_FREE \<or> submit_wf d (slot_submit s)"
  shows "sends d (set_slot i s d')"
proof -
  have h: "tensors_bo_handle d' = tensors_bo_handle d" "kernels_bo_handle d' = kernels_bo_handle d" using assms(1) by (simp_all add: sends_def)
  have c: "submit_wf (set_slot i s d') a = submit_wf d a" "submit_wf d' a = submit_wf d a" for a
    using request_wf_cong(2)[of "set_slot i s d'" d a] request_wf_cong(2)[OF h] h by (simp_all add: set_slot_def)
  then have "slots_wf (set_slot i s d')"
    using assms sends_slots[OF assms(1)] set_update_subset_insert[of "dev_jobs d'" i s] by (auto simp: slots_wf_def set_slot_def)
  then show ?thesis using assms(1) by (auto simp: sends_def set_slot_def)
qed

lemma slots_wf_nth: "slots_wf d \<Longrightarrow> i < length (dev_jobs d) \<Longrightarrow> slot_phase (dev_jobs d ! i) \<noteq> STRELA_JOB_FREE \<Longrightarrow> submit_wf d (slot_submit (dev_jobs d ! i))"
  by (auto simp: slots_wf_def)

section \<open>Cache synchronisation\<close>

lemma sync_sends:
  assumes "slots_wf d" "flags \<in> {DRM_STRELA_SYNC_FINI OR DRM_STRELA_SYNC_WRITE, DRM_STRELA_SYNC_PREP OR DRM_STRELA_SYNC_READ}"
    and "h = kernels_bo_handle d \<and> unat ofs * 4 + unat n * 4 \<le> 40960 \<or> h = tensors_bo_handle d \<and> unat ofs * 4 + unat n * 4 \<le> 52428800"
  shows "sends d (strela_sync ret d h flags ofs n)"
proof -
  have u: "unat (ofs * 4) = unat ofs * 4" "unat (n * 4) = unat n * 4"
    using assms(3) unat_mult_nowrap[of ofs 4] unat_mult_nowrap[of n 4] by auto
  let ?a = "\<lparr>gs_handle = h, gs_flags = flags, gs_offset = ucast (ofs * 4), gs_length = ucast (n * 4)\<rparr>"
  have nz: "(ucast (n * 4) :: u64) \<noteq> 0" if "n \<noteq> 0"
    using that u(2) unat_ucast_64[of "n * 4"] by (metis mult_eq_0_iff unat_0 unat_eq_zero zero_neq_numeral)
  have "sync_wf d ?a" if "n \<noteq> 0"
    using assms(2,3) nz[OF that] by (auto simp: sync_wf_def u lib_sizes)
  then show ?thesis using assms(1) sends_log[of d d "[Ioctl_gem_sync ?a]"]
    by (auto simp: strela_sync_def Let_def intro: sends_errnum)
qed

lemma kernel_offset:
  assumes "kernel_handle krn < 128"
  shows "unat (kernel_handle krn * STRELA_KERNEL_SIZE) = unat (kernel_handle krn) * 80" "unat (kernel_handle krn) < 128"
proof -
  show l: "unat (kernel_handle krn) < 128" using assms by (simp add: word_less_nat_alt)
  then show "unat (kernel_handle krn * STRELA_KERNEL_SIZE) = unat (kernel_handle krn) * 80"
    using unat_mult_nowrap[of "kernel_handle krn" 80] by (simp add: STRELA_KERNEL_SIZE_def)
qed

lemma kernel_set_sends:
  assumes "slots_wf d"
  shows "sends d (strela_kernel_set ret d krn p)"
proof (cases "strela_dev_ok d \<and> kernel_ok krn")
  case False
  then show ?thesis using assms by (auto simp: strela_kernel_set_def Let_def kernel_ok_def not_less strela_err intro: sends_errnum)
next
  case True
  then have k: "kernel_valid krn" "\<not> 128 \<le> kernel_handle krn" "kernel_handle krn < 128" by (auto simp: kernel_ok_def)
  let ?m = "memmove_n (dev_mem d) (p_buf (kernel_pool d) + kernel_handle krn * STRELA_KERNEL_SIZE * 4) p (unat (STRELA_KERNEL_SIZE * 4))"
  have q: "sends d (d\<lparr>dev_mem := ?m\<rparr>)" by (rule sends_quiet[OF assms]) simp_all
  have "sends (d\<lparr>dev_mem := ?m\<rparr>) (strela_kernel_set ret d krn p)"
    using sync_sends[OF sends_slots[OF q]] kernel_offset[OF k(3)] True by (simp add: strela_kernel_set_def Let_def k STRELA_KERNEL_SIZE_def)
  with q show ?thesis by (rule sends_trans)
qed

lemma buffer_sync_sends:
  assumes "slots_wf d" "flags \<in> {DRM_STRELA_SYNC_FINI OR DRM_STRELA_SYNC_WRITE, DRM_STRELA_SYNC_PREP OR DRM_STRELA_SYNC_READ}"
  shows "sends d (strela_buffer_sync ret d buf flags ofs n)"
proof (cases "strela_dev_ok d \<and> \<not> size_words buf < ofs \<and> \<not> size_words buf - ofs < n \<and> \<not> 13107200 < offset_words_from_base buf
    \<and> \<not> 13107200 - offset_words_from_base buf < size_words buf \<and> buffer_valid buf")
  case False
  then show ?thesis using assms(1) by (auto simp: strela_buffer_sync_def Let_def lib_sizes strela_err intro: sends_errnum)
next
  case True
  then have "unat ofs \<le> unat (size_words buf)" "unat n \<le> unat (size_words buf - ofs)" "unat (offset_words_from_base buf) \<le> 13107200"
    "unat (size_words buf) \<le> unat (13107200 - offset_words_from_base buf)" by (auto simp: not_less word_le_nat_alt)
  moreover have "unat (size_words buf - ofs) = unat (size_words buf) - unat ofs" "unat (13107200 - offset_words_from_base buf) = 13107200 - unat (offset_words_from_base buf)"
    using True by (auto simp: not_less unat_sub)
  ultimately have le: "unat (offset_words_from_base buf) + unat ofs + unat n \<le> 13107200" by linarith
  then have "unat (offset_words_from_base buf + ofs) = unat (offset_words_from_base buf) + unat ofs"
    by (intro unat_add_nowrap) simp
  then show ?thesis using sync_sends[OF assms, of "tensors_bo_handle d"] le True
    by (auto simp: strela_buffer_sync_def Let_def lib_sizes)
qed

lemma flush_sends: "slots_wf d \<Longrightarrow> sends d (strela_buffer_flush ret d buf ofs n)"
  by (simp add: strela_buffer_flush_def Let_def buffer_sync_sends)

lemma inval_sends:
  assumes "slots_wf d"
  shows "sends d (strela_buffer_inval ret d buf ofs n)"
proof -
  let ?e = "d\<lparr>dev_errnum := - STRELA_ERR_BAD_ARG\<rparr>"
  have e: "sends d ?e" using assms sends_errnum[of d d] by simp
  have "sends d (strela_buffer_sync ret ?e buf (DRM_STRELA_SYNC_PREP OR DRM_STRELA_SYNC_READ) ofs n)"
    by (rule sends_trans[OF e buffer_sync_sends[OF sends_slots[OF e]]]) simp
  then show ?thesis using buffer_sync_sends[OF assms] by (simp add: strela_buffer_inval_def Let_def)
qed

section \<open>Jobs\<close>

lemma release_calls_wf [simp]: "list_all (request_wf d) (release_calls s)"
  by (simp add: release_calls_def)

lemma release_sends:
  assumes "strela_job_slot_release env d i = Some d'" "i < length (dev_jobs d)" "slots_wf d"
  shows "sends d d'" "length (dev_jobs d') = length (dev_jobs d)"
  using release_result[OF assms(1,2)] assms(3) by (auto simp: zero_slot_def intro!: sends_slot sends_log)

lemma release_all_sends:
  "release_all env is d = Some d' \<Longrightarrow> slots_wf d \<Longrightarrow> \<forall>i \<in> set is. i < length (dev_jobs d) \<Longrightarrow> sends d d'"
proof (induction "is" arbitrary: d)
  case (Cons i "is")
  obtain d1 where r: "strela_job_slot_release (env i) d i = Some d1" "release_all env is d1 = Some d'"
    using Cons.prems(1) by (auto split: bind_splits)
  note s = release_sends[OF r(1) _ Cons.prems(2)]
  have "sends d1 d'" using Cons.IH[OF r(2)] Cons.prems(3) s sends_slots by simp
  then show ?case using s(1) Cons.prems(3) sends_trans by auto
qed simp

lemma free_all_sends: "strela_job_free_all env d = Some d' \<Longrightarrow> slots_wf d \<Longrightarrow> sends d d'"
  using release_all_sends[of env "[0..<length (dev_jobs d)]" d d'] by (auto simp: strela_job_free_all_def split: if_splits)

lemma job_free_sends:
  assumes "strela_job_free env d job = Some d'" "slots_wf d"
  shows "sends d d'"
  using assms release_sends[of env d _ d'] sends_errnum[of d d] slot_of_Some[of d job "NOT 0"]
  by (auto simp: strela_job_free_def slot_get_result strela_err split: if_splits option.splits)

lemma conf_submit_wf:
  assumes "kernel_ok krn" "h \<noteq> 0"
  shows "submit_wf d (conf_submit d krn conf h)"
proof -
  have "kernel_handle krn < 128" using assms(1) by (simp add: kernel_ok_def)
  then show ?thesis using kernel_offset[of krn] assms(2)
    by (simp add: submit_wf_def conf_submit_def Let_def STRELA_NUM_IO_COLS_def STRELA_KERNEL_MEMORY_SIZE_def) (simp add: STRELA_KERNEL_SIZE_def)
qed

lemma job_config_sends:
  assumes "strela_job_config env create d krn conf = Some (d', job)" "slots_wf d" "strela_dev_ok d \<Longrightarrow> create_ok create d"
  shows "sends d d'"
proof (cases "strela_dev_ok d")
  case False
  then show ?thesis using assms(1,2) by (simp add: job_config_sticky)
next
  case True
  note c = assms(3)[OF True]
  show ?thesis using assms(1,2) c
    by (auto simp: job_config_result[OF True c] Let_def create_ok_def fresh_sync_def split: if_splits option.splits sum.splits
        intro!: sends_errnum sends_slot sends_log conf_submit_wf)
qed

lemma job_submit_sends:
  assumes "strela_job_submit env d job = Some (d', b)" "slots_wf d"
  shows "sends d d'"
proof (cases "strela_dev_ok d \<and> slot_of d job submittable \<noteq> None")
  case False
  then show ?thesis using job_submit_result[OF assms(1)] assms(2) by (auto intro: sends_errnum split: if_splits)
next
  case True
  then obtain i where i: "slot_of d job submittable = Some i" by blast
  let ?s = "dev_jobs d ! i"
  have wf: "submit_wf d (slot_submit ?s)" using slot_of_Some[OF i] slots_wf_nth[OF assms(2)] by auto
  then have l: "list_all (request_wf d) [Ioctl_submit (slot_submit ?s)]" "list_all (request_wf d) (submit_calls env ?s)"
    by (simp_all add: submit_calls_def split: sum.splits)
  moreover have "submit_wf d (slot_submit (submit_slot env ?s))" using wf by (simp add: submit_slot_def)
  ultimately show ?thesis using job_submit_result[OF assms(1)] True i assms(2)
    by (auto split: if_splits intro!: sends_errnum sends_slot sends_log)
qed

lemma job_update_sends:
  assumes "strela_job_update ready info d i = Some d'" "slots_wf d" "i < length (dev_jobs d)"
  shows "sends d d'"
  using assms slots_wf_nth[OF assms(2,3)]
  by (cases "slot_phase (dev_jobs d ! i)") (auto simp: strela_job_update_def Let_def assert_c_def split: if_splits poll_result.splits sum.splits
      intro!: sends_errnum sends_slot)

lemma slot_get_sends:
  assumes "strela_job_slot_get d job P = Some (d', s)" "slots_wf d"
  shows "sends d d' \<and> (strela_dev_ok d' \<longrightarrow> the s < length (dev_jobs d'))"
proof (cases "slot_of d job P")
  case None
  then show ?thesis using assms sends_errnum[of d d] by (auto simp: slot_get_result strela_err split: if_splits)
next
  case (Some i)
  then show ?thesis using assms slot_of_Some[OF Some] by (auto simp: slot_get_result Some split: if_splits)
qed

lemma job_poll_sends: "strela_job_poll ready info d job = Some (d', st) \<Longrightarrow> slots_wf d \<Longrightarrow> sends d d'"
  and job_wait_sends: "strela_job_wait ready info d job = Some (d', b) \<Longrightarrow> slots_wf d \<Longrightarrow> sends d d'"
  and job_fd_sends: "strela_job_fd d job = Some (d', fd) \<Longrightarrow> slots_wf d \<Longrightarrow> sends d d'"
  by (auto simp: strela_job_poll_def strela_job_wait_def strela_job_fd_def Let_def split: bind_splits if_splits prod.splits
      dest!: slot_get_sends dest: job_update_sends sends_slots intro: sends_trans)

section \<open>Opening and closing\<close>

text \<open>Opening and closing send no request at all.\<close>

definition quiet :: "lcall list \<Rightarrow> bool" where
  "quiet cs \<longleftrightarrow> (\<forall>d. list_all (request_wf d) cs)"

lemma quiet_append [simp]: "quiet (xs @ ys) \<longleftrightarrow> quiet xs \<and> quiet ys" and quiet_Nil [simp]: "quiet []"
  and quiet_Cons [simp]: "quiet (c # cs) \<longleftrightarrow> (\<forall>d. request_wf d c) \<and> quiet cs"
  by (auto simp: quiet_def)

lemma openat_quiet: "accel_openat env n = (cs, fd) \<Longrightarrow> quiet cs"
  by (auto simp: accel_openat_def split: accel_open.splits)

lemma iter_close_quiet [simp]: "quiet (fst (accel_iter_close iter))"
  by (simp add: accel_iter_close_def)

lemma next_loop_quiet [simp]: "quiet (fst (iter_next_loop ns err iter))"
  by (induction ns) (simp_all add: accel_iter_close_def)

lemma iter_next_quiet: "quiet (fst (accel_iter_next iter))"
  by (simp add: accel_iter_next_def Let_def split: option.splits prod.splits)

lemma iter_make_quiet: "quiet (fst (accel_iter_make env))"
  using iter_next_quiet by (auto simp: accel_iter_make_def split: sum.splits prod.splits) (metis fst_conv)

lemma find_loop_quiet: "quiet (fst (find_loop env w iter count))"
proof (induction env w iter count rule: find_loop.induct)
  case (1 env w iter count)
  obtain cs afd where o: "accel_openat env (the (ent_name iter)) = (cs, afd)" by (metis surj_pair)
  obtain cs' iter' where n: "accel_iter_next iter = (cs', iter')" by (metis surj_pair)
  have q: "quiet cs" "quiet cs'" using openat_quiet[OF o] iter_next_quiet[of iter] n by simp_all
  show ?case
  proof (cases "accel_iter_is_valid iter \<and> \<not> (afd_fd afd \<noteq> - 1 \<and> strcmp_eq STRELA_DRM_NAME (drm_name afd) \<and> count = w)")
    case True
    let ?count = "if afd_fd afd \<noteq> - 1 \<and> strcmp_eq STRELA_DRM_NAME (drm_name afd) then count + 1 else count"
    obtain cs'' fd where l: "find_loop env w iter' ?count = (cs'', fd)" by (metis surj_pair)
    have "quiet (fst (find_loop env w iter' ?count))" using 1 True o n by simp
    then show ?thesis using True q o n l by (subst find_loop.simps) (simp add: Let_def)
  next
    case False
    then show ?thesis using q o by (subst find_loop.simps) (auto simp: Let_def)
  qed
qed

lemma deinit_internal_quiet: "strela_dev_deinit_internal mu cl t k fd = Some cs \<Longrightarrow> quiet cs"
  by (auto simp: strela_dev_deinit_internal_def assert_c_def split: if_splits bind_splits)

text \<open>The device with another error and some of the quiet calls more.\<close>

definition acquires :: "strela_dev \<Rightarrow> strela_dev \<Rightarrow> bool" where
  "acquires d d' \<longleftrightarrow> (\<exists>e cs. d' = log_calls cs (d\<lparr>dev_errnum := e\<rparr>) \<and> quiet cs)"

lemma acquires_trans [trans]:
  assumes "acquires d d1" "acquires d1 d2"
  shows "acquires d d2"
proof -
  obtain e cs e' cs' where "d1 = log_calls cs (d\<lparr>dev_errnum := e\<rparr>)" "quiet cs" "d2 = log_calls cs' (d1\<lparr>dev_errnum := e'\<rparr>)" "quiet cs'"
    using assms unfolding acquires_def by blast
  then have "d2 = log_calls (cs @ cs') (d\<lparr>dev_errnum := e'\<rparr>)" "quiet (cs @ cs')" by (simp_all add: log_calls_def)
  then show ?thesis unfolding acquires_def by blast
qed

lemma acquires_errnum: "acquires d (d\<lparr>dev_errnum := e\<rparr>)"
  unfolding acquires_def by (rule exI[of _ e], rule exI[of _ "[]"]) (simp add: log_calls_def)

lemma acquires_log: "quiet cs \<Longrightarrow> acquires d (log_calls cs d)"
  unfolding acquires_def by (rule exI[of _ "dev_errnum d"], rule exI[of _ cs]) simp

lemma acquires_refl: "acquires d d"
  using acquires_log[of "[]" d] by (simp add: log_calls_def)

lemma init_gem_acquires: "init_gem a d = (d', h) \<Longrightarrow> acquires d d'"
  by (auto simp: init_gem_def acquires_refl acquires_errnum split: if_splits sum.splits)

lemma init_map_acquires: "init_map a d = (d', h) \<Longrightarrow> acquires d d'"
  by (auto simp: init_map_def acquires_refl acquires_errnum acquires_log split: if_splits sum.splits)

lemma init_acquire_acquires:
  assumes "init_acquire env w d = (d', r)"
  shows "acquires d d'"
proof -
  obtain cs iter where mk: "accel_iter_make (ie_accel env) = (cs, iter)" by (metis surj_pair)
  obtain cs' fd where fl: "find_loop (ie_accel env) w iter 0 = (cs', fd)" by (metis surj_pair)
  have "quiet (cs @ cs')" using iter_make_quiet[of "ie_accel env"] find_loop_quiet[of "ie_accel env" w iter 0] mk fl by simp
  then have "acquires d (log_calls (cs @ cs') d)" by (rule acquires_log)
  also let ?d0 = "if fd = - 1 then (log_calls (cs @ cs') d)\<lparr>dev_errnum := ENODEV\<rparr> else log_calls (cs @ cs') d"
  have "acquires (log_calls (cs @ cs') d) ?d0" by (simp add: acquires_refl acquires_errnum)
  also obtain d1 k where g1: "init_gem (ie_gem_kernels env) ?d0 = (d1, k)" by (metis surj_pair)
  then have "acquires ?d0 d1" by (rule init_gem_acquires)
  also obtain d2 a where m1: "init_map (ie_map_kernels env) d1 = (d2, a)" by (metis surj_pair)
  then have "acquires d1 d2" by (rule init_map_acquires)
  also obtain d3 t where g2: "init_gem (ie_gem_tensors env) d2 = (d3, t)" by (metis surj_pair)
  then have "acquires d2 d3" by (rule init_gem_acquires)
  also obtain d4 b where m2: "init_map (ie_map_tensors env) d3 = (d4, b)" by (metis surj_pair)
  then have "acquires d3 d4" by (rule init_map_acquires)
  finally show ?thesis using assms mk fl g1 m1 g2 m2 by (simp add: init_acquire_def)
qed

lemma acquires_sends: "acquires d d' \<Longrightarrow> slots_wf d \<Longrightarrow> sends d d'"
  by (auto simp: acquires_def quiet_def intro!: sends_log sends_errnum)

lemma reset_quiet:
  assumes "slots_wf d"
  shows "sends d (strela_kernel_free_all d)" "sends d (strela_buffer_free_all d)"
  by (rule sends_quiet[OF assms];
      simp add: strela_kernel_free_all_def strela_buffer_free_all_def Let_def split: prod.splits)+

lemma zero_slots_wf: "dev_jobs d = replicate n zero_slot \<Longrightarrow> slots_wf d"
  by (auto simp: slots_wf_def zero_slot_def)

lemma free_all_idle:
  assumes "strela_job_free_all env d = Some d'" "dev_jobs d = replicate n zero_slot"
  shows "d' = d"
proof -
  have "release_all env is d = Some d'' \<Longrightarrow> \<forall>i \<in> set is. i < n \<Longrightarrow> d'' = d" for "is" d''
  proof (induction "is")
    case (Cons i "is")
    obtain d1 where d1: "strela_job_slot_release (env i) d i = Some d1" "release_all env is d1 = Some d''"
      using Cons.prems(1) by (auto split: bind_splits)
    have "d1 = d" using release_result[OF d1(1)] Cons.prems(2) assms(2) by (simp add: zero_slot_def)
    then show ?case using Cons.IH d1(2) Cons.prems(2) by simp
  qed simp
  from this[of "[0..<length (dev_jobs d)]" d'] show ?thesis using assms by (simp add: strela_job_free_all_def split: if_splits)
qed

lemma init_first_calls:
  assumes "init_first env w d = Some d'" "slots_wf d"
  shows "\<exists>cs. dev_calls d' = dev_calls d @ cs \<and> quiet cs"
    and "if dev_initialized d' \<and> \<not> dev_initialized d then dev_jobs d' = replicate STRELA_JOBS_MAX zero_slot else slots_wf d'"
proof -
  obtain d1 fd kh kb th tb where a: "init_acquire env w d = (d1, fd, (kh, kb), th, tb)" by (metis surj_pair)
  have q: "acquires d d1" by (rule init_acquire_acquires[OF a])
  then obtain cs where cs: "dev_calls d1 = dev_calls d @ cs" "quiet cs" by (auto simp: acquires_def)
  have i: "dev_initialized d1 = dev_initialized d" using q by (auto simp: acquires_def)
  have wf: "slots_wf d1" by (rule sends_slots[OF acquires_sends[OF q assms(2)]])
  have "(\<exists>cs'. d' = log_calls cs' d1 \<and> quiet cs' \<and> \<not> dev_initialized d1)
    \<or> dev_calls d' = dev_calls d1 \<and> dev_jobs d' = replicate STRELA_JOBS_MAX zero_slot"
    using assms(1) a deinit_internal_quiet
    by (fastforce simp: init_first_def assert_c_def Let_def split: if_splits bind_splits)
  then show "\<exists>cs. dev_calls d' = dev_calls d @ cs \<and> quiet cs"
    and "if dev_initialized d' \<and> \<not> dev_initialized d then dev_jobs d' = replicate STRELA_JOBS_MAX zero_slot else slots_wf d'"
    using cs i wf slots_wf_cong[of d' d1] zero_slots_wf[of d'] by auto
qed

text \<open>Opening and closing leave well-formed slots behind.\<close>

definition sent :: "strela_dev \<Rightarrow> strela_dev \<Rightarrow> bool" where
  "sent d d' \<longleftrightarrow> slots_wf d' \<and> (\<exists>cs. dev_calls d' = dev_calls d @ cs \<and> list_all (request_wf d) cs)"

lemma sends_sent: "sends d d' \<Longrightarrow> sent d d'"
  by (simp add: sends_def sent_def)

lemma init_sent:
  assumes "strela_dev_init env w d = Some d'" "slots_wf d"
  shows "sent d d'"
proof (cases "dev_initialized d")
  case True
  let ?d = "d\<lparr>dev_errnum := STRELA_ERR_OK\<rparr>"
  obtain d1 where d1: "strela_job_free_all (ie_release env) ?d = Some d1" "d' = strela_kernel_free_all (strela_buffer_free_all d1)"
    using assms(1) True by (auto simp: strela_dev_init_def assert_c_def Let_def split: if_splits bind_splits)
  have s: "sends d ?d" using assms(2) sends_errnum[of d d] by simp
  note s = sends_trans[OF s free_all_sends[OF d1(1) sends_slots[OF s]]]
  note s = sends_trans[OF s reset_quiet(2)[OF sends_slots[OF s]]]
  note s = sends_trans[OF s reset_quiet(1)[OF sends_slots[OF s]]]
  show ?thesis unfolding d1(2) by (rule sends_sent[OF s])
next
  case False
  let ?d = "d\<lparr>dev_errnum := STRELA_ERR_OK\<rparr>"
  obtain d1 where d1: "init_first env w ?d = Some d1"
    "d' = d1 \<and> \<not> dev_initialized d1 \<or> dev_initialized d1 \<and> (\<exists>d2. strela_job_free_all (ie_release env) d1 = Some d2 \<and> d' = strela_kernel_free_all (strela_buffer_free_all d2))"
    using assms(1) False by (auto simp: strela_dev_init_def assert_c_def Let_def split: if_splits bind_splits)
  have wf: "slots_wf ?d" using slots_wf_cong[of ?d d] assms(2) by simp
  note f = init_first_calls[OF d1(1) wf]
  obtain cs where cs: "dev_calls d1 = dev_calls d @ cs" "list_all (request_wf d) cs" using f(1) by (auto simp: quiet_def)
  have wf1: "slots_wf d1" using f(2) zero_slots_wf[of d1] by (auto split: if_splits)
  have "slots_wf d' \<and> dev_calls d' = dev_calls d1"
  proof (cases "dev_initialized d1")
    case True
    then have "dev_jobs d1 = replicate STRELA_JOBS_MAX zero_slot" using f(2) False by simp
    then have e: "d' = strela_kernel_free_all (strela_buffer_free_all d1)" using d1(2) True free_all_idle by blast
    have "sends d1 d'" using reset_quiet(2)[OF wf1] reset_quiet(1)[OF sends_slots[OF reset_quiet(2)[OF wf1]]] sends_trans unfolding e by blast
    moreover have "dev_calls d' = dev_calls d1"
      unfolding e by (simp add: strela_kernel_free_all_def strela_buffer_free_all_def Let_def split: prod.splits)
    ultimately show ?thesis using sends_slots by blast
  qed (use d1(2) wf1 in simp)
  then show ?thesis using cs by (simp add: sent_def)
qed

lemma deinit_sent:
  assumes "strela_dev_deinit mu cl env d = Some d'" "slots_wf d"
  shows "sent d d'"
proof -
  have "slots_wf d'" using assms(1) zero_slots_wf[of d'] by (auto simp: strela_dev_deinit_def zero_dev_def split: bind_splits if_splits)
  moreover have "\<exists>cs. dev_calls d' = dev_calls d @ cs \<and> list_all (request_wf d) cs"
  proof (cases "dev_initialized d")
    case True
    then obtain d1 cs where d1: "strela_job_free_all env d = Some d1" "dev_calls d' = dev_calls d1 @ cs" "quiet cs"
      using assms(1) deinit_internal_quiet by (fastforce simp: strela_dev_deinit_def zero_dev_def split: bind_splits)
    then show ?thesis using free_all_sends[OF d1(1) assms(2)] by (auto simp: sends_def quiet_def)
  qed (use assms(1) in \<open>auto simp: strela_dev_deinit_def zero_dev_def\<close>)
  ultimately show ?thesis by (simp add: sent_def)
qed

section \<open>All calls\<close>

lemma kernel_alloc_sends: "strela_kernel_alloc d = Some (d', k) \<Longrightarrow> slots_wf d \<Longrightarrow> sends d d'"
  by (rule sends_quiet)
     (auto simp: strela_kernel_alloc_def Let_def assert_c_def split: if_splits prod.splits bind_splits)

lemma buffer_alloc_sends: "strela_buffer_alloc d n = Some (d', b) \<Longrightarrow> slots_wf d \<Longrightarrow> sends d d'"
  by (rule sends_quiet)
     (auto simp: strela_buffer_alloc_def Let_def split: if_splits bind_splits)

lemma buffer_data_sends:
  assumes "slots_wf d"
  shows "strela_buffer_set_data d buf p = Some d' \<Longrightarrow> sends d d'" "strela_buffer_get_data d buf p = Some d' \<Longrightarrow> sends d d'"
    "strela_buffer_free d buf = Some d' \<Longrightarrow> sends d d'"
  by (rule sends_quiet[OF assms];
      auto simp: strela_buffer_set_data_def strela_buffer_get_data_def strela_buffer_free_def split: if_splits bind_splits)+

lemma config_sends:
  assumes "strela_config env env' create d krn conf = Some d'" "slots_wf d" "call_cond (Op_config env env' create krn conf) d bs fs"
  shows "sends d d'"
proof -
  obtain d1 d2 job where d1: "(if job_valid (backward_compat_job d) then strela_job_free env d (backward_compat_job d) else Some d) = Some d1"
    "strela_job_config env' create d1 krn conf = Some (d2, job)" "d' = d2\<lparr>backward_compat_job := job\<rparr>"
    using assms(1) by (auto simp: strela_config_def split: bind_splits)
  have s: "sends d d1" using d1(1) job_free_sends assms(2) by (auto split: if_splits)
  have "create_ok create d1" using assms(3) d1(1) by simp
  note s = sends_trans[OF s job_config_sends[OF d1(2) sends_slots[OF s] this]]
  show ?thesis unfolding d1(3) by (rule sends_trans[OF s sends_quiet[OF sends_slots[OF s]]]) simp_all
qed

lemma execute_sends:
  assumes "strela_execute env ready info ready' info' d = Some (d', st)" "slots_wf d"
  shows "sends d d'"
proof -
  obtain d1 b d2 b2 where "strela_job_submit env d (backward_compat_job d) = Some (d1, b)" "strela_job_wait ready info d1 (backward_compat_job d) = Some (d2, b2)"
    "strela_job_poll ready' info' d2 (backward_compat_job d) = Some (d', st)"
    using assms(1) by (auto simp: strela_execute_def Let_def assert_c_def split: bind_splits if_splits)
  note r = job_submit_sends[OF this(1) assms(2)] job_wait_sends[OF this(2)] job_poll_sends[OF this(3)]
  then show ?thesis using sends_slots sends_trans by blast
qed

lemmas exec_sends = kernel_alloc_sends kernel_set_sends reset_quiet buffer_alloc_sends buffer_data_sends flush_sends inval_sends
  free_all_sends job_free_sends job_config_sends job_submit_sends job_poll_sends job_wait_sends job_fd_sends execute_sends

lemma exec_sent:
  assumes "lib_exec op d = Some d'" "call_cond op d bs fs" "slots_wf d"
  shows "sent d d'"
proof (cases "(\<exists>env w. op = Op_init env w) \<or> (\<exists>mu cl env. op = Op_deinit mu cl env)")
  case True
  then show ?thesis using assms init_sent deinit_sent by auto
next
  case False
  have e: "sends d (d\<lparr>dev_errnum := e\<rparr>)" for e using sends_errnum[of d d] assms(3) by simp
  have "sends d d'"
  proof (cases op)
    case (Op_config env env' create krn conf)
    then show ?thesis using config_sends[of env env' create d krn conf d' bs fs] assms by simp
  qed (use False assms e in \<open>auto simp: strela_dev_reset_err_def strela_kernel_free_def intro: exec_sends\<close>)
  then show ?thesis by (rule sends_sent)
qed

lemma reach_slots_wf: "lib_reach d \<Longrightarrow> slots_wf d"
proof (induction rule: lib_reach.induct)
  case (start m)
  show ?case by (rule zero_slots_wf) (simp add: zero_dev_def)
next
  case (call d op d')
  then show ?case using exec_sent[of op d d'] by (auto simp: call_ok_def sent_def)
qed

text \<open>C8. Whatever a program asks for, each request that a call of the library sends to the driver is
  well-formed.  A submit has four inputs and four outputs, all in the tensors' object of the device,
  a configuration of 80 words inside the kernels' object, a sync object for its fence, and zero in the
  fields that the interface reserves.  A cache synchronisation has the flags of a flush or of an
  invalidation, covers at least one word, whole words, and lies inside the object it names.\<close>

theorem library_requests_well_formed:
  assumes "lib_reach d" "call_ok op d" "lib_exec op d = Some d'"
  shows "\<exists>cs. dev_calls d' = dev_calls d @ cs
    \<and> (\<forall>a. Ioctl_submit a \<in> set cs \<longrightarrow>
         length (sub_inputs a) = STRELA_NUM_IO_COLS \<and> length (sub_outputs a) = STRELA_NUM_IO_COLS
         \<and> (\<forall>b \<in> set (sub_inputs a). bd_handle b = tensors_bo_handle d) \<and> (\<forall>b \<in> set (sub_outputs a). bd_handle b = tensors_bo_handle d)
         \<and> bd_handle (sub_config a) = kernels_bo_handle d \<and> bd_count (sub_config a) = STRELA_KERNEL_SIZE
         \<and> unat (bd_offset (sub_config a)) * 4 + 320 \<le> unat STRELA_KERNEL_MEMORY_SIZE
         \<and> sub_out_syncobj a \<noteq> 0 \<and> sub_flags a = 0 \<and> sub_in_syncobj a = 0 \<and> sub_pad a = 0)
    \<and> (\<forall>a. Ioctl_gem_sync a \<in> set cs \<longrightarrow>
         gs_flags a \<in> {DRM_STRELA_SYNC_FINI OR DRM_STRELA_SYNC_WRITE, DRM_STRELA_SYNC_PREP OR DRM_STRELA_SYNC_READ}
         \<and> gs_length a \<noteq> 0 \<and> 4 dvd unat (gs_offset a) \<and> 4 dvd unat (gs_length a)
         \<and> (gs_handle a = kernels_bo_handle d \<and> unat (gs_offset a) + unat (gs_length a) \<le> unat STRELA_KERNEL_MEMORY_SIZE
            \<or> gs_handle a = tensors_bo_handle d \<and> unat (gs_offset a) + unat (gs_length a) \<le> unat STRELA_TENSOR_MEMORY_SIZE))"
proof -
  obtain bs fs where "call_cond op d bs fs" using assms(2) by (auto simp: call_ok_def)
  from exec_sent[OF assms(3) this reach_slots_wf[OF assms(1)]]
  obtain cs where cs: "dev_calls d' = dev_calls d @ cs" "\<forall>c \<in> set cs. request_wf d c" by (auto simp: sent_def list_all_iff)
  have "submit_wf d a" if "Ioctl_submit a \<in> set cs" for a using cs(2) that by fastforce
  moreover have "sync_wf d a" if "Ioctl_gem_sync a \<in> set cs" for a using cs(2) that by fastforce
  ultimately show ?thesis using cs(1) unfolding submit_wf_def sync_wf_def by blast
qed

theorem library_requests_well_formed_witness:
  "\<exists>d d' a. lib_reach d \<and> strela_job_submit good_submit d first_job = Some (d', True) \<and> dev_calls d' = dev_calls d @ [Ioctl_submit a, Fd_opened 7]
    \<and> length (sub_inputs a) = 4 \<and> bd_count (sub_config a) = 80 \<and> sub_out_syncobj a \<noteq> 0 \<and> sub_pad a = 0"
proof -
  obtain d bs fs where d: "lib_reach d" "strela_dev_ok d" "lib_inv d bs fs" "dev_fd d = 5"
    "slot_phase (dev_jobs d ! 0) = STRELA_JOB_CONFIGURED" "held slot_fd (dev_jobs d) = {}" by (rule configured_device)
  note f = first_submittable[OF d(3,5,4,6)]
  obtain d' b where r: "strela_job_submit good_submit d first_job = Some (d', b)"
    using job_submit_total[of good_submit d first_job] by (auto simp: good_submit_def)
  let ?a = "slot_submit (dev_jobs d ! 0)"
  have c: "dev_calls d' = dev_calls d @ [Ioctl_submit ?a, Fd_opened 7]" "b = True"
    using job_submit_result[OF r] d(2,5) f(1)
    by (simp_all add: good_submit_def submit_calls_def strela_dev_ok_def strela_err)
  have x: "lib_exec (Op_job_submit good_submit first_job) d = Some d'" using r by simp
  have "length (sub_inputs ?a) = 4 \<and> bd_count (sub_config ?a) = 80 \<and> sub_out_syncobj ?a \<noteq> 0 \<and> sub_pad ?a = 0"
    using library_requests_well_formed[OF d(1) f(3) x] c(1) by (auto simp: STRELA_NUM_IO_COLS_def STRELA_KERNEL_SIZE_def)
  then show ?thesis using d(1) r[unfolded c(2)] c(1) by blast
qed

end
