(* ===== verification/CharDriver.thy ===== *)
theory CharDriver
  imports Device
begin

text \<open>
  The older character driver (\<^verbatim>\<open>src/driver/strela_driver.c\<close>, \<^verbatim>\<open>src/include/uapi/strela_ioctl.h\<close>): one client at
  a time maps a region of 4 MiB, programs the registers, and starts the two phases, waiting for the
  completion that the interrupt thread signals.  Names that the newer driver has as well carry the
  suffix \<open>_old\<close>.  What the driver does to the rest of the kernel is recorded in order; the answers of
  the kernel are inputs.
\<close>

section \<open>Interface\<close>

record strela_ctrl =
  ct_conf_offset :: u32
  ct_conf_count :: u32
  ct_inp0_offset :: u32
  ct_inp0_count :: u32
  ct_inp0_stride :: u32
  ct_inp1_offset :: u32
  ct_inp1_count :: u32
  ct_inp1_stride :: u32
  ct_inp2_offset :: u32
  ct_inp2_count :: u32
  ct_inp2_stride :: u32
  ct_inp3_offset :: u32
  ct_inp3_count :: u32
  ct_inp3_stride :: u32
  ct_out0_offset :: u32
  ct_out0_count :: u32
  ct_out1_offset :: u32
  ct_out1_count :: u32
  ct_out2_offset :: u32
  ct_out2_count :: u32
  ct_out3_offset :: u32
  ct_out3_count :: u32

definition STRELA_WORD_SIZE :: u32 where "STRELA_WORD_SIZE = 4"
definition STRELA_DATA_REGION_SIZE :: u32 where "STRELA_DATA_REGION_SIZE = 0x100000 * 4"

text \<open>The argument of the control request is \<open>None\<close> when it cannot be copied from the caller.\<close>

datatype ioctl_old = IOCTL_STRELA_CONTROL "strela_ctrl option" | IOCTL_STRELA_CONFIG | IOCTL_STRELA_EXEC | IOCTL_other

definition EBUSY :: int where "EBUSY = 16"
definition EFAULT :: int where "EFAULT = 14"
definition ENOTTY :: int where "ENOTTY = 25"
definition ETIMEDOUT :: int where "ETIMEDOUT = 110"
definition ERESTARTSYS :: int where "ERESTARTSYS = 512"

lemmas old_errnos = EBUSY_def EFAULT_def ENOTTY_def ETIMEDOUT_def ERESTARTSYS_def

section \<open>State\<close>

datatype ocall =
    Old_writel u32 u32
  | Old_sync_for_device | Old_sync_for_cpu
  | Dma_alloc_pages | Dma_free_pages
  | Request_irq
  | Ida_alloc int | Ida_free int
  | Cdev_add | Cdev_del
  | Device_create | Device_destroy
  | Alloc_chrdev | Unregister_chrdev
  | Class_create | Class_destroy
  | Driver_register | Driver_unregister

text \<open>\<open>od_logical_dev\<close> is whether the logical device is alive; a completion is its count.\<close>

record strela_data =
  od_dma_addr :: u32
  od_in_use :: bool
  od_minor :: int
  od_logical_dev :: bool
  od_irq_status :: u32
  conf_done :: nat
  exec_done :: nat
  od_calls :: "ocall list"

definition olog :: "ocall list \<Rightarrow> strela_data \<Rightarrow> strela_data" where
  "olog cs priv = priv\<lparr>od_calls := od_calls priv @ cs\<rparr>"

lemma olog_simps [simp]:
  "od_dma_addr (olog cs p) = od_dma_addr p" "od_in_use (olog cs p) = od_in_use p" "od_minor (olog cs p) = od_minor p"
  "od_logical_dev (olog cs p) = od_logical_dev p" "od_irq_status (olog cs p) = od_irq_status p"
  "conf_done (olog cs p) = conf_done p" "exec_done (olog cs p) = exec_done p" "od_calls (olog cs p) = od_calls p @ cs"
  by (simp_all add: olog_def)

section \<open>Opening, closing and mapping\<close>

definition strela_open_old :: "strela_data \<Rightarrow> strela_data \<times> int" where
  "strela_open_old priv = (if od_in_use priv then (priv, - EBUSY) else (priv\<lparr>od_in_use := True\<rparr>, 0))"

definition strela_release_old :: "strela_data \<Rightarrow> strela_data \<times> int" where
  "strela_release_old priv = (priv\<lparr>od_in_use := False\<rparr>, 0)"

text \<open>The mapping, with the size asked for and the answer of \<^verbatim>\<open>dma_mmap_pages\<close>: whether the area was changed,
  and the result.\<close>

definition strela_mmap_old :: "u32 \<Rightarrow> int \<Rightarrow> bool \<times> int" where
  "strela_mmap_old requested_size dma_mmap_pages =
     (if requested_size \<noteq> STRELA_DATA_REGION_SIZE then (False, - EINVAL) else (True, dma_mmap_pages))"

section \<open>Requests\<close>

definition check_mul_overflow :: "u32 \<Rightarrow> u32 \<Rightarrow> bool \<times> u32" where
  "check_mul_overflow a b = (2 ^ 32 \<le> unat a * unat b, a * b)"

definition check_add_overflow :: "u32 \<Rightarrow> u32 \<Rightarrow> bool \<times> u32" where
  "check_add_overflow a b = (2 ^ 32 \<le> unat a + unat b, a + b)"

text \<open>True for a range that is out of bounds.\<close>

definition strela_check_bounds :: "u32 \<Rightarrow> u32 \<Rightarrow> u32 \<Rightarrow> bool" where
  "strela_check_bounds offset_words count_words stride =
     (let (over, offset_bytes) = check_mul_overflow offset_words STRELA_WORD_SIZE in
      if over then True else
      let (over, count_bytes) = check_mul_overflow count_words stride in
      if over then True else
      let (over, count_bytes) = check_mul_overflow count_bytes STRELA_WORD_SIZE in
      if over then True else
      let (over, end_bytes) = check_add_overflow offset_bytes count_bytes in
      if over then True else
      if STRELA_DATA_REGION_SIZE < end_bytes then True
      else False)"

definition STRELA_MKINPSIZE :: "u32 \<Rightarrow> u32 \<Rightarrow> u32" where
  "STRELA_MKINPSIZE stride count = push_bit 16 stride OR stride * count"

definition ctrl_writes :: "u32 \<Rightarrow> strela_ctrl \<Rightarrow> ocall list" where
  "ctrl_writes dma_addr ctrl =
    [Old_writel (regs_addr conf_regs) (dma_addr + ct_conf_offset ctrl * STRELA_WORD_SIZE),
     Old_writel (regs_size conf_regs) (ct_conf_count ctrl * STRELA_WORD_SIZE),
     Old_writel (regs_addr (inp_regs ! 0)) (dma_addr + ct_inp0_offset ctrl * STRELA_WORD_SIZE),
     Old_writel (regs_size (inp_regs ! 0)) (STRELA_MKINPSIZE (ct_inp0_stride ctrl * STRELA_WORD_SIZE) (ct_inp0_count ctrl)),
     Old_writel (regs_addr (inp_regs ! 1)) (dma_addr + ct_inp1_offset ctrl * STRELA_WORD_SIZE),
     Old_writel (regs_size (inp_regs ! 1)) (STRELA_MKINPSIZE (ct_inp1_stride ctrl * STRELA_WORD_SIZE) (ct_inp1_count ctrl)),
     Old_writel (regs_addr (inp_regs ! 2)) (dma_addr + ct_inp2_offset ctrl * STRELA_WORD_SIZE),
     Old_writel (regs_size (inp_regs ! 2)) (STRELA_MKINPSIZE (ct_inp2_stride ctrl * STRELA_WORD_SIZE) (ct_inp2_count ctrl)),
     Old_writel (regs_addr (inp_regs ! 3)) (dma_addr + ct_inp3_offset ctrl * STRELA_WORD_SIZE),
     Old_writel (regs_size (inp_regs ! 3)) (STRELA_MKINPSIZE (ct_inp3_stride ctrl * STRELA_WORD_SIZE) (ct_inp3_count ctrl)),
     Old_writel (regs_addr (out_regs ! 0)) (dma_addr + ct_out0_offset ctrl * STRELA_WORD_SIZE),
     Old_writel (regs_size (out_regs ! 0)) (ct_out0_count ctrl * STRELA_WORD_SIZE),
     Old_writel (regs_addr (out_regs ! 1)) (dma_addr + ct_out1_offset ctrl * STRELA_WORD_SIZE),
     Old_writel (regs_size (out_regs ! 1)) (ct_out1_count ctrl * STRELA_WORD_SIZE),
     Old_writel (regs_addr (out_regs ! 2)) (dma_addr + ct_out2_offset ctrl * STRELA_WORD_SIZE),
     Old_writel (regs_size (out_regs ! 2)) (ct_out2_count ctrl * STRELA_WORD_SIZE),
     Old_writel (regs_addr (out_regs ! 3)) (dma_addr + ct_out3_offset ctrl * STRELA_WORD_SIZE),
     Old_writel (regs_size (out_regs ! 3)) (ct_out3_count ctrl * STRELA_WORD_SIZE),
     Old_writel STRELA_REG_OUT_ARB_HOLD 1]"

section \<open>Interrupts\<close>

datatype irqreturn_old = IRQ_NONE_old | IRQ_HANDLED_old | IRQ_WAKE_THREAD_old

definition strela_irq_handler_old :: "u32 \<Rightarrow> strela_data \<Rightarrow> strela_data \<times> irqreturn_old" where
  "strela_irq_handler_old status priv =
     (if status AND STRELA_CMD_PENDING_INT_CONFIG \<noteq> 0
      then ((olog [Old_writel STRELA_REG_CTRL STRELA_CMD_CLEAR_INT_CONFIG] priv)\<lparr>od_irq_status := status\<rparr>, IRQ_WAKE_THREAD_old)
      else if status AND STRELA_CMD_PENDING_INT_EXEC \<noteq> 0
      then ((olog [Old_writel STRELA_REG_CTRL STRELA_CMD_CLEAR_INT_EXEC] priv)\<lparr>od_irq_status := status\<rparr>, IRQ_WAKE_THREAD_old)
      else (priv, IRQ_NONE_old))"

definition strela_irq_thread_fn_old :: "strela_data \<Rightarrow> strela_data \<times> irqreturn_old" where
  "strela_irq_thread_fn_old priv =
     (if od_irq_status priv AND STRELA_CMD_PENDING_INT_CONFIG \<noteq> 0
      then (priv\<lparr>od_irq_status := 0, conf_done := conf_done priv + 1\<rparr>, IRQ_HANDLED_old)
      else if od_irq_status priv AND STRELA_CMD_PENDING_INT_EXEC \<noteq> 0
      then (priv\<lparr>od_irq_status := 0, exec_done := exec_done priv + 1\<rparr>, IRQ_HANDLED_old)
      else (priv, IRQ_NONE_old))"

text \<open>One interrupt: the handler and, if it asks for it, its thread.\<close>

definition irq_old :: "u32 \<Rightarrow> strela_data \<Rightarrow> strela_data" where
  "irq_old status priv =
     (case strela_irq_handler_old status priv of
        (priv, IRQ_WAKE_THREAD_old) \<Rightarrow> fst (strela_irq_thread_fn_old priv) | (priv, _) \<Rightarrow> priv)"

text \<open>Waiting for a completion: \<open>irqs\<close> are the interrupts that arrive until the wait ends, \<open>signal\<close> whether it
  is a signal that ends it.  A completion that is already there is taken at once.\<close>

datatype completion = Conf_done | Exec_done

fun done_count :: "completion \<Rightarrow> strela_data \<Rightarrow> nat" where
  "done_count Conf_done priv = conf_done priv"
| "done_count Exec_done priv = exec_done priv"

fun take_done :: "completion \<Rightarrow> strela_data \<Rightarrow> strela_data" where
  "take_done Conf_done priv = priv\<lparr>conf_done := conf_done priv - 1\<rparr>"
| "take_done Exec_done priv = priv\<lparr>exec_done := exec_done priv - 1\<rparr>"

primrec wait_for_completion :: "completion \<Rightarrow> u32 list \<Rightarrow> bool \<Rightarrow> strela_data \<Rightarrow> strela_data \<times> int" where
  "wait_for_completion c [] signal priv =
     (if 0 < done_count c priv then (take_done c priv, 1) else (priv, if signal then - ERESTARTSYS else 0))"
| "wait_for_completion c (s # ss) signal priv =
     (if 0 < done_count c priv then (take_done c priv, 1) else wait_for_completion c ss signal (irq_old s priv))"

definition strela_ioctl_old :: "u32 list \<Rightarrow> bool \<Rightarrow> ioctl_old \<Rightarrow> strela_data \<Rightarrow> strela_data \<times> int" where
  "strela_ioctl_old irqs signal ioctl_num priv =
     (case ioctl_num of
        IOCTL_STRELA_CONTROL None \<Rightarrow> (priv, - EFAULT)
      | IOCTL_STRELA_CONTROL (Some ctrl) \<Rightarrow>
          (if strela_check_bounds (ct_conf_offset ctrl) (ct_conf_count ctrl) 1
              \<or> strela_check_bounds (ct_inp0_offset ctrl) (ct_inp0_count ctrl) (ct_inp0_stride ctrl)
              \<or> strela_check_bounds (ct_inp1_offset ctrl) (ct_inp1_count ctrl) (ct_inp1_stride ctrl)
              \<or> strela_check_bounds (ct_inp2_offset ctrl) (ct_inp2_count ctrl) (ct_inp2_stride ctrl)
              \<or> strela_check_bounds (ct_inp3_offset ctrl) (ct_inp3_count ctrl) (ct_inp3_stride ctrl)
              \<or> strela_check_bounds (ct_out0_offset ctrl) (ct_out0_count ctrl) 1
              \<or> strela_check_bounds (ct_out1_offset ctrl) (ct_out1_count ctrl) 1
              \<or> strela_check_bounds (ct_out2_offset ctrl) (ct_out2_count ctrl) 1
              \<or> strela_check_bounds (ct_out3_offset ctrl) (ct_out3_count ctrl) 1
           then (priv, - EINVAL)
           else (olog (ctrl_writes (od_dma_addr priv) ctrl) priv, 0))
      | IOCTL_STRELA_CONFIG \<Rightarrow>
          (let priv = olog [Old_sync_for_device, Old_writel STRELA_REG_CTRL STRELA_CMD_CLEAR_CONFIG, Old_writel STRELA_REG_RESET_DMA 1,
                 Old_writel STRELA_REG_CTRL STRELA_CMD_LOAD_CONFIG] priv;
               (priv, ret) = wait_for_completion Conf_done irqs signal priv;
               ret = (if ret = 0 then - ETIMEDOUT else if ret = - ERESTARTSYS then - ERESTARTSYS else 0)
           in (olog [Old_writel STRELA_REG_CTRL STRELA_CMD_CLEAR_STATE] priv, ret))
      | IOCTL_STRELA_EXEC \<Rightarrow>
          (let priv = olog [Old_sync_for_device, Old_writel STRELA_REG_CTRL STRELA_CMD_START_EXEC] priv;
               (priv, ret) = wait_for_completion Exec_done irqs signal priv;
               ret = (if ret = 0 then - ETIMEDOUT else if ret = - ERESTARTSYS then - ERESTARTSYS else 0)
           in (olog [Old_sync_for_cpu] priv, ret))
      | IOCTL_other \<Rightarrow> (priv, - ENOTTY))"

section \<open>Probing, removing and the module\<close>

text \<open>The answers of the kernel and of the device to a probe.\<close>

record probe_env_old =
  oe_kzalloc :: bool
  oe_ioremap :: int
  oe_challenge1 :: u32
  oe_challenge2 :: u32
  oe_response :: u32
  oe_dma_pages :: "u32 option"
  oe_irq :: int
  oe_request_irq :: int
  oe_minor :: int
  oe_cdev_add :: int
  oe_device_create :: int

definition zero_data :: strela_data where
  "zero_data = \<lparr>od_dma_addr = 0, od_in_use = False, od_minor = 0, od_logical_dev = False, od_irq_status = 0,
     conf_done = 0, exec_done = 0, od_calls = []\<rparr>"

definition strela_probe_old :: "probe_env_old \<Rightarrow> strela_data \<times> int" where
  "strela_probe_old env =
     (let priv = zero_data in
      if \<not> oe_kzalloc env then (priv, - ENOMEM)
      else if oe_ioremap env < 0 then (priv, oe_ioremap env)
      else let priv = olog [Old_writel STRELA_REG_OPA (oe_challenge1 env), Old_writel STRELA_REG_OPB (oe_challenge2 env)] priv in
      if oe_response env \<noteq> oe_challenge1 env + oe_challenge2 env then (priv, - EIO)
      else case oe_dma_pages env of
        None \<Rightarrow> (priv, - ENOMEM)
      | Some dma_addr \<Rightarrow>
          let priv = (olog [Dma_alloc_pages] priv)\<lparr>od_dma_addr := dma_addr\<rparr> in
          if oe_irq env < 0 then (priv, oe_irq env)
          else if oe_request_irq env < 0 then (priv, oe_request_irq env)
          else let priv = olog [Request_irq] priv in
          if oe_minor env < 0 then (olog [Dma_free_pages] priv, oe_minor env)
          else let priv = (olog [Ida_alloc (oe_minor env)] priv)\<lparr>od_minor := oe_minor env\<rparr> in
          if oe_cdev_add env < 0 then (olog [Ida_free (oe_minor env), Dma_free_pages] priv, oe_cdev_add env)
          else let priv = olog [Cdev_add] priv in
          if oe_device_create env < 0 then (olog [Cdev_del, Ida_free (oe_minor env), Dma_free_pages] priv, oe_device_create env)
          else ((olog [Device_create] priv)\<lparr>od_logical_dev := True\<rparr>, 0))"

text \<open>Removal reads the parent of the logical device after destroying it: \<open>other_ref\<close> is whether somebody else
  still holds a reference to it then; without one the read is of freed memory (\<open>None\<close>).\<close>

definition strela_remove_old :: "bool \<Rightarrow> strela_data \<Rightarrow> strela_data option" where
  "strela_remove_old other_ref priv = do {
     let priv = (olog [Device_destroy] priv)\<lparr>od_logical_dev := other_ref\<rparr>;
     let priv = olog [Cdev_del, Ida_free (od_minor priv)] priv;
     assert_c (od_logical_dev priv);
     Some (olog [Dma_free_pages] priv)
   }"

definition strela_driver_init :: "int \<Rightarrow> int \<Rightarrow> int \<Rightarrow> ocall list \<times> int" where
  "strela_driver_init alloc_chrdev class_create driver_register =
     (if alloc_chrdev < 0 then ([], alloc_chrdev)
      else if class_create < 0 then ([Alloc_chrdev, Unregister_chrdev], class_create)
      else if driver_register < 0 then ([Alloc_chrdev, Class_create, Class_destroy, Unregister_chrdev], driver_register)
      else ([Alloc_chrdev, Class_create, Driver_register], 0))"

definition strela_driver_exit :: "ocall list" where
  "strela_driver_exit = [Driver_unregister, Class_destroy, Unregister_chrdev]"

end
