(* ===== verification/CharProps.thy ===== *)
theory CharProps
  imports CharDriver
begin

text \<open>
  What the character driver accepts and programs, when its waits end, and what its probe leaves behind.
\<close>

section \<open>Bounds\<close>

definition range_fits :: "u32 \<Rightarrow> u32 \<Rightarrow> u32 \<Rightarrow> bool" where
  "range_fits ofs cnt stride \<longleftrightarrow> unat ofs * 4 + unat cnt * unat stride * 4 \<le> 4194304"

lemma mul_overflow_cases:
  "check_mul_overflow a b = (over, r) \<Longrightarrow> \<not> over \<Longrightarrow> unat r = unat a * unat b"
  "check_mul_overflow a b = (over, r) \<Longrightarrow> over \<longleftrightarrow> 4294967296 \<le> unat a * unat b"
  using unat_mult_nowrap[of a b] by (auto simp: check_mul_overflow_def)

lemma add_overflow_cases:
  "check_add_overflow a b = (over, r) \<Longrightarrow> \<not> over \<Longrightarrow> unat r = unat a + unat b"
  "check_add_overflow a b = (over, r) \<Longrightarrow> over \<longleftrightarrow> 4294967296 \<le> unat a + unat b"
  using unat_add_nowrap[of a b] by (auto simp: check_add_overflow_def)

text \<open>The overflow checks make the arithmetic of the bound exact.\<close>

lemma check_bounds_iff: "strela_check_bounds ofs cnt stride \<longleftrightarrow> \<not> range_fits ofs cnt stride"
proof -
  obtain v1 r1 where c1: "check_mul_overflow ofs STRELA_WORD_SIZE = (v1, r1)" by (metis surj_pair)
  obtain v2 r2 where c2: "check_mul_overflow cnt stride = (v2, r2)" by (metis surj_pair)
  obtain v3 r3 where c3: "check_mul_overflow r2 STRELA_WORD_SIZE = (v3, r3)" by (metis surj_pair)
  obtain v4 r4 where c4: "check_add_overflow r1 r3 = (v4, r4)" by (metis surj_pair)
  have four: "unat STRELA_WORD_SIZE = 4" "unat STRELA_DATA_REGION_SIZE = 4194304"
    by (simp_all add: STRELA_WORD_SIZE_def STRELA_DATA_REGION_SIZE_def)
  have e: "strela_check_bounds ofs cnt stride \<longleftrightarrow> v1 \<or> v2 \<or> v3 \<or> v4 \<or> STRELA_DATA_REGION_SIZE < r4"
    by (simp add: strela_check_bounds_def c1 c2 c3 c4 Let_def)
  note m1 = mul_overflow_cases[OF c1, unfolded four] and m2 = mul_overflow_cases[OF c2]
    and m3 = mul_overflow_cases[OF c3, unfolded four] and m4 = add_overflow_cases[OF c4]
  show ?thesis
  proof (cases "v1 \<or> v2 \<or> v3 \<or> v4")
    case True
    then have "4194304 < unat ofs * 4 + unat cnt * unat stride * 4"
      using m1 m2 m3 m4 by (cases v1; cases v2; cases v3; cases v4) auto
    then show ?thesis using e True by (auto simp: range_fits_def)
  next
    case False
    then have "unat r4 = unat ofs * 4 + unat cnt * unat stride * 4" using m1(1) m2(1) m3(1) m4(1) by simp
    then show ?thesis using e False four by (simp add: range_fits_def word_less_nat_alt not_le)
  qed
qed

definition ctrl_fits :: "strela_ctrl \<Rightarrow> bool" where
  "ctrl_fits c \<longleftrightarrow> range_fits (ct_conf_offset c) (ct_conf_count c) 1
     \<and> range_fits (ct_inp0_offset c) (ct_inp0_count c) (ct_inp0_stride c) \<and> range_fits (ct_inp1_offset c) (ct_inp1_count c) (ct_inp1_stride c)
     \<and> range_fits (ct_inp2_offset c) (ct_inp2_count c) (ct_inp2_stride c) \<and> range_fits (ct_inp3_offset c) (ct_inp3_count c) (ct_inp3_stride c)
     \<and> range_fits (ct_out0_offset c) (ct_out0_count c) 1 \<and> range_fits (ct_out1_offset c) (ct_out1_count c) 1
     \<and> range_fits (ct_out2_offset c) (ct_out2_count c) 1 \<and> range_fits (ct_out3_offset c) (ct_out3_count c) 1"

lemma control_result:
  "strela_ioctl_old irqs sig (IOCTL_STRELA_CONTROL (Some c)) p =
     (if ctrl_fits c then (olog (ctrl_writes (od_dma_addr p) c) p, 0) else (p, - EINVAL))"
  by (simp add: strela_ioctl_old_def check_bounds_iff ctrl_fits_def)

text \<open>The words of a fitting range lie in the region, and its addresses do not wrap.\<close>

lemma range_addresses:
  assumes "range_fits ofs cnt stride" "unat dma + 4194304 \<le> 4294967296" "cnt \<noteq> 0" "stride \<noteq> 0"
  shows "unat (dma + ofs * STRELA_WORD_SIZE) = unat dma + unat ofs * 4" "unat (stride * STRELA_WORD_SIZE) = unat stride * 4"
    "unat (stride * STRELA_WORD_SIZE * cnt) = unat cnt * unat stride * 4"
proof -
  have pos: "1 \<le> unat cnt" "1 \<le> unat stride" using assms(3,4) by (simp_all add: Suc_le_eq unat_gt_0)
  have fit: "unat ofs * 4 + unat cnt * unat stride * 4 \<le> 4194304" using assms(1) by (simp add: range_fits_def)
  have lt: "unat stride \<le> unat cnt * unat stride" using pos(1) by simp
  have o4: "unat (ofs * STRELA_WORD_SIZE) = unat ofs * 4" using unat_mult_nowrap[of ofs 4] fit by (simp add: STRELA_WORD_SIZE_def)
  have "1 \<le> unat cnt * unat stride" using lt pos(2) by linarith
  then have "unat dma + unat ofs * 4 < 4294967296" using fit assms(2) by linarith
  then show "unat (dma + ofs * STRELA_WORD_SIZE) = unat dma + unat ofs * 4"
    using unat_add_nowrap[of dma "ofs * STRELA_WORD_SIZE"] o4 by simp
  show s4: "unat (stride * STRELA_WORD_SIZE) = unat stride * 4"
    using unat_mult_nowrap[of stride 4] fit lt by (simp add: STRELA_WORD_SIZE_def)
  show "unat (stride * STRELA_WORD_SIZE * cnt) = unat cnt * unat stride * 4"
    using unat_mult_nowrap[of "stride * STRELA_WORD_SIZE" cnt] s4 fit by (simp add: ac_simps)
qed

lemma input_size_halves:
  fixes dma :: u32
  assumes "range_fits ofs cnt stride" "unat dma + 4194304 \<le> 4294967296" "cnt \<noteq> 0" "stride \<noteq> 0" "unat cnt * unat stride * 4 \<le> 65535"
  shows "unat (drop_bit 16 (STRELA_MKINPSIZE (stride * STRELA_WORD_SIZE) cnt)) = unat stride * 4"
    "unat (take_bit 16 (STRELA_MKINPSIZE (stride * STRELA_WORD_SIZE) cnt)) = unat cnt * unat stride * 4"
proof -
  note r = range_addresses[OF assms(1-4)]
  have "1 \<le> unat cnt" using assms(3) by (simp add: Suc_le_eq unat_gt_0)
  then have "unat stride \<le> unat cnt * unat stride" by simp
  then have "unat stride * 4 \<le> 65535" using assms(5) by linarith
  then show "unat (drop_bit 16 (STRELA_MKINPSIZE (stride * STRELA_WORD_SIZE) cnt)) = unat stride * 4"
    "unat (take_bit 16 (STRELA_MKINPSIZE (stride * STRELA_WORD_SIZE) cnt)) = unat cnt * unat stride * 4"
    using pack_halves[OF small_take_bit small_take_bit, of "stride * STRELA_WORD_SIZE" "stride * STRELA_WORD_SIZE * cnt"] r(2,3) assms(5)
    by (simp_all add: STRELA_MKINPSIZE_def)
qed

definition ctrl_inputs :: "strela_ctrl \<Rightarrow> (u32 \<times> u32 \<times> u32) list" where
  "ctrl_inputs c = [(ct_inp0_offset c, ct_inp0_count c, ct_inp0_stride c), (ct_inp1_offset c, ct_inp1_count c, ct_inp1_stride c),
     (ct_inp2_offset c, ct_inp2_count c, ct_inp2_stride c), (ct_inp3_offset c, ct_inp3_count c, ct_inp3_stride c)]"

lemma ctrl_inputs_written:
  assumes "i < 4" "ctrl_inputs c ! i = (ofs, cnt, stride)"
  shows "Old_writel (regs_addr (inp_regs ! i)) (dma + ofs * STRELA_WORD_SIZE) \<in> set (ctrl_writes dma c)"
    "Old_writel (regs_size (inp_regs ! i)) (STRELA_MKINPSIZE (stride * STRELA_WORD_SIZE) cnt) \<in> set (ctrl_writes dma c)"
    "ctrl_fits c \<Longrightarrow> range_fits ofs cnt stride"
proof -
  have "i = 0 \<or> i = 1 \<or> i = 2 \<or> i = 3" using assms(1) by auto
  then show "Old_writel (regs_addr (inp_regs ! i)) (dma + ofs * STRELA_WORD_SIZE) \<in> set (ctrl_writes dma c)"
    "Old_writel (regs_size (inp_regs ! i)) (STRELA_MKINPSIZE (stride * STRELA_WORD_SIZE) cnt) \<in> set (ctrl_writes dma c)"
    "ctrl_fits c \<Longrightarrow> range_fits ofs cnt stride"
    using assms(2) by (elim disjE; simp add: ctrl_inputs_def ctrl_writes_def ctrl_fits_def)+
qed


definition one_input :: strela_ctrl where
  "one_input = \<lparr>ct_conf_offset = 0, ct_conf_count = 80, ct_inp0_offset = 100, ct_inp0_count = 10, ct_inp0_stride = 2,
     ct_inp1_offset = 0, ct_inp1_count = 0, ct_inp1_stride = 1, ct_inp2_offset = 0, ct_inp2_count = 0, ct_inp2_stride = 1,
     ct_inp3_offset = 0, ct_inp3_count = 0, ct_inp3_stride = 1, ct_out0_offset = 200, ct_out0_count = 10,
     ct_out1_offset = 0, ct_out1_count = 0, ct_out2_offset = 0, ct_out2_count = 0, ct_out3_offset = 0, ct_out3_count = 0\<rparr>"


text \<open>The check has no 16-bit limit: a range of 16385 words is accepted and its count spills into the
  stride.\<close>

lemma mkinpsize_spills:
  "range_fits 0 16385 1" "unat (drop_bit 16 (STRELA_MKINPSIZE (1 * STRELA_WORD_SIZE) 16385)) = 5"
  "unat (take_bit 16 (STRELA_MKINPSIZE (1 * STRELA_WORD_SIZE) 16385)) = 4"
  by (simp_all add: range_fits_def STRELA_MKINPSIZE_def STRELA_WORD_SIZE_def)

section \<open>Waiting\<close>

definition config_irq :: "u32 \<Rightarrow> bool" where "config_irq s \<longleftrightarrow> s AND STRELA_CMD_PENDING_INT_CONFIG \<noteq> 0"
definition exec_irq :: "u32 \<Rightarrow> bool" where "exec_irq s \<longleftrightarrow> \<not> config_irq s \<and> s AND STRELA_CMD_PENDING_INT_EXEC \<noteq> 0"

fun signals :: "completion \<Rightarrow> u32 \<Rightarrow> bool" where
  "signals Conf_done s = config_irq s"
| "signals Exec_done s = exec_irq s"

lemma irq_counts:
  "done_count c (irq_old s p) = done_count c p + of_bool (signals c s)"
  by (cases c) (auto simp: irq_old_def strela_irq_handler_old_def strela_irq_thread_fn_old_def config_irq_def exec_irq_def)

lemma take_done_count: "done_count c (take_done c p) = done_count c p - 1"
  by (cases c) auto

lemma wait_result_old:
  assumes "done_count c p = 0"
  shows "\<exists>p'. wait_for_completion c irqs sig p = (p', if list_ex (signals c) irqs then 1 else if sig then - ERESTARTSYS else 0)
    \<and> done_count c p' = 0"
  using assms
proof (induction irqs arbitrary: p)
  case (Cons s ss)
  show ?case
  proof (cases "signals c s")
    case True
    then have "done_count c (irq_old s p) = 1" using Cons.prems by (simp add: irq_counts)
    then have "wait_for_completion c ss sig (irq_old s p) = (take_done c (irq_old s p), 1)" by (cases ss) simp_all
    then show ?thesis using Cons.prems True \<open>done_count c (irq_old s p) = 1\<close> by (simp add: take_done_count)
  next
    case False
    then show ?thesis using Cons.IH[of "irq_old s p"] Cons.prems by (simp add: irq_counts)
  qed
qed simp

definition phase_ioctl :: "completion \<Rightarrow> ioctl_old" where
  "phase_ioctl c = (case c of Conf_done \<Rightarrow> IOCTL_STRELA_CONFIG | Exec_done \<Rightarrow> IOCTL_STRELA_EXEC)"

lemma olog_done [simp]: "done_count c (olog cs p) = done_count c p"
  by (cases c) simp_all

lemma phase_result:
  assumes "done_count c p = 0"
  shows "\<exists>p'. strela_ioctl_old irqs sig (phase_ioctl c) p = (p', if list_ex (signals c) irqs then 0 else if sig then - ERESTARTSYS else - ETIMEDOUT)
    \<and> done_count c p' = 0"
proof (cases c)
  case Conf_done
  let ?q = "olog [Old_sync_for_device, Old_writel STRELA_REG_CTRL STRELA_CMD_CLEAR_CONFIG, Old_writel STRELA_REG_RESET_DMA 1,
                 Old_writel STRELA_REG_CTRL STRELA_CMD_LOAD_CONFIG] p"
  obtain p' where w: "wait_for_completion Conf_done irqs sig ?q = (p', if list_ex (signals Conf_done) irqs then 1 else if sig then - ERESTARTSYS else 0)"
    "done_count Conf_done p' = 0" using wait_result_old[of Conf_done ?q irqs sig] assms Conf_done by auto
  then show ?thesis by (auto simp: Conf_done phase_ioctl_def strela_ioctl_old_def Let_def old_errnos)
next
  case Exec_done
  let ?q = "olog [Old_sync_for_device, Old_writel STRELA_REG_CTRL STRELA_CMD_START_EXEC] p"
  obtain p' where w: "wait_for_completion Exec_done irqs sig ?q = (p', if list_ex (signals Exec_done) irqs then 1 else if sig then - ERESTARTSYS else 0)"
    "done_count Exec_done p' = 0" using wait_result_old[of Exec_done ?q irqs sig] assms Exec_done by auto
  then show ?thesis by (auto simp: Exec_done phase_ioctl_def strela_ioctl_old_def Let_def old_errnos)
qed

text \<open>C39. Without a completion left over, a phase request returns 0 exactly when its interrupt arrives while it
  waits.  But a phase that timed out does not withdraw its completion: its late interrupt makes the next
  request of that phase return success at once, before the hardware has finished it.\<close>

theorem char_phase_completion:
  assumes "done_count c p = 0"
  shows "(snd (strela_ioctl_old irqs sig (phase_ioctl c) p) = 0 \<longleftrightarrow> list_ex (signals c) irqs)
    \<and> (\<forall>s. signals c s \<longrightarrow> snd (strela_ioctl_old [] False (phase_ioctl c) p) = - ETIMEDOUT
         \<and> snd (strela_ioctl_old [] sig (phase_ioctl c) (irq_old s (fst (strela_ioctl_old [] False (phase_ioctl c) p)))) = 0)"
proof -
  obtain p1 where p1: "strela_ioctl_old [] False (phase_ioctl c) p = (p1, - ETIMEDOUT)" "done_count c p1 = 0"
    using phase_result[OF assms, of "[]" False] by auto
  have late: "snd (strela_ioctl_old [] sig (phase_ioctl c) (irq_old s p1)) = 0" if "signals c s" for s
  proof -
    have d: "done_count c (irq_old s p1) = 1" using p1(2) that by (simp add: irq_counts)
    then show ?thesis by (cases c) (simp_all add: phase_ioctl_def strela_ioctl_old_def Let_def old_errnos)
  qed
  have "snd (strela_ioctl_old irqs sig (phase_ioctl c) p) = 0 \<longleftrightarrow> list_ex (signals c) irqs"
    using phase_result[OF assms, of irqs sig] by (auto simp: old_errnos split: if_splits)
  then show ?thesis using p1 late by simp
qed

theorem char_phase_completion_witness:
  "snd (strela_ioctl_old [8, 4] False IOCTL_STRELA_CONFIG zero_data) = 0
   \<and> snd (strela_ioctl_old [] False IOCTL_STRELA_CONFIG (irq_old 4 (fst (strela_ioctl_old [] False IOCTL_STRELA_CONFIG zero_data)))) = 0"
proof -
  have "done_count Conf_done zero_data = 0" by (simp add: zero_data_def)
  note t = char_phase_completion[OF this, of "[8, 4]" False]
  have "list_ex (signals Conf_done) [8, 4]" "signals Conf_done 4" by (simp_all add: config_irq_def STRELA_CMD_PENDING_INT_CONFIG_def)
  then show ?thesis using t by (simp add: phase_ioctl_def)
qed

section \<open>Probing and removing\<close>

definition outstanding :: "ocall \<Rightarrow> ocall \<Rightarrow> ocall list \<Rightarrow> int" where
  "outstanding get put cs = int (count_list cs get) - int (count_list cs put)"

text \<open>What a probe holds: pages, minor number, character device, logical device.\<close>

definition held_old :: "int \<Rightarrow> strela_data \<Rightarrow> int list" where
  "held_old minor p = [outstanding Dma_alloc_pages Dma_free_pages (od_calls p), outstanding (Ida_alloc minor) (Ida_free minor) (od_calls p),
     outstanding Cdev_add Cdev_del (od_calls p), outstanding Device_create Device_destroy (od_calls p)]"


definition good_probe_old :: probe_env_old where
  "good_probe_old = \<lparr>oe_kzalloc = True, oe_ioremap = 0, oe_challenge1 = 3, oe_challenge2 = 4, oe_response = 7, oe_dma_pages = Some 4096,
     oe_irq = 40, oe_request_irq = 0, oe_minor = 0, oe_cdev_add = 0, oe_device_create = 0\<rparr>"


text \<open>The module's init undoes what it did on every failure, and its exit undoes a successful init.\<close>

lemma driver_init_balanced:
  assumes "strela_driver_init a c r = (cs, ret)"
  shows "list_all (\<lambda>(get, put). outstanding get put (if ret = 0 then cs @ strela_driver_exit else cs) = 0)
    [(Alloc_chrdev, Unregister_chrdev), (Class_create, Class_destroy), (Driver_register, Driver_unregister)]"
  using assms by (auto simp: strela_driver_init_def strela_driver_exit_def outstanding_def split: if_splits)

end
