(* ===== verification/Spec2Isabelle.thy ===== *)
theory Spec2Isabelle
  imports HeapProps Torture Arena Drv Server System LibAbi CharProps
begin

text \<open>
  STRELA is a coarse-grained reconfigurable array behind a Linux driver.  A program uses it through the
  user library, which opens an accelerator device, keeps a pool of configurations ("kernels") and a
  heap of data buffers in two buffer objects that it maps, and submits jobs: one configuration, up to
  four input and four output ranges.  The driver validates a submit, holds references on the buffer
  objects, queues the job at the DRM scheduler, programs the registers, and moves the job through the
  configuration and the execution phase on the interrupts; a device without hardware is simulated by
  a worker.  An older character driver offers one fixed region and three requests.

  \<^bold>\<open>Conventions.\<close>  The target is the board: 32-bit ARM, little endian (\<^verbatim>\<open>Prelude\<close>).  C integers are words of
  their width, so every wrap-around of the source is in the model; a C structure is a record with the
  fields of the source; a failed \<^verbatim>\<open>assert\<close>, an \<^verbatim>\<open>abort()\<close>, and a use the language does not define are the
  outcome \<^verbatim>\<open>None\<close>.  The allocators run on a byte memory that holds their lists and headers.  Kernel and
  library calls outside the repository are inputs (what they return, collected in records such as
  \<^verbatim>\<open>init_env\<close>, \<^verbatim>\<open>submit_env\<close>, \<^verbatim>\<open>probe_env\<close>) and recorded calls (what the code did to them), and the
  theorems replay the record: references and descriptors are counted over it.

  \<^bold>\<open>Theories and sources.\<close>

  \<^item> \<^verbatim>\<open>Prelude\<close>, \<^verbatim>\<open>Memory\<close>, \<^verbatim>\<open>Align\<close>: words as natural numbers (collection \<^verbatim>\<open>nowrap\<close>), byte memory with 32-bit
    loads and stores (locale \<^verbatim>\<open>word_store\<close>), the rounding functions of \<^verbatim>\<open>lib/allocators.c\<close>.
  \<^item> \<^verbatim>\<open>Pool\<close>, \<^verbatim>\<open>Arena\<close>: the pool and the arena of \<^verbatim>\<open>lib/allocators.c\<close>.  The pool hands out its chunks in
    order, each once (locale \<^verbatim>\<open>chunk_pool\<close>); the arena bumps an offset, zeroes what it returns, and its
    allocations are disjoint.
  \<^item> \<^verbatim>\<open>FreeList\<close>, \<^verbatim>\<open>Layout\<close>, \<^verbatim>\<open>FreeListRefine\<close>, \<^verbatim>\<open>FreeListAlloc\<close>, \<^verbatim>\<open>FreeListFree\<close>, \<^verbatim>\<open>Heap\<close>, \<^verbatim>\<open>HeapProps\<close>: the
    free-list allocator.  \<^verbatim>\<open>FreeList\<close> is the code, \<^verbatim>\<open>Layout\<close> its specification (a row of free and used blocks
    without gaps), \<^verbatim>\<open>fl_rep\<close> of \<^verbatim>\<open>FreeListRefine\<close> the representation relation.  Both searches and the
    insertion are refinements, the two placement policies are first fit and best fit, freeing merges with
    both neighbours, a fresh allocation freed restores the layout.  The locale \<^verbatim>\<open>heap_allocator\<close> is the
    contract a client relies on and \<^verbatim>\<open>flh\<close> its interpretation.
  \<^item> \<^verbatim>\<open>Torture\<close>: \<^verbatim>\<open>tools/test_allocator.c\<close>, a client of that contract; its checks never fail.
  \<^item> \<^verbatim>\<open>Binding\<close>, \<^verbatim>\<open>Device\<close>, \<^verbatim>\<open>Job\<close>, \<^verbatim>\<open>Submit\<close>, \<^verbatim>\<open>Program\<close>: \<^verbatim>\<open>include/uapi/strela_drm.h\<close>, \<^verbatim>\<open>driver/strela_job.c\<close>,
    \<^verbatim>\<open>driver/strela_core.c\<close> and their headers.  The binding check is exact for all values; a submit either
    releases all it took or holds one reference per binding; the registers after programming describe
    ranges inside the objects.
  \<^item> \<^verbatim>\<open>Sim\<close>: the simulated device: a column copies exactly its words, within one object too, as long as no word
    is read after it was overwritten; how long a phase lasts.
  \<^item> \<^verbatim>\<open>Machine\<close>, \<^verbatim>\<open>MachineInv\<close>, \<^verbatim>\<open>MachineProps\<close>: every interleaving of submit, run, free and timeout callbacks, the killing of queued jobs,
    the two halves of the interrupt handler, the simulated worker and removal, as the step relation
    \<^verbatim>\<open>machine_step\<close>.  In each reachable state no freed job is touched, no warning is raised, each fence is
    signalled at most once and belongs to a job that is accounted for; a hung job is taken off the device;
    a simulated job comes to rest with every output word copied (\<^verbatim>\<open>copied\<close>) when no column reads what
    another writes.
  \<^item> \<^verbatim>\<open>MachineRefs\<close>: the references in those runs.  A \<^verbatim>\<open>ledger\<close> (a locale) weighs the calls of the driver so that they
    add up to the shares of its jobs; it is interpreted for the buffer objects and for the fences.  From
    every reachable state the driver can be drained, with all references given back.
  \<^item> \<^verbatim>\<open>Server\<close>: the specification of those runs, a queue and a state per job (\<^verbatim>\<open>serve\<close>), and the refinement: every step
    of the driver is a step of the server or invisible to it (locale \<^verbatim>\<open>simulation\<close>, interpreted as
    \<^verbatim>\<open>serving\<close>).  The order it promises is that of each client; a run shows that fences of different
    clients can signal against the order of their numbers.
  \<^item> \<^verbatim>\<open>Gem\<close>, \<^verbatim>\<open>Drv\<close>: \<^verbatim>\<open>driver/strela_gem.c\<close> and \<^verbatim>\<open>driver/strela_drv.c\<close>: buffer objects, cache synchronisation,
    clients, probe and remove, module load and unload; failures undo exactly what was done.
  \<^item> \<^verbatim>\<open>LibDev\<close>, \<^verbatim>\<open>LibBuffer\<close>, \<^verbatim>\<open>LibJob\<close>, \<^verbatim>\<open>LibInit\<close>: \<^verbatim>\<open>lib/strela.c\<close> and \<^verbatim>\<open>include/strela.h\<close>, function by function: device and
    kernels, buffers, jobs, discovery, opening and closing.
  \<^item> \<^verbatim>\<open>LibJobInv\<close>, \<^verbatim>\<open>LibMem\<close>, \<^verbatim>\<open>LibLife\<close>, \<^verbatim>\<open>LibRun\<close>, \<^verbatim>\<open>LibSafe\<close>, \<^verbatim>\<open>LibProps\<close>: the library as a whole.  \<^verbatim>\<open>lib_inv\<close> is the
    invariant of an open device, \<^verbatim>\<open>closed_inv\<close> of a closed one; every call keeps them (\<^verbatim>\<open>open_step\<close>,
    \<^verbatim>\<open>closed_step\<close>), so no program that passes handles it owns reaches an abort, and the descriptors,
    sync objects and mappings it holds are those of its device and its slots.  The sticky error is the
    locale \<^verbatim>\<open>sticky_interface\<close>, interpreted as \<^verbatim>\<open>strela\<close> on all operations.  A flush and a job the library
    builds are accepted by the driver's checks.
  \<^item> \<^verbatim>\<open>LibAbi\<close>: the requests the library sends, well-formed in every program (\<^verbatim>\<open>sends\<close> is the relation that each
    call keeps).
  \<^item> \<^verbatim>\<open>Shared\<close>, \<^verbatim>\<open>System\<close> and the end of this theory: the library and the driver together.  The tensors' object
    is the memory the client has mapped (\<^verbatim>\<open>mapped\<close>); \<^verbatim>\<open>driver_execute\<close> runs a request of the library through
    submit, scheduler, worker and release, and \<^verbatim>\<open>system_execute\<close> gives what it answers to \<^verbatim>\<open>strela_execute\<close>.
    A job that fits is accepted, copies its columns in the client's memory and is reported as done; a
    request that the driver refuses is reported with its error and changes nothing.
  \<^item> \<^verbatim>\<open>CharDriver\<close>, \<^verbatim>\<open>CharProps\<close>: \<^verbatim>\<open>driver/strela_driver.c\<close> and \<^verbatim>\<open>include/uapi/strela_ioctl.h\<close>.

  \<^bold>\<open>Loops.\<close>  The searches of the free list follow pointers in memory and need not end on an arbitrary one;
  they are partial functions, and they are proved to return on every state the representation relation
  describes.  The directory loops of the library have termination proofs, on the entries left.  The
  simulated worker is a sequence of machine steps and settles after at most twelve of them, one per
  phase change and column.

  \<^bold>\<open>What is assumed.\<close>  A mapping the kernel returns is page aligned, not null, does not wrap and does not
  overlap the other one (\<^verbatim>\<open>init_ok\<close>); a descriptor it returns is not open already; closing an open
  descriptor and destroying an existing object succeed.  A client writes only to kernels and buffers it
  allocated and has not freed, frees a buffer once, asks for fewer than 1073741789 words at a time, and
  resets the sticky error before it closes the device; \<^verbatim>\<open>strela_execute\<close> finds its job finished within the
  two seconds it waits (all in \<^verbatim>\<open>call_cond\<close>).  The scheduler runs one job at a time, takes the jobs of an open file in
  order and chooses freely among files, frees a job after its fence has signalled or after a restart,
  or from the queue when its client is killed, and the interrupt thread runs once per handler that woke it (\<^verbatim>\<open>Machine\<close>).
  Each hypothesis has a witness, a concrete run on which it holds.

  \<^bold>\<open>Not modelled.\<close>  The tables of file, object and device operations hold names of functions, those of other
  parts of the kernel among them (vmap, mmap and printing of buffer objects); \<^verbatim>\<open>vm_close\<close> of the character
  driver prints, and the names of a fence are constants.  The test programs \<^verbatim>\<open>tests/test_strela2.c\<close>, \<^verbatim>\<open>tests/qemu_init.c\<close> and
  \<^verbatim>\<open>tools/test_bypass.c\<close> are clients without logic of their own.  The array itself is not in the repository:
  what a configuration computes is outside, and the simulated device copies its inputs.  Weak memory
  and torn register accesses are not modelled; each function that holds the device lock is one step.

  \<^bold>\<open>Open ends.\<close>  The joint run of library and driver is that of the synchronous interface on a simulated
  device with one client; several clients, whose jobs the scheduler interleaves, are covered by the
  invariants of \<^verbatim>\<open>Machine\<close>, not by the joint run.
\<close>

section \<open>The library and the driver together\<close>

text \<open>C3. A job configured with \<^verbatim>\<open>strela_config\<close> and run with \<^verbatim>\<open>strela_execute\<close> on an idle simulated device, for columns that
  fit, are fed, write inside buffers in use and do not read what the job overwrites, is accepted by the
  driver and reported as done.  Then every output word in the client's memory is the input word it is
  to be copied from, as it was before; no byte outside the outputs has changed; the allocators, the job
  slots and the mapping are consistent as before, and the device is idle for the next job.\<close>

theorem config_execute_copies:
  assumes "lib_inv d0 bs fs" "rel_ok renv" "strela_config renv renv' (Inr h) d0 krn conf = Some d" "strela_dev_ok d"
    and "\<And>d1. (if job_valid (backward_compat_job d0) then strela_job_free renv d0 (backward_compat_job d0) else Some d0) = Some d1
      \<Longrightarrow> create_ok (Inr h) d1"
    and "fd \<noteq> - 1" "fd \<noteq> dev_fd d" "fd \<notin> held slot_fd (dev_jobs d)"
    and "idle_sim m" "grants env (m_dev m) h" "attached env d (m_dev m) k t" "request_ok d bs (conf_submit d krn conf h)"
  shows "\<exists>d' m'. system_execute env fd d m = Some (d', m', STRELA_JOB_OK)
    \<and> (\<forall>c < STRELA_NUM_IO_COLS. \<forall>l < out_len (conf_submit d krn conf h) c.
         load32 (dev_mem d') (word_addr (tensors_bo_map d) (out_word (conf_submit d krn conf h) c l))
         = load32 (dev_mem d) (word_addr (tensors_bo_map d) (in_word (conf_submit d krn conf h) c l)))
    \<and> changed_only (dev_mem d) (dev_mem d') (out_bytes d (conf_submit d krn conf h))
    \<and> lib_inv d' bs fs \<and> strela_dev_ok d' \<and> idle_sim m' \<and> attached env d' (m_dev m') k t"
proof -
  have si: "slots_inv d0" using assms(1) by (simp add: lib_inv_def)
  have inv: "lib_inv d bs fs" using config_safe[OF assms(1,2,5), of renv' krn conf] assms(3) by simp
  obtain i where i: "slot_of d (backward_compat_job d) submittable = Some i" "slot_submit (dev_jobs d ! i) = conf_submit d krn conf h"
    "kernel_ok krn" by (rule config_ready[OF assms(3,4,2) si assms(5)])
  have un: "unshared slot_fd (dev_jobs d)" using inv by (simp add: lib_inv_def slots_inv_def)
  have "fresh_fd d i fd"
    using assms(6-8) held_update[OF un, of i zero_slot] slot_of_Some[OF i(1)] by (simp add: fresh_fd_def)
  from execute_copies[OF inv assms(4) i(3,1,2) this assms(9-12)] show ?thesis by blast
qed

theorem config_execute_copies_witness:
  "\<exists>d m d' m' p. system_execute system_env 7 d m = Some (d', m', STRELA_JOB_OK)
    \<and> (\<forall>l < 32. load32 (dev_mem d') (word_addr p (32 + l)) = load32 (dev_mem d) (word_addr p l))"
proof -
  obtain d0 bs fs buf b where d0: "lib_inv d0 bs fs" "strela_dev_ok d0" "\<forall>s \<in> set (dev_jobs d0). slot_phase s = STRELA_JOB_FREE"
    "dev_fd d0 = 5" "\<not> job_valid (backward_compat_job d0)" "kernels_bo_handle d0 = 1" "tensors_bo_handle d0 = 2"
    "owns d0 bs buf b" "size_words buf = 64" by (rule buffer_client)
  let ?conf = "half_conf (offset_words_from_base buf)" and ?o = "offset_words_from_base buf"
  obtain d where d: "strela_config good_release good_release (Inr 9) d0 first_kernel ?conf = Some d" "strela_dev_ok d" "create_ok (Inr 9) d0"
    "lib_inv d bs fs" "dev_fd d = dev_fd d0" "held slot_fd (dev_jobs d) = {}" "dev_mem d = dev_mem d0" "tensors_bo_map d = tensors_bo_map d0"
    "kernels_bo_handle d = kernels_bo_handle d0" "tensors_bo_handle d = tensors_bo_handle d0"
    by (rule config_first[OF d0(1-3,5), of 9]) auto
  let ?m = "machine_init (client_device (dev_mem d) (tensors_bo_map d))" and ?a = "conf_submit d first_kernel ?conf 9"
  have own: "owns d bs buf b" using d0(8) d(8) by (simp add: owns_def)
  have at: "attached system_env d (m_dev ?m) 7 8" using client_attached d(9,10) d0(6,7) by simp
  have fd: "(7 :: int) \<noteq> - 1" "7 \<noteq> dev_fd d" "7 \<notin> held slot_fd (dev_jobs d)" using d(5,6) d0(4) by simp_all
  obtain d' m' where r: "system_execute system_env 7 d ?m = Some (d', m', STRELA_JOB_OK)"
    "\<forall>c < STRELA_NUM_IO_COLS. \<forall>l < out_len ?a c. load32 (dev_mem d') (word_addr (tensors_bo_map d) (out_word ?a c l))
       = load32 (dev_mem d) (word_addr (tensors_bo_map d) (in_word ?a c l))"
    using config_execute_copies[OF d0(1) _ d(1,2) _ fd client_idle client_grants at half_request[OF d(4) own d0(9)]] d(3) d0(5) by auto
  have "unat ?o + 64 \<le> 13107200" using owns_ptr(5)[OF _ own] d(4) d0(9) by (simp add: lib_inv_def)
  then have u: "unat (?o + 32) = unat ?o + 32" using unat_add_nowrap[of ?o 32] by simp
  have "out_len ?a 0 = 32" "out_word ?a 0 l = unat ?o + 32 + l" "in_word ?a 0 l = unat ?o + l" for l
    using u by (simp_all add: out_len_def out_word_def in_word_def conf_submit_def Let_def half_conf_def)
  then have w: "\<forall>l < 32. load32 (dev_mem d') (word_addr (tensors_bo_map d) (unat ?o + 32 + l)) = load32 (dev_mem d) (word_addr (tensors_bo_map d) (unat ?o + l))"
    using r(2)[rule_format, of 0] by (simp add: STRELA_NUM_IO_COLS_def)
  have "word_addr (word_addr (tensors_bo_map d) (unat ?o)) l = word_addr (tensors_bo_map d) (unat ?o + l)" for l
    by (simp add: word_addr_def algebra_simps)
  then show ?thesis using r(1) w by (intro exI[of _ d] exI[of _ ?m] exI[of _ d'] exI[of _ m'] exI[of _ "word_addr (tensors_bo_map d) (unat ?o)"])
    (simp add: add.assoc)
qed

text \<open>C16. When the driver refuses a request, for whatever reason, \<^verbatim>\<open>strela_execute\<close> returns \<^verbatim>\<open>STRELA_JOB_FAILED\<close> without tripping an
  assertion, the sticky error is the driver's error, and neither the memory, the job slots, the buffers
  nor the driver's jobs and objects have changed.\<close>

theorem refused_execute_reports:
  assumes "lib_inv d bs fs" "strela_dev_ok d" "slot_of d (backward_compat_job d) submittable = Some i" "attached env d (m_dev m) k t"
    "strela_submit_ioctl env (slot_submit (dev_jobs d ! i)) (m_dev m) = (sdev, ret)" "ret \<noteq> 0"
  shows "\<exists>d'. system_execute env fd d m = Some (d', m\<lparr>m_dev := sdev\<rparr>, STRELA_JOB_FAILED)
    \<and> dev_errnum d' = - ret \<and> dev_mem d' = dev_mem d \<and> dev_jobs d' = dev_jobs d \<and> lib_inv d' bs fs
    \<and> sd_objs sdev = sd_objs (m_dev m) \<and> sd_jobs sdev = sd_jobs (m_dev m)"
proof -
  let ?c = "Ioctl_submit (slot_submit (dev_jobs d ! i))"
  have "sd_jobs sdev = sd_jobs (m_dev m)" using submit_failure[OF assms(5,6)] by blast
  moreover have "sub_out_syncobj (slot_submit (dev_jobs d ! i)) \<in> held slot_sync (dev_jobs d)"
    using slot_of_Some[OF assms(3)] by (auto simp: held_def slot_sync_def intro!: bexI[of _ "dev_jobs d ! i"])
  then have "lib_inv ((log_calls [?c] d)\<lparr>dev_errnum := - ret\<rparr>) bs fs"
    using assms(1) by (simp add: lib_inv_def slots_inv_def heap_inv_def kernels_inv_def maps_apart_def)
  ultimately show ?thesis using execute_refused[OF assms] submit_objs[OF assms(5)] by simp
qed

theorem refused_execute_reports_witness:
  "\<exists>d m d' m' e. system_execute system_env 7 d m = Some (d', m', STRELA_JOB_FAILED) \<and> e \<noteq> 0 \<and> dev_errnum d' = e \<and> dev_mem d' = dev_mem d"
proof -
  obtain d0 bs fs where d0: "lib_inv d0 bs fs" "strela_dev_ok d0" "\<forall>s \<in> set (dev_jobs d0). slot_phase s = STRELA_JOB_FREE"
    "\<not> job_valid (backward_compat_job d0)" "kernels_bo_handle d0 = 1" "tensors_bo_handle d0 = 2" by (rule buffer_client)
  let ?conf = "no_conf\<lparr>inp0_count := 20000, inp0_stride := 1\<rparr>"
  obtain d where d: "strela_config good_release good_release (Inr 9) d0 first_kernel ?conf = Some d" "strela_dev_ok d" "create_ok (Inr 9) d0"
    "lib_inv d bs fs" "kernels_bo_handle d = kernels_bo_handle d0" "tensors_bo_handle d = tensors_bo_handle d0"
    by (rule config_first[OF d0(1-4), of 9]) auto
  let ?m = "machine_init (client_device (dev_mem d) (tensors_bo_map d))" and ?a = "conf_submit d first_kernel ?conf 9"
  have si: "slots_inv d0" using d0(1) by (simp add: lib_inv_def)
  obtain i where i: "slot_of d (backward_compat_job d) submittable = Some i" "slot_submit (dev_jobs d ! i) = ?a"
    by (rule config_ready[OF d(1,2) rel_ok_good si]) (use d(3) d0(4) in auto)
  have at: "attached system_env d (m_dev ?m) 7 8" using client_attached d(5,6) d0(5,6) by simp
  obtain sdev ret where s: "strela_submit_ioctl system_env ?a (m_dev ?m) = (sdev, ret)" by (metis surj_pair)
  have "ret \<noteq> 0"
  proof
    assume "ret = 0"
    then obtain job where "job_bound system_env (sd_objs (m_dev ?m)) ?a job"
      using submit_success_job[of system_env ?a "m_dev ?m" sdev 1] s by (auto simp: system_env_def)
    then have "col_bound system_env (sd_objs (m_dev ?m)) ?a job 0" by (simp add: job_bound_def STRELA_NUM_IO_COLS_def)
    then obtain x where "binding_fits (unat (gem_size (sd_objs (m_dev ?m) x))) (sub_inputs ?a ! 0)"
      by (auto simp: col_bound_def bound_def)
    then show False by (simp add: binding_fits_def conf_submit_def Let_def)
  qed
  then show ?thesis using refused_execute_reports[OF d(4,2) i(1) at, of sdev ret 7] s i(2) by (metis neg_0_equal_iff_equal)
qed

end
